(* ===== verification/Prelude.thy ===== *)
theory Prelude
  imports Main "HOL-Library.Word" "HOL-Library.AList"
begin

text \<open>
  Shared vocabulary of the development. It holds what the Go sources use of the language and of
  its standard library: byte strings, errors, panics, \<open>strings\<close>, \<open>encoding/hex\<close>,
  \<open>strconv\<close>, little-endian \<open>encoding/binary\<close>, maps with an iteration order, and the
  generic lemmas on them that the component theories share.

  A Go \<open>string\<close> is a sequence of bytes and an Isabelle \<^typ>\<open>char\<close> is an 8-bit character, so a
  Go string is a \<^typ>\<open>string\<close> and \<open>len\<close> is \<^const>\<open>length\<close>. A \<open>[]byte\<close> is a list of 8-bit
  words. A \<open>uint64\<close> is a 64-bit word, whose arithmetic wraps; an \<open>int64\<close> is an \<^typ>\<open>int\<close> with the
  conversions to and from \<open>uint64\<close> written out.
\<close>

section \<open>Types, errors and outcomes\<close>

type_synonym byte = "8 word"
type_synonym u64 = "64 word"
type_synonym bytes = "byte list"

named_theorems codec \<open>lengths and round trips of the byte-level encodings\<close>
named_theorems gostr \<open>facts on the string functions\<close>
named_theorems gomap \<open>facts on maps kept as association lists\<close>

text \<open>
  A Go error is a message, possibly wrapping another error (\<open>fmt.Errorf\<close> with \<open>%w\<close>) or joining
  several (\<open>errors.Join\<close>). An error response of the object store keeps the two fields the code
  inspects: the HTTP status and the S3 error code.
\<close>

datatype goerr =
    Error string
  | Wrap string goerr
  | Joined "goerr list"
  | S3Error nat string

type_synonym 'a result = "goerr + 'a"

primrec succeeds :: "'a result \<Rightarrow> bool" where
  "succeeds (Inl _) = False"
| "succeeds (Inr _) = True"

text \<open>A Go call returns or panics.\<close>

datatype 'a outcome = Returns 'a | Panics string

fun errors_Is :: "goerr \<Rightarrow> goerr \<Rightarrow> bool" where
  "errors_Is (Wrap m e) t = (Wrap m e = t \<or> errors_Is e t)"
| "errors_Is (Joined es) t = (Joined es = t \<or> list_ex (\<lambda>e. errors_Is e t) es)"
| "errors_Is e t = (e = t)"

text \<open>\<open>errors.Join\<close> of a possibly empty list: no error at all when the list is empty.\<close>

definition errors_Join :: "goerr list \<Rightarrow> goerr option" where
  "errors_Join es = (if es = [] then None else Some (Joined es))"

section \<open>Strings\<close>

definition HasPrefix :: "string \<Rightarrow> string \<Rightarrow> bool" where
  "HasPrefix s p = (take (length p) s = p)"

definition HasSuffix :: "string \<Rightarrow> string \<Rightarrow> bool" where
  "HasSuffix s p = (length p \<le> length s \<and> drop (length s - length p) s = p)"

definition TrimPrefix :: "string \<Rightarrow> string \<Rightarrow> string" where
  "TrimPrefix s p = (if HasPrefix s p then drop (length p) s else s)"

text \<open>\<open>strings.Split\<close> with a separator of one byte.\<close>

fun Split :: "string \<Rightarrow> char \<Rightarrow> string list" where
  "Split [] c = [[]]"
| "Split (x # xs) c =
     (if x = c then [] # Split xs c
      else (case Split xs c of [] \<Rightarrow> [[x]] | y # ys \<Rightarrow> (x # y) # ys))"

text \<open>\<open>strings.SplitN(s, c, 2)\<close>.\<close>

definition SplitN2 :: "string \<Rightarrow> char \<Rightarrow> string list" where
  "SplitN2 s c =
     (if c \<in> set s then [takeWhile (\<lambda>x. x \<noteq> c) s, tl (dropWhile (\<lambda>x. x \<noteq> c) s)] else [s])"

text \<open>\<open>strings.IndexByte\<close>, with -1 for no occurrence.\<close>

definition IndexByte :: "string \<Rightarrow> char \<Rightarrow> int" where
  "IndexByte s c =
     (if c \<in> set s then int (length (takeWhile (\<lambda>x. x \<noteq> c) s)) else - 1)"

fun strings_Join :: "string list \<Rightarrow> string \<Rightarrow> string" where
  "strings_Join [] sep = []"
| "strings_Join [x] sep = x"
| "strings_Join (x # y # ys) sep = x @ sep @ strings_Join (y # ys) sep"

text \<open>The conversions \<open>[]byte(s)\<close> and \<open>string(bs)\<close>.\<close>

definition bytes_of_string :: "string \<Rightarrow> bytes" where
  "bytes_of_string s = map (\<lambda>c. word_of_nat (of_char c)) s"

definition string_of_bytes :: "bytes \<Rightarrow> string" where
  "string_of_bytes bs = map (\<lambda>b. char_of (unat b)) bs"

section \<open>Decimal numbers\<close>

definition digit_char :: "nat \<Rightarrow> char" where
  "digit_char d = char_of (48 + d)"

text \<open>The \<open>%d\<close> verb on an unsigned number.\<close>

fun format_nat :: "nat \<Rightarrow> string" where
  "format_nat n =
     (if n < 10 then [digit_char n] else format_nat (n div 10) @ [digit_char (n mod 10)])"

declare format_nat.simps [simp del]

definition format_int :: "int \<Rightarrow> string" where
  "format_int i = (if i < 0 then ''-'' @ format_nat (nat (- i)) else format_nat (nat i))"

definition digit_val :: "char \<Rightarrow> nat option" where
  "digit_val c =
     (let n = of_char c :: nat in if 48 \<le> n \<and> n \<le> 57 then Some (n - 48) else None)"

datatype num_error = ErrSyntax | ErrRange

text \<open>
  The loop of \<open>strconv.ParseUint(s, 10, bits)\<close>. It scans from the left and stops at the first
  character that is no digit (the value is then 0) or at the first digit with which the number
  leaves the range (the value is then the largest one).
\<close>

fun parse_uint_loop :: "nat \<Rightarrow> nat \<Rightarrow> string \<Rightarrow> nat \<times> num_error option" where
  "parse_uint_loop bits n [] = (n, None)"
| "parse_uint_loop bits n (c # cs) =
     (case digit_val c of
        None \<Rightarrow> (0, Some ErrSyntax)
      | Some d \<Rightarrow>
          if n * 10 + d \<ge> 2 ^ bits then (2 ^ bits - 1, Some ErrRange)
          else parse_uint_loop bits (n * 10 + d) cs)"

definition ParseUint :: "string \<Rightarrow> nat \<Rightarrow> nat \<times> num_error option" where
  "ParseUint s bits = (if s = [] then (0, Some ErrSyntax) else parse_uint_loop bits 0 s)"

definition ParseUint64 :: "string \<Rightarrow> u64 \<times> num_error option" where
  "ParseUint64 s = (case ParseUint s 64 of (n, e) \<Rightarrow> (word_of_nat n, e))"

text \<open>\<open>strconv.ParseInt(s, 10, bits)\<close>: an optional sign, then \<open>ParseUint\<close> and a range check.\<close>

definition ParseInt :: "string \<Rightarrow> nat \<Rightarrow> int \<times> num_error option" where
  "ParseInt s bits =
     (if s = [] then (0, Some ErrSyntax)
      else
        let neg = (hd s = CHR ''-'');
            body = (if hd s = CHR ''+'' \<or> hd s = CHR ''-'' then tl s else s);
            cutoff = 2 ^ (bits - 1) :: nat
        in (case ParseUint body bits of
              (un, Some ErrSyntax) \<Rightarrow> (0, Some ErrSyntax)
            | (un, e) \<Rightarrow>
                if \<not> neg \<and> un \<ge> cutoff then (int cutoff - 1, Some ErrRange)
                else if neg \<and> un > cutoff then (- int cutoff, Some ErrRange)
                else (if neg then - int un else int un, None)))"

text \<open>The conversions between \<open>int64\<close> and \<open>uint64\<close> keep the bit pattern.\<close>

definition uint64_of :: "int \<Rightarrow> u64" where
  "uint64_of i = word_of_int i"

definition int64_of :: "u64 \<Rightarrow> int" where
  "int64_of w = sint w"

section \<open>File paths\<close>

text \<open>
  \<open>filepath.Clean\<close> on a slash-separated path: empty and dot components are dropped, and \<open>..\<close> removes
  the component before it where there is one, is dropped at the root and kept otherwise.
\<close>

definition clean_step :: "bool \<Rightarrow> string list \<Rightarrow> string \<Rightarrow> string list" where
  "clean_step rooted out part =
     (if part = [] \<or> part = ''.'' then out
      else if part = ''..'' then
        (if out \<noteq> [] \<and> last out \<noteq> ''..'' then butlast out
         else if rooted then out else out @ [part])
      else out @ [part])"

definition filepath_Clean :: "string \<Rightarrow> string" where
  "filepath_Clean path =
     (if path = [] then ''.''
      else
        let rooted = (hd path = CHR ''/'');
            body = strings_Join (foldl (clean_step rooted) [] (Split path CHR ''/'')) ''/''
        in if rooted then ''/'' @ body else if body = [] then ''.'' else body)"

text \<open>\<open>filepath.Join\<close> of a directory and a name.\<close>

definition filepath_Join :: "string \<Rightarrow> string \<Rightarrow> string" where
  "filepath_Join dir name =
     (if dir \<noteq> [] then filepath_Clean (dir @ ''/'' @ name)
      else if name \<noteq> [] then filepath_Clean name else [])"

section \<open>Hexadecimal\<close>

definition hex_char :: "nat \<Rightarrow> char" where
  "hex_char n = (if n < 10 then char_of (48 + n) else char_of (87 + n))"

definition hex_val :: "char \<Rightarrow> nat option" where
  "hex_val c =
     (let n = of_char c :: nat in
      if 48 \<le> n \<and> n \<le> 57 then Some (n - 48)
      else if 97 \<le> n \<and> n \<le> 102 then Some (n - 87)
      else if 65 \<le> n \<and> n \<le> 70 then Some (n - 55)
      else None)"

fun hex_EncodeToString :: "bytes \<Rightarrow> string" where
  "hex_EncodeToString [] = []"
| "hex_EncodeToString (b # bs) =
     hex_char (unat b div 16) # hex_char (unat b mod 16) # hex_EncodeToString bs"

text \<open>
  \<open>hex.DecodeString\<close> returns the bytes decoded before the first bad pair, and whether the whole
  string was good (no error).
\<close>

fun hex_DecodeString :: "string \<Rightarrow> bytes \<times> bool" where
  "hex_DecodeString [] = ([], True)"
| "hex_DecodeString [c] = ([], False)"
| "hex_DecodeString (a # b # cs) =
     (case hex_val a of
        None \<Rightarrow> ([], False)
      | Some x \<Rightarrow>
          (case hex_val b of
             None \<Rightarrow> ([], False)
           | Some y \<Rightarrow>
               (case hex_DecodeString cs of
                  (bs, ok) \<Rightarrow> (word_of_nat (16 * x + y) # bs, ok))))"

text \<open>A string of hexadecimal digits none of which is an upper-case letter.\<close>

definition lower_hex :: "string \<Rightarrow> bool" where
  "lower_hex s =
     list_all (\<lambda>c. case hex_val c of None \<Rightarrow> False | Some n \<Rightarrow> c = hex_char n) s"

section \<open>Little-endian numbers, slices and copies\<close>

primrec le_bytes :: "nat \<Rightarrow> nat \<Rightarrow> bytes" where
  "le_bytes 0 n = []"
| "le_bytes (Suc k) n = word_of_nat (n mod 256) # le_bytes k (n div 256)"

primrec le_nat :: "bytes \<Rightarrow> nat" where
  "le_nat [] = 0"
| "le_nat (b # bs) = unat b + 256 * le_nat bs"

text \<open>\<open>binary.LittleEndian.AppendUint64\<close> on an empty slice, and \<open>binary.LittleEndian.Uint64\<close>.\<close>

definition AppendUint64 :: "u64 \<Rightarrow> bytes" where
  "AppendUint64 w = le_bytes 8 (unat w)"

definition Uint64 :: "bytes \<Rightarrow> u64" where
  "Uint64 bs = word_of_nat (le_nat (take 8 bs))"

text \<open>The slice \<open>xs[a:b]\<close>, for bounds the caller has checked.\<close>

definition slice :: "nat \<Rightarrow> nat \<Rightarrow> 'a list \<Rightarrow> 'a list" where
  "slice a b xs = take (b - a) (drop a xs)"

text \<open>\<open>copy(dst[a:b], src)\<close>: the shorter of the two lengths is copied.\<close>

definition copy_into :: "nat \<Rightarrow> nat \<Rightarrow> 'a list \<Rightarrow> 'a list \<Rightarrow> 'a list" where
  "copy_into a b src dst =
     (let n = min (b - a) (length src) in take a dst @ take n src @ drop (a + n) dst)"

text \<open>Cutting a payload into records of a fixed size, as the index scanners do.\<close>

function chunks_of :: "nat \<Rightarrow> 'a list \<Rightarrow> 'a list list" where
  "chunks_of n xs = (if xs = [] \<or> n = 0 then [] else take n xs # chunks_of n (drop n xs))"
  by pat_completeness auto
termination
  by (relation "measure (\<lambda>(n, xs). length xs)") auto

declare chunks_of.simps [simp del]

section \<open>Lemmas: strings\<close>

lemma succeeds_case:
  "succeeds (case r of Inl e \<Rightarrow> Inl e | Inr x \<Rightarrow> f x) \<longleftrightarrow> succeeds r \<and> (\<forall>x. r = Inr x \<longrightarrow> succeeds (f x))"
  by (cases r) auto

lemma succeeds_iff: "succeeds r \<longleftrightarrow> (\<exists>x. r = Inr x)"
  by (cases r) auto


lemma HasPrefix_iff [gostr]: "HasPrefix s p \<longleftrightarrow> (\<exists>t. s = p @ t)"
  by (metis HasPrefix_def append_eq_conv_conj append_take_drop_id)

lemma HasPrefix_append [simp]: "HasPrefix (p @ t) p"
  by (auto simp: HasPrefix_iff)

lemma HasPrefix_appendD: "HasPrefix s (p @ q) \<Longrightarrow> HasPrefix s p"
  by (auto simp: HasPrefix_iff)

lemma HasSuffix_iff [gostr]: "HasSuffix s p \<longleftrightarrow> (\<exists>t. s = t @ p)"
proof
  assume "HasSuffix s p"
  then show "\<exists>t. s = t @ p"
    unfolding HasSuffix_def by (metis append_take_drop_id)
qed (auto simp: HasSuffix_def)

lemma HasSuffix_append [simp]: "HasSuffix (t @ p) p"
  by (auto simp: HasSuffix_iff)

lemma HasSuffix_append_long:
  "length p \<le> length u \<Longrightarrow> HasSuffix (t @ u) p = HasSuffix u p"
  by (auto simp: HasSuffix_def)

lemma TrimPrefix_append [simp]: "TrimPrefix (p @ t) p = t"
  by (simp add: TrimPrefix_def)

lemma Split_not_Nil [simp]: "Split s c \<noteq> []"
  by (cases s) (auto split: list.splits)

lemma Split_no_sep: "c \<notin> set s \<Longrightarrow> Split s c = [s]"
  by (induction s) auto

lemma Split_append_sep: "c \<notin> set s \<Longrightarrow> Split (s @ c # t) c = s # Split t c"
  by (induction s) auto

lemma set_Split_no_sep: "p \<in> set (Split s c) \<Longrightarrow> c \<notin> set p"
proof (induction s arbitrary: p)
  case Nil
  then show ?case by simp
next
  case (Cons x xs)
  then show ?case
    by (cases "Split xs c") (auto split: if_splits)
qed

text \<open>Splitting and joining with the separator in between gives the string back.\<close>

lemma Join_Cons: "ys \<noteq> [] \<Longrightarrow> strings_Join (x # ys) sep = x @ sep @ strings_Join ys sep"
  by (cases ys) auto

lemma Join_first: "strings_Join ((x # y) # ys) sep = x # strings_Join (y # ys) sep"
  by (cases ys) auto

lemma Join_Split: "strings_Join (Split s c) [c] = s"
proof (induction s)
  case (Cons x xs)
  obtain y ys where "Split xs c = y # ys"
    using Split_not_Nil by (metis neq_Nil_conv)
  with Cons show ?case by (auto simp: Join_Cons Join_first)
qed simp

lemma takeWhile_sep: "c \<notin> set s \<Longrightarrow> takeWhile (\<lambda>x. x \<noteq> c) (s @ c # t) = s"
  by (induction s) auto

lemma dropWhile_sep: "c \<notin> set s \<Longrightarrow> dropWhile (\<lambda>x. x \<noteq> c) (s @ c # t) = c # t"
  by (induction s) auto

lemma SplitN2_append: "c \<notin> set s \<Longrightarrow> SplitN2 (s @ c # t) c = [s, t]"
  by (simp add: SplitN2_def takeWhile_sep dropWhile_sep)

lemma SplitN2_no_sep: "c \<notin> set s \<Longrightarrow> SplitN2 s c = [s]"
  by (simp add: SplitN2_def)

lemma SplitN2_cases:
  obtains "c \<notin> set s" "SplitN2 s c = [s]"
  | a b where "s = a @ c # b" "c \<notin> set a" "SplitN2 s c = [a, b]"
proof (cases "c \<in> set s")
  case True
  then obtain a b where "s = a @ c # b" "c \<notin> set a"
    by (meson split_list_first)
  with SplitN2_append that(2) show ?thesis by blast
qed (simp add: SplitN2_no_sep that(1))

lemma IndexByte_append: "c \<notin> set s \<Longrightarrow> IndexByte (s @ c # t) c = int (length s)"
  by (simp add: IndexByte_def takeWhile_sep)

section \<open>Lemmas: decimal numbers\<close>

lemma digit_val_digit_char [simp]: "d < 10 \<Longrightarrow> digit_val (digit_char d) = Some d"
  by (simp add: digit_val_def digit_char_def Let_def of_char_of)

lemma digit_char_ne:
  "d < 10 \<Longrightarrow> digit_char d \<noteq> CHR ''|''" "d < 10 \<Longrightarrow> digit_char d \<noteq> CHR ''/''"
  using digit_val_digit_char by (fastforce simp: digit_val_def)+

lemma format_nat_not_Nil [simp]: "format_nat n \<noteq> []"
  by (subst format_nat.simps) simp

lemma format_nat_digits: "c \<in> set (format_nat n) \<Longrightarrow> \<exists>d < 10. c = digit_char d"
proof (induction n rule: format_nat.induct)
  case (1 n)
  from "1.prems" show ?case
    using "1.IH" mod_less_divisor [of 10 n]
    by (subst (asm) format_nat.simps) (force split: if_splits)
qed

lemma format_nat_no_sep [simp]:
  "CHR ''|'' \<notin> set (format_nat n)" "CHR ''/'' \<notin> set (format_nat n)"
  using format_nat_digits digit_char_ne by (metis)+

lemma parse_uint_loop_append:
  "parse_uint_loop bits a xs = (v, None) \<Longrightarrow>
   parse_uint_loop bits a (xs @ ys) = parse_uint_loop bits v ys"
  by (induction xs arbitrary: a) (auto split: option.splits if_splits)

lemma parse_uint_loop_format:
  "n < 2 ^ bits \<Longrightarrow> parse_uint_loop bits 0 (format_nat n) = (n, None)"
proof (induction n rule: format_nat.induct)
  case (1 n)
  show ?case
  proof (cases "n < 10")
    case True
    with "1.prems" show ?thesis by (simp add: format_nat.simps [of n])
  next
    case False
    have "n div 10 < 2 ^ bits"
      using "1.prems" by (meson div_le_dividend le_less_trans)
    with False "1.IH" have "parse_uint_loop bits 0 (format_nat (n div 10)) = (n div 10, None)"
      by simp
    then have "parse_uint_loop bits 0 (format_nat n)
        = parse_uint_loop bits (n div 10) [digit_char (n mod 10)]"
      using False by (simp add: format_nat.simps [of n] parse_uint_loop_append)
    with "1.prems" show ?thesis by (simp add: mult.commute)
  qed
qed

lemma ParseUint_format [simp]: "n < 2 ^ bits \<Longrightarrow> ParseUint (format_nat n) bits = (n, None)"
  by (simp add: ParseUint_def parse_uint_loop_format)

lemma ParseUint64_format [simp]: "ParseUint64 (format_nat (unat w)) = (w, None)"
proof -
  have "unat w < 2 ^ 64" using unsigned_less [of w] by simp
  then show ?thesis by (simp add: ParseUint64_def)
qed

lemma parse_uint_loop_bound:
  "n < 2 ^ bits \<Longrightarrow> fst (parse_uint_loop bits n s) < 2 ^ bits"
  by (induction s arbitrary: n) (auto split: option.splits)

lemma ParseUint_bound: "fst (ParseUint s bits) < 2 ^ bits"
  by (simp add: ParseUint_def parse_uint_loop_bound)

lemma ParseInt_bounds:
  "- (2 ^ (bits - 1)) \<le> fst (ParseInt s bits) \<and> fst (ParseInt s bits) < 2 ^ (bits - 1)"
proof -
  define c where "c = (2 ^ (bits - 1) :: nat)"
  have c: "0 < c" "int c = 2 ^ (bits - 1)" by (simp_all add: c_def)
  define body where "body = (if hd s = CHR ''+'' \<or> hd s = CHR ''-'' then tl s else s)"
  obtain un e where un: "ParseUint body bits = (un, e)" by (cases "ParseUint body bits") auto
  have "- int c \<le> fst (ParseInt s bits) \<and> fst (ParseInt s bits) < int c"
    using c(1)
    unfolding ParseInt_def Let_def c_def [symmetric] body_def [symmetric] un
    by (auto split: option.split num_error.split)
  with c(2) show ?thesis by simp
qed

lemma int64_of_small: "uint w < 2 ^ 63 \<Longrightarrow> int64_of w = uint w"
proof -
  assume "uint w < 2 ^ 63"
  moreover have "- (2 ^ 63) \<le> uint w" by (rule order_trans [of _ 0]) simp_all
  ultimately show ?thesis by (simp add: int64_of_def sint_uint signed_take_bit_int_eq_self_iff)
qed

section \<open>Lemmas: hexadecimal\<close>

lemma hex_val_hex_char [simp]: "n < 16 \<Longrightarrow> hex_val (hex_char n) = Some n"
  by (auto simp: hex_val_def hex_char_def Let_def of_char_of)

lemma hex_val_bound: "hex_val c = Some n \<Longrightarrow> n < 16"
  by (auto simp: hex_val_def Let_def split: if_splits)

lemma hex_char_ne_slash [simp]:
  "n < 16 \<Longrightarrow> hex_char n \<noteq> CHR ''/''" "n < 16 \<Longrightarrow> CHR ''/'' \<noteq> hex_char n"
  using hex_val_hex_char [of n] by (auto simp: hex_val_def simp del: hex_val_hex_char dest!: sym [of _ "hex_char n"])

lemma unat_byte_lt: "unat (b :: byte) < 256"
  using unsigned_less [of b] by simp

lemma unat_byte_of_nat: "n < 256 \<Longrightarrow> unat (word_of_nat n :: byte) = n"
  by (subst unat_of_nat) simp

lemma string_of_bytes_of_string [simp, codec]: "string_of_bytes (bytes_of_string s) = s"
proof -
  have "char_of (unat (word_of_nat (of_char c) :: byte)) = c" for c :: char
    by (subst unat_byte_of_nat) simp_all
  then show ?thesis
    by (simp add: string_of_bytes_def bytes_of_string_def comp_def)
qed

lemma length_hex_Encode [simp, codec]: "length (hex_EncodeToString bs) = 2 * length bs"
  by (induction bs) auto

lemma lower_hex_Encode [simp]: "lower_hex (hex_EncodeToString bs)"
proof (induction bs)
  case (Cons b bs)
  have "unat b div 16 < 16" using unat_byte_lt [of b] by auto
  with Cons show ?case by (simp add: lower_hex_def)
qed (simp add: lower_hex_def)

lemma hex_Decode_Encode [simp, codec]: "hex_DecodeString (hex_EncodeToString bs) = (bs, True)"
proof (induction bs)
  case (Cons b bs)
  have "unat b div 16 < 16" using unat_byte_lt [of b] by auto
  with Cons show ?case by simp
qed simp

lemma hex_Encode_inj [simp]: "hex_EncodeToString xs = hex_EncodeToString ys \<longleftrightarrow> xs = ys"
  by (metis hex_Decode_Encode fst_conv)

lemma hex_Decode_length:
  "hex_DecodeString s = (bs, True) \<Longrightarrow> length s = 2 * length bs"
  by (induction s arbitrary: bs rule: hex_DecodeString.induct)
    (auto split: option.splits prod.splits)

lemma hex_Encode_Decode:
  "hex_DecodeString s = (bs, True) \<Longrightarrow> lower_hex s \<Longrightarrow> hex_EncodeToString bs = s"
proof (induction s arbitrary: bs rule: hex_DecodeString.induct)
  case (3 a b cs)
  then obtain x y bs' where xy: "hex_val a = Some x" "hex_val b = Some y"
    and bs': "hex_DecodeString cs = (bs', True)" and bs: "bs = word_of_nat (16 * x + y) # bs'"
    by (auto split: option.splits prod.splits)
  have "x < 16" "y < 16" using xy hex_val_bound by auto
  then have "unat (word_of_nat (16 * x + y) :: byte) = 16 * x + y"
    by (intro unat_byte_of_nat) simp
  with 3 xy bs bs' \<open>y < 16\<close> show ?case by (auto simp: lower_hex_def)
qed auto

section \<open>Lemmas: little-endian numbers, slices, records\<close>

lemma length_le_bytes [simp, codec]: "length (le_bytes k n) = k"
  by (induction k arbitrary: n) auto

lemma le_nat_le_bytes [codec]: "le_nat (le_bytes k n) = n mod 256 ^ k"
proof (induction k arbitrary: n)
  case (Suc k)
  have "unat (word_of_nat (n mod 256) :: byte) = n mod 256"
    by (simp add: unat_of_nat)
  with Suc show ?case by (simp add: mod_mult2_eq)
qed simp

lemma length_AppendUint64 [simp, codec]: "length (AppendUint64 w) = 8"
  by (simp add: AppendUint64_def)

lemma Uint64_AppendUint64 [simp, codec]: "Uint64 (AppendUint64 w @ rest) = w"
proof -
  have "unat w < 256 ^ 8" using unsigned_less [of w] by simp
  then show ?thesis
    by (simp add: Uint64_def AppendUint64_def le_nat_le_bytes)
qed

lemma Uint64_AppendUint64' [simp, codec]: "Uint64 (AppendUint64 w) = w"
  using Uint64_AppendUint64 [of w "[]"] by simp

lemma length_slice [simp]: "b \<le> length xs \<Longrightarrow> length (slice a b xs) = b - a"
  by (auto simp: slice_def)

lemma slice_append_left: "b \<le> length xs \<Longrightarrow> slice a b (xs @ ys) = slice a b xs"
  by (simp add: slice_def)

lemma slice_append_right:
  "length xs \<le> a \<Longrightarrow> slice a b (xs @ ys) = slice (a - length xs) (b - length xs) ys"
  by (simp add: slice_def)

lemma slice_all: "slice 0 (length xs) xs = xs"
  by (simp add: slice_def)

lemma length_copy_into [simp]:
  "a \<le> b \<Longrightarrow> b \<le> length dst \<Longrightarrow> length (copy_into a b src dst) = length dst"
  by (auto simp: copy_into_def Let_def)

lemma copy_into_exact:
  "a + length src = b \<Longrightarrow> copy_into a b src dst = take a dst @ src @ drop b dst"
  by (auto simp: copy_into_def Let_def)

lemma chunks_of_Nil [simp]: "chunks_of n [] = []"
  by (simp add: chunks_of.simps)

lemma chunks_of_append:
  "length x = n \<Longrightarrow> 0 < n \<Longrightarrow> chunks_of n (x @ xs) = x # chunks_of n xs"
  by (subst chunks_of.simps) auto

lemma chunks_of_concat:
  "\<forall>x \<in> set xss. length x = n \<Longrightarrow> 0 < n \<Longrightarrow> chunks_of n (concat xss) = xss"
  by (induction xss) (auto simp: chunks_of_append)

lemma length_concat_const:
  "\<forall>x \<in> set xss. length x = n \<Longrightarrow> length (concat xss) = n * length xss"
  by (induction xss) auto

lemma concat_chunks_of: "0 < n \<Longrightarrow> concat (chunks_of n xs) = xs"
  by (induction n xs rule: chunks_of.induct) (subst chunks_of.simps, auto)

lemma chunks_of_eq_Nil_iff: "0 < n \<Longrightarrow> chunks_of n xs = [] \<longleftrightarrow> xs = []"
  by (subst chunks_of.simps) simp

lemma length_chunk:
  "n dvd length xs \<Longrightarrow> x \<in> set (chunks_of n xs) \<Longrightarrow> length x = n"
proof (induction n xs rule: chunks_of.induct)
  case (1 n xs)
  show ?case
  proof (cases "xs = [] \<or> n = 0")
    case False
    with "1.prems"(1) have "n \<le> length xs" by (auto dest: dvd_imp_le)
    moreover from False "1.prems"(1) have "n dvd length (drop n xs)" by simp
    ultimately show ?thesis
      using False "1.prems"(2) "1.IH" [OF False]
      by (auto simp: chunks_of.simps [of n xs] split: if_splits)
  qed (use "1.prems"(2) in \<open>auto simp: chunks_of.simps [of n xs]\<close>)
qed

lemma last_chunks_of:
  "0 < n \<Longrightarrow> n dvd length xs \<Longrightarrow> xs \<noteq> [] \<Longrightarrow> last (chunks_of n xs) = drop (length xs - n) xs"
proof (induction n xs rule: chunks_of.induct)
  case (1 n xs)
  from "1.prems" have n: "n \<le> length xs" by (auto dest: dvd_imp_le)
  have eq: "chunks_of n xs = take n xs # chunks_of n (drop n xs)"
    using "1.prems" by (subst chunks_of.simps) simp
  show ?case
  proof (cases "drop n xs = []")
    case True
    with n eq show ?thesis by simp
  next
    case False
    with "1.prems" n have "last (chunks_of n (drop n xs)) = drop (length (drop n xs) - n) (drop n xs)"
      by (intro "1.IH") auto
    moreover have "n dvd length xs - n" "0 < length xs - n"
      using False "1.prems"(2) by simp_all
    then have "n \<le> length xs - n" by (rule dvd_imp_le)
    ultimately show ?thesis
      using False eq by (simp add: chunks_of_eq_Nil_iff "1.prems"(1))
  qed
qed

lemma foldl_last: "foldl (\<lambda>_ x. f x) a xs = (if xs = [] then a else f (last xs))"
  by (induction xs rule: rev_induct) auto

section \<open>Maps with an iteration order\<close>

text \<open>
  A Go map whose iteration order can be observed is an association list with distinct keys: an
  assignment replaces the entry in place or appends it, and a \<open>range\<close> loop visits the entries in
  some order. Go does not specify that order, so a theorem about a \<open>range\<close> loop that must not
  depend on it is stated for every permutation of the list.
\<close>

type_synonym ('k, 'v) gomap = "('k \<times> 'v) list"

lemma map_of_update [gomap]: "map_of (AList.update k v m) = (map_of m)(k \<mapsto> v)"
  by (rule AList.update_conv')

lemma distinct_keys_update [gomap]:
  "distinct (map fst m) \<Longrightarrow> distinct (map fst (AList.update k v m))"
  by (rule AList.distinct_update)

lemma set_AList_update:
  "distinct (map fst m) \<Longrightarrow> set (AList.update k v m) = insert (k, v) {p \<in> set m. fst p \<noteq> k}"
  by (induction m) (auto simp: rev_image_eqI)

lemma keys_update [gomap]: "fst ` set (AList.update k v m) = insert k (fst ` set m)"
  using arg_cong [OF map_of_update, of dom k v m] by (simp add: dom_map_of_conv_image_fst)

section \<open>Invariants of step relations\<close>

text \<open>
  The interface of a component that changes by steps: an invariant that holds at the start and
  that every step keeps. What is proved once here is that it holds in every state a run reaches.
\<close>

locale stepper =
  fixes start :: "'s \<Rightarrow> bool"
    and step :: "'s \<Rightarrow> 's \<Rightarrow> bool"
    and inv :: "'s \<Rightarrow> bool"
  assumes start_inv: "start s \<Longrightarrow> inv s"
    and step_inv: "inv s \<Longrightarrow> step s t \<Longrightarrow> inv t"
begin

lemma run_inv: "step\<^sup>*\<^sup>* s t \<Longrightarrow> inv s \<Longrightarrow> inv t"
  by (induction rule: rtranclp_induct) (auto intro: step_inv)

lemma reachable_inv: "start s \<Longrightarrow> step\<^sup>*\<^sup>* s t \<Longrightarrow> inv t"
  using run_inv start_inv by blast

end

end
