(* ===== verification/Logging.thy ===== *)
theory Logging
  imports Prelude
begin

text \<open>
  \<open>internal/s3backuplog/s3backuplog.go\<close>: the logger both programs write to. Its state is the debug switch, the
  writer in use, and what every writer has received. The formatting of a line, with date and time, is
  the standard library's; \<open>render\<close> stands for it, and a message is the format with its arguments filled in.
\<close>

section \<open>The logger\<close>

record 'w logger =
  debugEnabled :: bool
  log_writer :: 'w
  log_lines :: "'w \<Rightarrow> string list"

definition log_Printf :: "(string \<Rightarrow> string) \<Rightarrow> string \<Rightarrow> 'w logger \<Rightarrow> 'w logger" where
  "log_Printf render s l =
     l\<lparr>log_lines := (log_lines l)(log_writer l := log_lines l (log_writer l) @ [render s])\<rparr>"

definition EnableDebug :: "'w logger \<Rightarrow> 'w logger" where
  "EnableDebug l = l\<lparr>debugEnabled := True\<rparr>"

definition DebugPrint :: "(string \<Rightarrow> string) \<Rightarrow> string \<Rightarrow> 'w logger \<Rightarrow> 'w logger" where
  "DebugPrint render s l = (if debugEnabled l then log_Printf render (''[DEBUG] '' @ s) l else l)"

definition InfoPrint :: "(string \<Rightarrow> string) \<Rightarrow> string \<Rightarrow> 'w logger \<Rightarrow> 'w logger" where
  "InfoPrint render s l = log_Printf render (''[INFO] '' @ s) l"

definition ErrorPrint :: "(string \<Rightarrow> string) \<Rightarrow> string \<Rightarrow> 'w logger \<Rightarrow> 'w logger" where
  "ErrorPrint render s l = log_Printf render (''[ERROR] '' @ s) l"

definition WarnPrint :: "(string \<Rightarrow> string) \<Rightarrow> string \<Rightarrow> 'w logger \<Rightarrow> 'w logger" where
  "WarnPrint render s l = log_Printf render (''[WARNING] '' @ s) l"

text \<open>\<open>Fatalf\<close> prints and ends the process with status 1.\<close>

definition FatalPrint :: "(string \<Rightarrow> string) \<Rightarrow> string \<Rightarrow> 'w logger \<Rightarrow> nat \<times> 'w logger" where
  "FatalPrint render s l = (1, log_Printf render (''[FATAL] '' @ s) l)"

text \<open>The second component is the function that restores the writer.\<close>

definition SetOutput :: "'w \<Rightarrow> 'w logger \<Rightarrow> 'w logger \<times> ('w logger \<Rightarrow> 'w logger)" where
  "SetOutput w l = (let previous = log_writer l in (l\<lparr>log_writer := w\<rparr>, \<lambda>l. l\<lparr>log_writer := previous\<rparr>))"

section \<open>A program that logs\<close>

text \<open>The printing functions a program calls, in any order.\<close>

datatype log_request = LogDebug string | LogInfo string | LogError string | LogWarn string

fun log_call :: "(string \<Rightarrow> string) \<Rightarrow> 'w logger \<Rightarrow> log_request \<Rightarrow> 'w logger" where
  "log_call render l (LogDebug s) = DebugPrint render s l"
| "log_call render l (LogInfo s) = InfoPrint render s l"
| "log_call render l (LogError s) = ErrorPrint render s l"
| "log_call render l (LogWarn s) = WarnPrint render s l"

fun log_text :: "bool \<Rightarrow> log_request \<Rightarrow> string list" where
  "log_text debug (LogDebug s) = (if debug then [''[DEBUG] '' @ s] else [])"
| "log_text debug (LogInfo s) = [''[INFO] '' @ s]"
| "log_text debug (LogError s) = [''[ERROR] '' @ s]"
| "log_text debug (LogWarn s) = [''[WARNING] '' @ s]"

lemmas print_defs = DebugPrint_def InfoPrint_def ErrorPrint_def WarnPrint_def log_Printf_def

lemma log_call_effect:
  "log_call render l x = l\<lparr>log_lines := (log_lines l)(log_writer l :=
     log_lines l (log_writer l) @ map render (log_text (debugEnabled l) x))\<rparr>"
  by (cases x) (simp_all add: print_defs)

lemma log_calls_effect:
  "foldl (log_call render) l xs = l\<lparr>log_lines := (log_lines l)(log_writer l :=
     log_lines l (log_writer l) @ map render (concat (map (log_text (debugEnabled l)) xs)))\<rparr>"
  by (induction xs arbitrary: l) (simp_all add: log_call_effect)

text \<open>
  Redirected output goes to the new writer only, in order and with debug lines only when enabled; after
  the restore the logger writes where it wrote before, and what that writer holds is untouched.
\<close>

theorem SetOutput_captures:
  assumes "SetOutput w l = (l1, restore)" "w \<noteq> log_writer l" "l2 = restore (foldl (log_call render) l1 xs)"
  shows "log_lines l2 w = log_lines l w @ map render (concat (map (log_text (debugEnabled l)) xs))"
    and "log_writer l2 = log_writer l" "log_lines l2 (log_writer l) = log_lines l (log_writer l)"
  using assms by (auto simp: SetOutput_def Let_def log_calls_effect)

end
