(* ===== verification/ObjectStore.thy ===== *)
theory ObjectStore
  imports Prelude
begin

text \<open>
  The object store as the sources see it. The S3 client (\<open>github.com/minio/minio-go\<close>) is not part
  of the repository: it is a record of functions, a parameter of every definition that talks to the
  store, over an arbitrary type of store states. A read (list, get, stat, tagging) is a function of
  the state; a write returns the next state. What a theorem needs of the client is a named
  hypothesis that states documented S3 behaviour in terms of a view of the stored bytes.

  The theory also holds the readers of \<open>io\<close> the handlers consume, \<open>storage_class.go\<close>, and a small
  store kept in memory, on which the hypotheses about the client are shown to hold together.
\<close>

section \<open>Readers\<close>

text \<open>A reader delivers its bytes and then either the end of the stream or an error.\<close>

record reader =
  rd_data :: bytes
  rd_err :: "goerr option"

definition io_EOF :: goerr where "io_EOF = Error ''EOF''"
definition io_ErrUnexpectedEOF :: goerr where "io_ErrUnexpectedEOF = Error ''unexpected EOF''"

definition bytes_NewReader :: "bytes \<Rightarrow> reader" where
  "bytes_NewReader bs = \<lparr>rd_data = bs, rd_err = None\<rparr>"

definition io_ReadAll :: "reader \<Rightarrow> bytes result" where
  "io_ReadAll r = (case rd_err r of None \<Rightarrow> Inr (rd_data r) | Some e \<Rightarrow> Inl e)"

text \<open>\<open>io.ReadFull\<close> into a buffer of \<open>n\<close> bytes: the bytes and what is left of the reader.\<close>

definition io_ReadFull :: "reader \<Rightarrow> nat \<Rightarrow> (bytes \<times> reader) result" where
  "io_ReadFull r n =
     (if n \<le> length (rd_data r)
      then Inr (take n (rd_data r), r\<lparr>rd_data := drop n (rd_data r)\<rparr>)
      else Inl (case rd_err r of
                  Some e \<Rightarrow> e
                | None \<Rightarrow> if rd_data r = [] then io_EOF else io_ErrUnexpectedEOF))"

text \<open>\<open>io.Copy(io.Discard, r)\<close>: the number of bytes read and the error, if any.\<close>

definition io_Discard :: "reader \<Rightarrow> nat \<times> goerr option" where
  "io_Discard r = (length (rd_data r), rd_err r)"

text \<open>\<open>io.LimitReader(r, n)\<close> ends after \<open>n\<close> bytes; what is behind them is never read.\<close>

definition io_LimitReader :: "reader \<Rightarrow> nat \<Rightarrow> reader" where
  "io_LimitReader r n =
     (if n \<le> length (rd_data r) then \<lparr>rd_data = take n (rd_data r), rd_err = None\<rparr> else r)"

section \<open>Objects and the client\<close>

record object_info =
  Key :: string
  ObjectSize :: int
  LastModified :: int
  UserMetadata :: "(string, string) gomap"
  UserTags :: "(string, string) gomap"
  ListErr :: "goerr option"

text \<open>Indexing a \<open>map[string]string\<close>: the empty string for a missing key.\<close>

definition str_at :: "(string, string) gomap \<Rightarrow> string \<Rightarrow> string" where
  "str_at m k = (case map_of m k of None \<Rightarrow> [] | Some v \<Rightarrow> v)"

record put_options =
  StorageClass :: string
  PutMetadata :: "(string, string) gomap"
  ContentType :: string

record copy_dest_options =
  DstBucket :: string
  DstObject :: string
  ReplaceMetadata :: bool
  DstMetadata :: "(string, string) gomap"

text \<open>What \<open>GetObject\<close> hands back: the body, and the answers of \<open>Stat()\<close> and \<open>Close()\<close>.\<close>

record object_handle =
  oh_body :: reader
  oh_stat :: "object_info result"
  oh_close :: "goerr option"

text \<open>
  The client. \<open>PutObject\<close> also reports how many bytes it took from the reader it was given, and
  \<open>RemoveObjects\<close> the errors it delivers on its result channel.
\<close>

record 's s3_client =
  ListObjects :: "'s \<Rightarrow> string \<Rightarrow> string \<Rightarrow> object_info list"
  GetObject :: "'s \<Rightarrow> string \<Rightarrow> string \<Rightarrow> object_handle result"
  GetObjectRange :: "'s \<Rightarrow> string \<Rightarrow> string \<Rightarrow> int \<Rightarrow> int \<Rightarrow> object_handle result"
  StatObject :: "'s \<Rightarrow> string \<Rightarrow> string \<Rightarrow> object_info result"
  GetObjectTagging :: "'s \<Rightarrow> string \<Rightarrow> string \<Rightarrow> (string, string) gomap result"
  BucketExists :: "'s \<Rightarrow> string \<Rightarrow> bool result"
  ListBuckets :: "'s \<Rightarrow> string list result"
  PutObject ::
    "'s \<Rightarrow> string \<Rightarrow> string \<Rightarrow> reader \<Rightarrow> int \<Rightarrow> put_options \<Rightarrow> (unit result \<times> nat) \<times> 's"
  CopyObject :: "'s \<Rightarrow> copy_dest_options \<Rightarrow> string \<Rightarrow> string \<Rightarrow> unit result \<times> 's"
  RemoveObjects :: "'s \<Rightarrow> string \<Rightarrow> object_info list \<Rightarrow> (string \<times> goerr) list \<times> 's"
  PutObjectTagging ::
    "'s \<Rightarrow> string \<Rightarrow> string \<Rightarrow> (string, string) gomap \<Rightarrow> unit result \<times> 's"

text \<open>A view says which bytes are stored under a bucket and key.\<close>

type_synonym 's view = "'s \<Rightarrow> string \<Rightarrow> string \<Rightarrow> bytes option"

definition removes_only :: "'s s3_client \<Rightarrow> 's view \<Rightarrow> bool" where
  "removes_only c view \<longleftrightarrow>
     (\<forall>s b os b' k. b' \<noteq> b \<or> k \<notin> Key ` set os \<longrightarrow>
        view (snd (RemoveObjects c s b os)) b' k = view s b' k)"

text \<open>A removal that reports no failure has removed what it was given.\<close>

definition removes_all :: "'s s3_client \<Rightarrow> 's view \<Rightarrow> bool" where
  "removes_all c view \<longleftrightarrow>
     (\<forall>s b os s'. RemoveObjects c s b os = ([], s') \<longrightarrow> (\<forall>k \<in> Key ` set os. view s' b k = None))"

definition puts_only :: "'s s3_client \<Rightarrow> 's view \<Rightarrow> bool" where
  "puts_only c view \<longleftrightarrow>
     (\<forall>s b key r n opts b' k. b' \<noteq> b \<or> k \<noteq> key \<longrightarrow>
        view (snd (PutObject c s b key r n opts)) b' k = view s b' k)"

text \<open>
  A put of a stated size that reports success has stored the bytes of the reader, all \<open>n\<close> of them; a
  negative size asks the client to read to the end and is not covered.
\<close>

definition puts_stored :: "'s s3_client \<Rightarrow> 's view \<Rightarrow> bool" where
  "puts_stored c view \<longleftrightarrow>
     (\<forall>s b key r n opts s' used. 0 \<le> n \<longrightarrow>
        PutObject c s b key r n opts = ((Inr (), used), s') \<longrightarrow>
        view s' b key = Some (take (nat n) (rd_data r)) \<and> used = min (nat n) (length (rd_data r)))"

text \<open>A copy changes the destination only, which then holds what the source holds.\<close>

definition copies :: "'s s3_client \<Rightarrow> 's view \<Rightarrow> bool" where
  "copies c view \<longleftrightarrow>
     (\<forall>s dst b key r s'. CopyObject c s dst b key = (r, s') \<longrightarrow>
        (\<forall>b' k. b' \<noteq> DstBucket dst \<or> k \<noteq> DstObject dst \<longrightarrow> view s' b' k = view s b' k)
        \<and> (r = Inr () \<longrightarrow> view s b key \<noteq> None \<longrightarrow> view s' (DstBucket dst) (DstObject dst) = view s b key))"

text \<open>A listing returns, errors apart, only objects under the prefix it was asked for.\<close>

definition lists_prefix :: "'s s3_client \<Rightarrow> bool" where
  "lists_prefix c \<longleftrightarrow>
     (\<forall>s b p. \<forall>obj \<in> set (ListObjects c s b p). ListErr obj = None \<longrightarrow> HasPrefix (Key obj) p)"

text \<open>A listing that reports no error leaves out no stored object under its prefix.\<close>

definition lists_all :: "'s s3_client \<Rightarrow> 's view \<Rightarrow> bool" where
  "lists_all c view \<longleftrightarrow>
     (\<forall>s b p k. (\<forall>obj \<in> set (ListObjects c s b p). ListErr obj = None) \<longrightarrow> view s b k \<noteq> None \<longrightarrow>
        HasPrefix k p \<longrightarrow> k \<in> Key ` set (ListObjects c s b p))"

text \<open>A stat that succeeds was of a stored object.\<close>

definition stats_stored :: "'s s3_client \<Rightarrow> 's view \<Rightarrow> bool" where
  "stats_stored c view \<longleftrightarrow>
     (\<forall>s b key info. StatObject c s b key = Inr info \<longrightarrow> view s b key \<noteq> None)"

section \<open>Storage classes\<close>

record storageClassPolicy =
  Chunks :: string
  Backups :: string
  Indexed :: string

definition putOptions :: "string \<Rightarrow> (string, string) gomap \<Rightarrow> put_options" where
  "putOptions storageClass userMetadata =
     \<lparr>StorageClass = storageClass, PutMetadata = userMetadata, ContentType = []\<rparr>"

definition indexedCopyOptions ::
    "string \<Rightarrow> string \<Rightarrow> string \<Rightarrow> string \<Rightarrow> copy_dest_options" where
  "indexedCopyOptions bucket object checksum storageClass =
     (let opts = \<lparr>DstBucket = bucket, DstObject = object, ReplaceMetadata = False, DstMetadata = []\<rparr>
      in if storageClass = [] then opts
         else opts\<lparr>ReplaceMetadata := True,
                   DstMetadata := [(''csum'', checksum), (''x-amz-storage-class'', storageClass)]\<rparr>)"

section \<open>A store in memory\<close>

type_synonym mem_store = "(string \<times> string, bytes \<times> object_info) gomap"

definition no_such_key :: goerr where "no_such_key = S3Error 404 ''NoSuchKey''"

definition mem_view :: "mem_store view" where
  "mem_view s b k = map_option fst (map_of s (b, k))"

definition mem_info :: "string \<Rightarrow> bytes \<Rightarrow> (string, string) gomap \<Rightarrow> object_info" where
  "mem_info k d meta =
     \<lparr>Key = k, ObjectSize = int (length d), LastModified = 0, UserMetadata = meta,
      UserTags = [], ListErr = None\<rparr>"

definition mem_get :: "mem_store \<Rightarrow> string \<Rightarrow> string \<Rightarrow> object_handle result" where
  "mem_get s b k =
     (case map_of s (b, k) of
        None \<Rightarrow> Inl no_such_key
      | Some (d, info) \<Rightarrow> Inr \<lparr>oh_body = bytes_NewReader d, oh_stat = Inr info, oh_close = None\<rparr>)"

definition mem_range ::
    "mem_store \<Rightarrow> string \<Rightarrow> string \<Rightarrow> int \<Rightarrow> int \<Rightarrow> object_handle result" where
  "mem_range s b k i j =
     (case map_of s (b, k) of
        None \<Rightarrow> Inl no_such_key
      | Some (d, info) \<Rightarrow>
          Inr \<lparr>oh_body = bytes_NewReader (slice (nat i) (nat (j + 1)) d),
               oh_stat = Inr info, oh_close = None\<rparr>)"

definition mem_put ::
    "mem_store \<Rightarrow> string \<Rightarrow> string \<Rightarrow> reader \<Rightarrow> int \<Rightarrow> put_options
      \<Rightarrow> (unit result \<times> nat) \<times> mem_store" where
  "mem_put s b k r n opts =
     (case rd_err r of
        Some e \<Rightarrow> ((Inl e, length (rd_data r)), s)
      | None \<Rightarrow>
          if int (length (rd_data r)) < n
          then ((Inl io_ErrUnexpectedEOF, length (rd_data r)), s)
          else ((Inr (), min (nat n) (length (rd_data r))),
                AList.update (b, k)
                  (take (nat n) (rd_data r),
                   mem_info k (take (nat n) (rd_data r))
                     (map (\<lambda>(x, v). (if x = ''csum'' then ''X-Amz-Meta-Csum'' else x, v))
                       (PutMetadata opts))) s))"

definition mem_client :: "mem_store s3_client" where
  "mem_client =
     \<lparr>ListObjects = (\<lambda>s b p. map (\<lambda>((_, k), _, info). info\<lparr>Key := k\<rparr>)
        (filter (\<lambda>((b', k), _). b' = b \<and> HasPrefix k p) s)),
      GetObject = mem_get,
      GetObjectRange = mem_range,
      StatObject = (\<lambda>s b k. case map_of s (b, k) of
        None \<Rightarrow> Inl no_such_key | Some (d, info) \<Rightarrow> Inr info),
      GetObjectTagging = (\<lambda>s b k. case map_of s (b, k) of
        None \<Rightarrow> Inl no_such_key | Some (d, info) \<Rightarrow> Inr (UserTags info)),
      BucketExists = (\<lambda>s b. Inr True),
      ListBuckets = (\<lambda>s. Inr (remdups (map (\<lambda>((b, k), _). b) s))),
      PutObject = mem_put,
      CopyObject = (\<lambda>s dst b k. case map_of s (b, k) of
        None \<Rightarrow> (Inl no_such_key, s)
      | Some (d, info) \<Rightarrow>
          (Inr (), AList.update (DstBucket dst, DstObject dst)
             (d, info\<lparr>Key := DstObject dst\<rparr>) s)),
      RemoveObjects = (\<lambda>s b os.
        ([], filter (\<lambda>((b', k), _). \<not> (b' = b \<and> k \<in> Key ` set os)) s)),
      PutObjectTagging = (\<lambda>s b k tags. case map_of s (b, k) of
        None \<Rightarrow> (Inl no_such_key, s)
      | Some (d, info) \<Rightarrow> (Inr (), AList.update (b, k) (d, info\<lparr>UserTags := tags\<rparr>) s))\<rparr>"

section \<open>Lemmas\<close>

lemma str_at_Cons: "str_at ((k, v) # m) k' = (if k' = k then v else str_at m k')"
  by (simp add: str_at_def)

lemma str_at_Nil [simp]: "str_at [] k = []"
  by (simp add: str_at_def)

lemma str_at_update [gomap]: "str_at (AList.update k v m) k' = (if k' = k then v else str_at m k')"
  by (simp add: str_at_def map_of_update)

lemma puts_storedD:
  assumes "puts_stored c view" "PutObject c s b key r n opts = ((Inr (), used), s')" "0 \<le> n"
  shows "view s' b key = Some (take (nat n) (rd_data r))" and "used = min (nat n) (length (rd_data r))"
  using assms unfolding puts_stored_def by blast+

lemma puts_onlyD:
  assumes "puts_only c view" "PutObject c s b key r n opts = (res, s')" "b' \<noteq> b \<or> k \<noteq> key"
  shows "view s' b' k = view s b' k"
  using assms unfolding puts_only_def by (metis snd_conv)

text \<open>The put of a whole buffer, as all handlers but the streaming one do it.\<close>

lemma put_buffer:
  assumes "puts_stored c view" "PutObject c s b key (bytes_NewReader bs) (int (length bs)) opts = ((Inr (), used), s')"
  shows "view s' b key = Some bs"
  using puts_storedD(1) [OF assms] by (simp add: bytes_NewReader_def)

lemma io_ReadAll_new [simp]: "io_ReadAll (bytes_NewReader bs) = Inr bs"
  by (simp add: io_ReadAll_def bytes_NewReader_def)

lemma map_of_filter_key:
  "P k \<Longrightarrow> map_of (filter (\<lambda>(k, _). P k) m) k = map_of m k"
  by (induction m) auto

lemma mem_removes_only: "removes_only mem_client mem_view"
  unfolding removes_only_def mem_view_def mem_client_def
proof (clarsimp simp: case_prod_unfold)
  fix s :: mem_store and b b' k :: string and os :: "object_info list"
  assume "b' = b \<longrightarrow> k \<notin> Key ` set os"
  then have "map_of (filter (\<lambda>(k, _). \<not> (fst k = b \<and> snd k \<in> Key ` set os)) s) (b', k)
      = map_of s (b', k)"
    by (intro map_of_filter_key) auto
  then show "map_option fst (map_of (filter (\<lambda>p. fst (fst p) = b \<longrightarrow> snd (fst p) \<notin> Key ` set os) s) (b', k))
      = map_option fst (map_of s (b', k))"
    by (simp add: case_prod_unfold)
qed

lemma mem_removes_all: "removes_all mem_client mem_view"
  by (auto simp: removes_all_def mem_view_def mem_client_def map_of_eq_None_iff)

lemma mem_puts_only: "puts_only mem_client mem_view"
  by (auto simp: puts_only_def mem_view_def mem_client_def mem_put_def map_of_update
      split: option.splits)

lemma mem_puts_stored: "puts_stored mem_client mem_view"
  by (auto simp: puts_stored_def mem_view_def mem_client_def mem_put_def map_of_update
      split: option.splits if_splits)

lemma mem_stats_stored: "stats_stored mem_client mem_view"
  by (auto simp: stats_stored_def mem_view_def mem_client_def split: option.splits)

lemma mem_lists_prefix: "lists_prefix mem_client"
  by (auto simp: lists_prefix_def mem_client_def)

lemma mem_copies: "copies mem_client mem_view"
  by (auto simp: copies_def mem_client_def mem_view_def map_of_update split: option.splits)

lemma mem_lists_all: "lists_all mem_client mem_view"
  by (force simp: lists_all_def mem_client_def mem_view_def dest!: map_of_SomeD)

lemmas mem_laws = mem_copies mem_lists_all mem_lists_prefix mem_removes_only mem_removes_all mem_puts_only mem_puts_stored mem_stats_stored

end
