(* ===== verification/Base64.thy ===== *)
theory Base64
  imports Prelude
begin

text \<open>
  \<open>base64.RawStdEncoding\<close> of the standard library, the unpadded alphabet in which the notes of a
  snapshot are kept in an object tag: three bytes become four characters, a rest of one or two
  bytes becomes two or three. The decoder skips line ends and reports the bytes decoded before the
  first bad group together with whether the whole string was good.
\<close>

section \<open>Encoding and decoding\<close>

definition b64_char :: "nat \<Rightarrow> char" where
  "b64_char n =
     (if n < 26 then char_of (65 + n) else if n < 52 then char_of (71 + n)
      else if n < 62 then char_of (n - 4) else if n = 62 then CHR ''+'' else CHR ''/'')"

definition b64_val :: "char \<Rightarrow> nat option" where
  "b64_val c =
     (let n = of_char c :: nat in
      if 65 \<le> n \<and> n \<le> 90 then Some (n - 65)
      else if 97 \<le> n \<and> n \<le> 122 then Some (n - 71)
      else if 48 \<le> n \<and> n \<le> 57 then Some (n + 4)
      else if c = CHR ''+'' then Some 62
      else if c = CHR ''/'' then Some 63
      else None)"

fun b64_encode :: "bytes \<Rightarrow> string" where
  "b64_encode [] = []"
| "b64_encode [a] = [b64_char (unat a div 4), b64_char (unat a mod 4 * 16)]"
| "b64_encode [a, b] =
     [b64_char (unat a div 4), b64_char (unat a mod 4 * 16 + unat b div 16),
      b64_char (unat b mod 16 * 4)]"
| "b64_encode (a # b # c # rest) =
     b64_char (unat a div 4) # b64_char (unat a mod 4 * 16 + unat b div 16)
     # b64_char (unat b mod 16 * 4 + unat c div 64) # b64_char (unat c mod 64)
     # b64_encode rest"

definition b64_byte1 :: "nat \<Rightarrow> nat \<Rightarrow> byte" where
  "b64_byte1 p q = word_of_nat (p * 4 + q div 16)"

definition b64_byte2 :: "nat \<Rightarrow> nat \<Rightarrow> byte" where
  "b64_byte2 q r = word_of_nat (q mod 16 * 16 + r div 4)"

definition b64_byte3 :: "nat \<Rightarrow> nat \<Rightarrow> byte" where
  "b64_byte3 r s = word_of_nat (r mod 4 * 64 + s)"

fun b64_groups :: "nat option list \<Rightarrow> bytes \<times> bool" where
  "b64_groups [] = ([], True)"
| "b64_groups [Some p, Some q] = ([b64_byte1 p q], True)"
| "b64_groups [Some p, Some q, Some r] = ([b64_byte1 p q, b64_byte2 q r], True)"
| "b64_groups (Some p # Some q # Some r # Some s # rest) =
     (case b64_groups rest of
        (bs, ok) \<Rightarrow> (b64_byte1 p q # b64_byte2 q r # b64_byte3 r s # bs, ok))"
| "b64_groups _ = ([], False)"

definition RawStdEncoding_EncodeToString :: "bytes \<Rightarrow> string" where
  "RawStdEncoding_EncodeToString bs = b64_encode bs"

definition RawStdEncoding_DecodeString :: "string \<Rightarrow> bytes \<times> bool" where
  "RawStdEncoding_DecodeString s =
     b64_groups (map b64_val (filter (\<lambda>c. c \<noteq> CHR 0x0A \<and> c \<noteq> CHR 0x0D) s))"

section \<open>The round trip\<close>

lemma b64_val_char [simp]: "n < 64 \<Longrightarrow> b64_val (b64_char n) = Some n"
  by (auto simp: b64_val_def b64_char_def Let_def of_char_of)

lemma b64_char_not_newline [simp]:
  "n < 64 \<Longrightarrow> b64_char n \<noteq> CHR 0x0A" "n < 64 \<Longrightarrow> b64_char n \<noteq> CHR 0x0D"
  using b64_val_char [of n] by (auto simp: b64_val_def)

lemma b64_digits:
  "unat (a :: byte) div 4 < 64" "unat a mod 4 * 16 + unat (b :: byte) div 16 < 64"
  "unat a mod 4 * 16 < 64" "unat a mod 16 * 4 + unat b div 64 < 64" "unat a mod 16 * 4 < 64"
  "unat a mod 64 < 64"
  using unat_byte_lt [of a] unat_byte_lt [of b] by auto

lemma b64_bytes:
  fixes a b c :: byte
  shows "b64_byte1 (unat a div 4) (unat a mod 4 * 16 + unat b div 16) = a"
    "b64_byte1 (unat a div 4) (unat a mod 4 * 16) = a"
    "b64_byte2 (unat c mod 4 * 16 + unat a div 16) (unat a mod 16 * 4 + unat b div 64) = a"
    "b64_byte2 (unat c mod 4 * 16 + unat a div 16) (unat a mod 16 * 4) = a"
    "b64_byte3 (unat c mod 16 * 4 + unat a div 64) (unat a mod 64) = a"
proof -
  have *: "word_of_nat n = a" if "n = unat a" for n
    using that by simp
  have lt: "unat a div 16 < 16" "unat b div 16 < 16" "unat b div 64 < 4" "unat a div 64 < 4"
    using unat_byte_lt [of a] unat_byte_lt [of b] by auto
  show "b64_byte1 (unat a div 4) (unat a mod 4 * 16 + unat b div 16) = a"
    "b64_byte1 (unat a div 4) (unat a mod 4 * 16) = a"
    unfolding b64_byte1_def by (rule *; use lt in simp)+
  show "b64_byte2 (unat c mod 4 * 16 + unat a div 16) (unat a mod 16 * 4 + unat b div 64) = a"
    "b64_byte2 (unat c mod 4 * 16 + unat a div 16) (unat a mod 16 * 4) = a"
    unfolding b64_byte2_def by (rule *; use lt in simp)+
  show "b64_byte3 (unat c mod 16 * 4 + unat a div 64) (unat a mod 64) = a"
    unfolding b64_byte3_def by (rule *; use lt in simp)
qed

lemma b64_encode_no_newline:
  "filter (\<lambda>c. c \<noteq> CHR 0x0A \<and> c \<noteq> CHR 0x0D) (b64_encode bs) = b64_encode bs"
  by (induction bs rule: b64_encode.induct) (simp_all add: b64_digits)

lemma b64_groups_encode: "b64_groups (map b64_val (b64_encode bs)) = (bs, True)"
  by (induction bs rule: b64_encode.induct) (simp_all add: b64_digits b64_bytes)

lemma RawStdEncoding_roundtrip [simp, codec]:
  "RawStdEncoding_DecodeString (RawStdEncoding_EncodeToString bs) = (bs, True)"
  by (simp add: RawStdEncoding_DecodeString_def RawStdEncoding_EncodeToString_def
      b64_encode_no_newline b64_groups_encode)

lemma RawStdEncoding_Encode_Nil [simp]: "RawStdEncoding_EncodeToString bs = [] \<longleftrightarrow> bs = []"
  by (cases bs rule: b64_encode.cases) (simp_all add: RawStdEncoding_EncodeToString_def)

end
