(* ===== verification/Sha256.thy ===== *)
theory Sha256
  imports Prelude
begin

text \<open>
  The two checksums of the standard library the sources compute: SHA-256 (\<open>crypto/sha256\<close>,
  FIPS 180-4), which names chunks, validates indexes and derives the lock name, and CRC-32 with
  the IEEE polynomial (\<open>hash/crc32\<close>), which guards a manifest blob. Both are executable; what the
  other theories use of them is the length of a digest.
\<close>

unbundle bit_operations_syntax

type_synonym u32 = "32 word"

section \<open>SHA-256\<close>

text \<open>
  The constants are given by the way the standard derives them: the first 32 bits of the fractional
  parts of the square roots of the first eight primes and of the cube roots of the first 64. The
  root of a scaled prime is found bit by bit.
\<close>

primrec root_search :: "nat \<Rightarrow> int \<Rightarrow> nat \<Rightarrow> int \<Rightarrow> int" where
  "root_search k n 0 acc = acc"
| "root_search k n (Suc i) acc =
     root_search k n i (if (acc + 2 ^ i) ^ k \<le> n then acc + 2 ^ i else acc)"

definition root_fraction :: "nat \<Rightarrow> int \<Rightarrow> u32" where
  "root_fraction k p = word_of_int (root_search k (p * 2 ^ (32 * k)) 36 0)"

definition first_64_primes :: "int list" where
  "first_64_primes = filter (\<lambda>p. list_all (\<lambda>d. p mod d \<noteq> 0) [2 .. p div 2]) [2 .. 311]"

definition sha_k :: "u32 list" where
  "sha_k = map (root_fraction 3) first_64_primes"

definition sha_init :: "u32 list" where
  "sha_init = map (root_fraction 2) [2, 3, 5, 7, 11, 13, 17, 19]"

definition rotr :: "nat \<Rightarrow> u32 \<Rightarrow> u32" where
  "rotr n w = drop_bit n w OR push_bit (32 - n) w"

text \<open>Big-endian conversions of 32-bit words.\<close>

definition be_word :: "bytes \<Rightarrow> u32" where
  "be_word bs = foldl (\<lambda>acc b. push_bit 8 acc OR ucast b) 0 bs"

definition word_bytes :: "u32 \<Rightarrow> bytes" where
  "word_bytes w = [ucast (drop_bit 24 w), ucast (drop_bit 16 w), ucast (drop_bit 8 w), ucast w]"

definition be_bytes :: "nat \<Rightarrow> nat \<Rightarrow> bytes" where
  "be_bytes k n = rev (le_bytes k n)"

text \<open>Padding: a one bit, zeros, and the length in bits as a 64-bit big-endian number.\<close>

definition sha_pad :: "bytes \<Rightarrow> bytes" where
  "sha_pad msg =
     (let n = length msg
      in msg @ [0x80] @ replicate ((119 - n mod 64) mod 64) 0 @ be_bytes 8 (8 * n))"

text \<open>The message schedule, extended one word at a time; the newest word comes first.\<close>

primrec sha_schedule :: "nat \<Rightarrow> u32 list \<Rightarrow> u32 list" where
  "sha_schedule 0 ws = rev ws"
| "sha_schedule (Suc k) ws =
     (let w15 = ws ! 14; w2 = ws ! 1;
          s0 = rotr 7 w15 XOR rotr 18 w15 XOR drop_bit 3 w15;
          s1 = rotr 17 w2 XOR rotr 19 w2 XOR drop_bit 10 w2
      in sha_schedule k ((ws ! 15 + s0 + ws ! 6 + s1) # ws))"

fun sha_round :: "u32 \<times> u32 \<Rightarrow> u32 list \<Rightarrow> u32 list" where
  "sha_round (k, w) [a, b, c, d, e, f, g, h] =
     (let s1 = rotr 6 e XOR rotr 11 e XOR rotr 25 e;
          ch = (e AND f) XOR (NOT e AND g);
          t1 = h + s1 + ch + k + w;
          s0 = rotr 2 a XOR rotr 13 a XOR rotr 22 a;
          maj = (a AND b) XOR (a AND c) XOR (b AND c)
      in [t1 + (s0 + maj), a, b, c, d + t1, e, f, g])"
| "sha_round kw st = st"

definition sha_compress :: "u32 list \<Rightarrow> bytes \<Rightarrow> u32 list" where
  "sha_compress hs block =
     (let ws = sha_schedule 48 (rev (map be_word (chunks_of 4 block)))
      in map2 (+) hs (fold sha_round (zip sha_k ws) hs))"

text \<open>\<open>sha256.Sum256\<close>.\<close>

definition Sum256 :: "bytes \<Rightarrow> bytes" where
  "Sum256 msg =
     concat (map word_bytes (foldl sha_compress sha_init (chunks_of 64 (sha_pad msg))))"

section \<open>CRC-32\<close>

definition crc_step :: "u32 \<Rightarrow> u32" where
  "crc_step c = (if bit c 0 then drop_bit 1 c XOR 0xedb88320 else drop_bit 1 c)"

definition crc_byte :: "u32 \<Rightarrow> byte \<Rightarrow> u32" where
  "crc_byte c b = (crc_step ^^ 8) (c XOR ucast b)"

text \<open>\<open>crc32.ChecksumIEEE\<close>.\<close>

definition ChecksumIEEE :: "bytes \<Rightarrow> u32" where
  "ChecksumIEEE bs = NOT (foldl crc_byte (NOT 0) bs)"

section \<open>Lemmas\<close>

lemma length_be_bytes [simp, codec]: "length (be_bytes k n) = k"
  by (simp add: be_bytes_def)

lemma length_sha_round: "length (sha_round kw st) = length st"
  by (induction kw st rule: sha_round.induct) (auto simp: Let_def)

lemma length_fold_sha_round: "length (fold sha_round kws st) = length st"
  by (induction kws arbitrary: st) (auto simp: length_sha_round)

lemma length_sha_compress: "length (sha_compress hs block) = length hs"
  by (simp add: sha_compress_def length_fold_sha_round Let_def)

lemma length_foldl_compress: "length (foldl sha_compress hs bs) = length hs"
  by (induction bs arbitrary: hs) (auto simp: length_sha_compress)

lemma length_Sum256 [simp, codec]: "length (Sum256 msg) = 32"
  unfolding Sum256_def
  by (subst length_concat_const [where n = 4])
    (simp_all add: length_foldl_compress sha_init_def word_bytes_def)

end
