(* ===== verification/Snapshots.thy ===== *)
theory Snapshots
  imports ObjectStore Base64 Sha256
begin

text \<open>
  \<open>internal/s3pmoxcommon/s3pmoxcommon.go\<close> and \<open>types.go\<close>: what a snapshot is, how its identity is
  written into object keys and read back from a bucket listing, and the operations on one snapshot.
  The proxy and the collector both see snapshots through these functions only.

  A listing is turned into snapshots by a loop over the objects with two pieces of state, the map
  from a snapshot prefix to the snapshot under construction and the order in which the prefixes
  were first seen. A declarative reading of the same listing is given beside it
  (\<open>snapshot_of_prefix\<close>), and the loop is shown to compute it.
\<close>

section \<open>Data\<close>

record SnapshotFile =
  Filename :: string
  CryptMode :: string
  FileSize :: u64

record Snapshot =
  BackupID :: string
  BackupTime :: u64
  BackupType :: string
  Files :: "SnapshotFile list"
  Protected :: bool
  Comment :: string
  Datastore :: string
  corrupted :: bool
  Size :: u64

definition zero_snapshot :: Snapshot where
  "zero_snapshot =
     \<lparr>BackupID = [], BackupTime = 0, BackupType = [], Files = [], Protected = False, Comment = [],
      Datastore = [], corrupted = False, Size = 0\<rparr>"

section \<open>Operations\<close>

definition DataStoreLockName :: "string \<Rightarrow> string \<Rightarrow> string" where
  "DataStoreLockName endpoint datastore =
     (let h = Sum256 (bytes_of_string (endpoint @ ''|'' @ datastore))
      in ''PBSS3'' @ take 16 (hex_EncodeToString h))"

text \<open>The channel of a listing is drained until its first error.\<close>

fun collect_objects :: "string \<Rightarrow> object_info list \<Rightarrow> object_info list result" where
  "collect_objects msg [] = Inr []"
| "collect_objects msg (obj # objects) =
     (case ListErr obj of
        Some e \<Rightarrow> Inl (Wrap msg e)
      | None \<Rightarrow>
          (case collect_objects msg objects of
             Inl e \<Rightarrow> Inl e
           | Inr rest \<Rightarrow> Inr (obj # rest)))"

text \<open>
  The checks on one object key, in the order of the code: the part before the first slash is the
  snapshot prefix, of the form \<open>id|time|type\<close>, the part after it the file name.
\<close>

record snapshot_key =
  sk_prefix :: string
  sk_id :: string
  sk_time :: u64
  sk_type :: string
  sk_file :: string

definition parse_snapshot_key :: "string \<Rightarrow> snapshot_key result" where
  "parse_snapshot_key key =
     (let parts = SplitN2 (TrimPrefix key ''backups/'') CHR ''/'' in
      if length parts \<noteq> 2 \<or> parts ! 0 = [] \<or> parts ! 1 = []
      then Inl (Error ''invalid snapshot object key'')
      else
        let fields = Split (parts ! 0) CHR ''|'' in
        if length fields \<noteq> 3 \<or> fields ! 0 = [] \<or> fields ! 2 = []
        then Inl (Error ''invalid snapshot prefix'')
        else
          (case ParseUint64 (fields ! 1) of
             (t, Some e) \<Rightarrow> Inl (Error ''invalid snapshot timestamp'')
           | (t, None) \<Rightarrow>
               Inr \<lparr>sk_prefix = parts ! 0, sk_id = fields ! 0, sk_time = t,
                    sk_type = fields ! 2, sk_file = parts ! 1\<rparr>))"

text \<open>A snapshot as it is first created for a prefix.\<close>

definition new_snapshot :: "string \<Rightarrow> snapshot_key \<Rightarrow> Snapshot" where
  "new_snapshot datastore k =
     zero_snapshot\<lparr>BackupID := sk_id k, BackupTime := sk_time k, BackupType := sk_type k,
                   Datastore := datastore\<rparr>"

text \<open>What one object of the prefix changes in its snapshot.\<close>

definition mark_corrupted :: "snapshot_key \<Rightarrow> Snapshot \<Rightarrow> Snapshot" where
  "mark_corrupted k s = (if sk_file k = ''corrupted'' then s\<lparr>corrupted := True\<rparr> else s)"

definition mark_protected :: "object_info \<Rightarrow> Snapshot \<Rightarrow> Snapshot" where
  "mark_protected obj s =
     (if str_at (UserTags obj) ''protected'' = ''true'' then s\<lparr>Protected := True\<rparr> else s)"

definition set_comment :: "object_info \<Rightarrow> Snapshot \<Rightarrow> Snapshot" where
  "set_comment obj s =
     (let encodedNote = str_at (UserTags obj) ''note'' in
      if encodedNote \<noteq> []
      then (case RawStdEncoding_DecodeString encodedNote of
              (note, True) \<Rightarrow> s\<lparr>Comment := string_of_bytes note\<rparr>
            | (note, False) \<Rightarrow> s)
      else s)"

definition add_file :: "snapshot_key \<Rightarrow> object_info \<Rightarrow> Snapshot \<Rightarrow> Snapshot" where
  "add_file k obj s =
     (if \<not> HasSuffix (sk_file k) ''.csjson''
      then s\<lparr>Files := Files s @
              [\<lparr>Filename = sk_file k, CryptMode = ''none'', FileSize = uint64_of (ObjectSize obj)\<rparr>]\<rparr>
      else s)"

definition absorb_object :: "snapshot_key \<Rightarrow> object_info \<Rightarrow> Snapshot \<Rightarrow> Snapshot" where
  "absorb_object k obj s = add_file k obj (set_comment obj (mark_protected obj (mark_corrupted k s)))"

type_synonym listing_state = "(string, Snapshot) gomap \<times> string list"

definition insert_object ::
    "string \<Rightarrow> snapshot_key \<Rightarrow> object_info \<Rightarrow> listing_state \<Rightarrow> listing_state" where
  "insert_object datastore k obj st =
     (case st of (byPrefix, order) \<Rightarrow>
        (case map_of byPrefix (sk_prefix k) of
           Some s \<Rightarrow> (AList.update (sk_prefix k) (absorb_object k obj s) byPrefix, order)
         | None \<Rightarrow>
             (AList.update (sk_prefix k) (absorb_object k obj (new_snapshot datastore k)) byPrefix,
              order @ [sk_prefix k])))"

fun snapshots_loop ::
    "string \<Rightarrow> object_info list \<Rightarrow> listing_state \<Rightarrow> listing_state result" where
  "snapshots_loop datastore [] st = Inr st"
| "snapshots_loop datastore (obj # objects) st =
     (case ListErr obj of
        Some e \<Rightarrow> Inl (Wrap ''snapshot listing contains an error'' e)
      | None \<Rightarrow>
          if \<not> HasPrefix (Key obj) ''backups/'' then snapshots_loop datastore objects st
          else (case parse_snapshot_key (Key obj) of
                  Inl e \<Rightarrow> Inl e
                | Inr k \<Rightarrow> snapshots_loop datastore objects (insert_object datastore k obj st)))"

definition SnapshotsFromObjects ::
    "object_info list \<Rightarrow> string \<Rightarrow> bool \<Rightarrow> Snapshot list result" where
  "SnapshotsFromObjects objects datastore returnCorrupted =
     (case snapshots_loop datastore objects ([], []) of
        Inl e \<Rightarrow> Inl e
      | Inr (byPrefix, order) \<Rightarrow>
          Inr (filter (\<lambda>s. returnCorrupted \<or> \<not> corrupted s)
                 (List.map_filter (map_of byPrefix) order)))"

definition ListSnapshots ::
    "'s s3_client \<Rightarrow> 's \<Rightarrow> string \<Rightarrow> bool \<Rightarrow> Snapshot list result" where
  "ListSnapshots c st datastore returnCorrupted =
     (case collect_objects ''list snapshots'' (ListObjects c st datastore ''backups/'') of
        Inl e \<Rightarrow> Inl e
      | Inr objects \<Rightarrow> SnapshotsFromObjects objects datastore returnCorrupted)"

text \<open>One iteration of the search for the most recent other snapshot of the same id.\<close>

definition latest_step :: "string \<Rightarrow> u64 \<Rightarrow> Snapshot option \<Rightarrow> Snapshot \<Rightarrow> Snapshot option" where
  "latest_step bid time mostRecent sl =
     (if BackupTime sl = time \<and> BackupID sl = bid then mostRecent
      else if (case mostRecent of None \<Rightarrow> True | Some m \<Rightarrow> BackupTime sl > BackupTime m)
              \<and> bid = BackupID sl
           then Some sl
      else mostRecent)"

definition GetLatestSnapshot ::
    "'s s3_client \<Rightarrow> 's \<Rightarrow> string \<Rightarrow> string \<Rightarrow> u64 \<Rightarrow> Snapshot option result" where
  "GetLatestSnapshot c st ds bid time =
     (case ListSnapshots c st ds False of
        Inl e \<Rightarrow> Inl e
      | Inr snapshots \<Rightarrow>
          if snapshots = [] then Inr None
          else Inr (foldl (latest_step bid time) None snapshots))"

text \<open>
  The identity of a snapshot is taken from the query or from a form; a bad number is ignored and
  leaves what \<open>ParseUint\<close> returned beside the error.
\<close>

definition InitWithQuery :: "(string, string) gomap \<Rightarrow> Snapshot \<Rightarrow> Snapshot" where
  "InitWithQuery v S =
     S\<lparr>BackupID := str_at v ''backup-id'',
       BackupTime := fst (ParseUint64 (str_at v ''backup-time'')),
       BackupType := str_at v ''backup-type''\<rparr>"

definition InitWithForm :: "(string, string) gomap \<Rightarrow> Snapshot \<Rightarrow> Snapshot" where
  "InitWithForm form S =
     S\<lparr>BackupID := str_at form ''backup-id'',
       BackupTime := fst (ParseUint64 (str_at form ''backup-time'')),
       BackupType := str_at form ''backup-type''\<rparr>"

definition S3Prefix :: "Snapshot \<Rightarrow> string" where
  "S3Prefix S =
     ''backups/'' @ BackupID S @ ''|'' @ format_nat (unat (BackupTime S)) @ ''|'' @ BackupType S"

text \<open>\<open>path[2]\<close> panics on a key with fewer than three components.\<close>

fun get_files_loop :: "object_info list \<Rightarrow> Snapshot \<Rightarrow> Snapshot outcome" where
  "get_files_loop [] S = Returns S"
| "get_files_loop (obj # objects) S =
     (let path = Split (Key obj) CHR ''/'' in
      if length path \<le> 2 then Panics ''index out of range''
      else get_files_loop objects
             (S\<lparr>Files := Files S @
                 [\<lparr>Filename = path ! 2, CryptMode = ''none'',
                   FileSize = uint64_of (ObjectSize obj)\<rparr>]\<rparr>))"

definition GetFiles :: "'s s3_client \<Rightarrow> 's \<Rightarrow> Snapshot \<Rightarrow> Snapshot outcome" where
  "GetFiles c st S = get_files_loop (ListObjects c st (Datastore S) (S3Prefix S)) S"

definition ReadTags :: "'s s3_client \<Rightarrow> 's \<Rightarrow> Snapshot \<Rightarrow> (string, string) gomap result" where
  "ReadTags c st S = GetObjectTagging c st (Datastore S) (S3Prefix S @ ''/index.json.blob'')"

definition Delete :: "'s s3_client \<Rightarrow> 's \<Rightarrow> Snapshot \<Rightarrow> goerr option \<times> 's" where
  "Delete c st S =
     (case collect_objects ''list snapshot before deletion''
             (ListObjects c st (Datastore S) (S3Prefix S @ ''/'')) of
        Inl e \<Rightarrow> (Some e, st)
      | Inr objects \<Rightarrow>
          (case RemoveObjects c st (Datastore S) objects of
             (failed, st') \<Rightarrow>
               (errors_Join (map (\<lambda>(name, e). Wrap (''remove '' @ name) e) failed), st')))"

datatype BucketLookupType = BucketLookupAuto | BucketLookupDNS | BucketLookupPath

definition GetLookupType :: "string \<Rightarrow> BucketLookupType" where
  "GetLookupType Typeflag =
     (if Typeflag = ''path'' then BucketLookupPath
      else if Typeflag = ''dns'' then BucketLookupDNS
      else BucketLookupAuto)"

section \<open>The declarative reading of a listing\<close>

text \<open>The objects a listing holds for a snapshot prefix, with their parsed keys, in order.\<close>

fun keyed_objects :: "object_info list \<Rightarrow> (snapshot_key \<times> object_info) list" where
  "keyed_objects [] = []"
| "keyed_objects (obj # objects) =
     (if HasPrefix (Key obj) ''backups/''
      then (case parse_snapshot_key (Key obj) of
              Inl e \<Rightarrow> keyed_objects objects
            | Inr k \<Rightarrow> (k, obj) # keyed_objects objects)
      else keyed_objects objects)"

definition objects_of_prefix ::
    "string \<Rightarrow> (snapshot_key \<times> object_info) list \<Rightarrow> (snapshot_key \<times> object_info) list" where
  "objects_of_prefix p kos = filter (\<lambda>(k, _). sk_prefix k = p) kos"

text \<open>The last note that decodes is the comment.\<close>

definition later_comment :: "object_info \<Rightarrow> string \<Rightarrow> string" where
  "later_comment obj c =
     (let e = str_at (UserTags obj) ''note'' in
      if e \<noteq> [] \<and> snd (RawStdEncoding_DecodeString e)
      then string_of_bytes (fst (RawStdEncoding_DecodeString e)) else c)"

text \<open>
  The snapshot of a prefix: identified by the key, with one file for each of its objects but the
  chunk-size side files, corrupted or protected when one of them says so.
\<close>

definition snapshot_of_prefix ::
    "string \<Rightarrow> string \<Rightarrow> (snapshot_key \<times> object_info) list \<Rightarrow> Snapshot" where
  "snapshot_of_prefix datastore p kos =
     (let mine = objects_of_prefix p kos in
      (new_snapshot datastore (fst (hd mine)))
        \<lparr>Files := map (\<lambda>(k, obj). \<lparr>Filename = sk_file k, CryptMode = ''none'',
                                   FileSize = uint64_of (ObjectSize obj)\<rparr>)
                   (filter (\<lambda>(k, _). \<not> HasSuffix (sk_file k) ''.csjson'') mine),
         corrupted := list_ex (\<lambda>(k, _). sk_file k = ''corrupted'') mine,
         Protected := list_ex (\<lambda>(_, obj). str_at (UserTags obj) ''protected'' = ''true'') mine,
         Comment := foldl (\<lambda>c (_, obj). later_comment obj c) [] mine\<rparr>)"

text \<open>The prefixes in the order of their first object.\<close>

definition prefixes_in_order :: "(snapshot_key \<times> object_info) list \<Rightarrow> string list" where
  "prefixes_in_order kos = rev (remdups (rev (map (\<lambda>(k, _). sk_prefix k) kos)))"

text \<open>A listing is well formed when it has no error and every key under \<open>backups/\<close> parses.\<close>

definition object_ok :: "object_info \<Rightarrow> bool" where
  "object_ok obj \<longleftrightarrow>
     ListErr obj = None \<and>
     (HasPrefix (Key obj) ''backups/'' \<longrightarrow>
        (case parse_snapshot_key (Key obj) of Inl _ \<Rightarrow> False | Inr _ \<Rightarrow> True))"

definition listing_ok :: "object_info list \<Rightarrow> bool" where
  "listing_ok objects = list_all object_ok objects"

text \<open>A corrupted snapshot is listed only on demand.\<close>

definition is_listed :: "bool \<Rightarrow> Snapshot \<Rightarrow> bool" where
  "is_listed returnCorrupted s = (if returnCorrupted then True else \<not> corrupted s)"

text \<open>An identity that can be written into a key and read back.\<close>

definition wf_identity :: "Snapshot \<Rightarrow> bool" where
  "wf_identity S \<longleftrightarrow>
     BackupID S \<noteq> [] \<and> CHR ''|'' \<notin> set (BackupID S) \<and> CHR ''/'' \<notin> set (BackupID S) \<and>
     BackupType S \<noteq> [] \<and> CHR ''|'' \<notin> set (BackupType S) \<and> CHR ''/'' \<notin> set (BackupType S)"

section \<open>Keys and prefixes\<close>

lemma TrimPrefix_S3Prefix:
  "TrimPrefix (S3Prefix S @ t) ''backups/''
     = BackupID S @ ''|'' @ format_nat (unat (BackupTime S)) @ ''|'' @ BackupType S @ t"
  using TrimPrefix_append [of "''backups/''"] by (simp add: S3Prefix_def)

lemma HasPrefix_S3Prefix [simp]: "HasPrefix (S3Prefix S @ t) ''backups/''"
  by (simp add: S3Prefix_def HasPrefix_def)

lemma parse_snapshot_key_S3Prefix:
  assumes "wf_identity S" and "fname \<noteq> []"
  shows "parse_snapshot_key (S3Prefix S @ ''/'' @ fname)
     = Inr \<lparr>sk_prefix = drop 8 (S3Prefix S), sk_id = BackupID S, sk_time = BackupTime S,
            sk_type = BackupType S, sk_file = fname\<rparr>"
proof -
  let ?p = "BackupID S @ ''|'' @ format_nat (unat (BackupTime S)) @ ''|'' @ BackupType S"
  have "CHR ''/'' \<notin> set ?p" using assms(1) by (simp add: wf_identity_def)
  from SplitN2_append [OF this, of fname]
  have "SplitN2 (TrimPrefix (S3Prefix S @ ''/'' @ fname) ''backups/'') CHR ''/'' = [?p, fname]"
    by (simp add: TrimPrefix_S3Prefix)
  moreover have "Split ?p CHR ''|'' = [BackupID S, format_nat (unat (BackupTime S)), BackupType S]"
    using assms(1) by (simp add: Split_append_sep Split_no_sep wf_identity_def)
  ultimately show ?thesis
    using assms by (simp add: parse_snapshot_key_def wf_identity_def S3Prefix_def)
qed

lemma parse_snapshot_key_prefix_no_slash:
  "parse_snapshot_key key = Inr k \<Longrightarrow> CHR ''/'' \<notin> set (sk_prefix k)"
  by (cases rule: SplitN2_cases [of "CHR ''/''" "TrimPrefix key ''backups/''"])
    (auto simp: parse_snapshot_key_def Let_def split: if_splits prod.splits option.splits)

section \<open>The loop computes the declarative reading\<close>

lemma objects_of_prefix_snoc:
  "objects_of_prefix p (kos @ [(k, obj)])
     = objects_of_prefix p kos @ (if sk_prefix k = p then [(k, obj)] else [])"
  by (simp add: objects_of_prefix_def)

lemma objects_of_prefix_Nil_iff:
  "objects_of_prefix p kos = [] \<longleftrightarrow> p \<notin> (\<lambda>(k, _). sk_prefix k) ` set kos"
  by (auto simp: objects_of_prefix_def filter_empty_conv)

lemma set_prefixes_in_order [simp]:
  "set (prefixes_in_order kos) = (\<lambda>(k, _). sk_prefix k) ` set kos"
  by (simp add: prefixes_in_order_def)

lemma distinct_prefixes_in_order [simp]: "distinct (prefixes_in_order kos)"
  by (simp add: prefixes_in_order_def)

lemma prefixes_in_order_snoc:
  "prefixes_in_order (kos @ [(k, obj)])
     = prefixes_in_order kos @ (if sk_prefix k \<in> set (prefixes_in_order kos) then [] else [sk_prefix k])"
  by (simp add: prefixes_in_order_def)

text \<open>One more object changes the snapshot of its own prefix as the loop body does, and no other.\<close>

lemma snapshot_of_prefix_other:
  "sk_prefix k \<noteq> p \<Longrightarrow> snapshot_of_prefix ds p (kos @ [(k, obj)]) = snapshot_of_prefix ds p kos"
  by (simp add: snapshot_of_prefix_def objects_of_prefix_snoc)

lemma absorb_object_fields [simp]:
  "BackupID (absorb_object k obj s) = BackupID s"
  "BackupTime (absorb_object k obj s) = BackupTime s"
  "BackupType (absorb_object k obj s) = BackupType s"
  "Files (absorb_object k obj s) = Files s @
     (if HasSuffix (sk_file k) ''.csjson'' then []
      else [\<lparr>Filename = sk_file k, CryptMode = ''none'', FileSize = uint64_of (ObjectSize obj)\<rparr>])"
  "Protected (absorb_object k obj s)
     = (Protected s \<or> str_at (UserTags obj) ''protected'' = ''true'')"
  "Comment (absorb_object k obj s) = later_comment obj (Comment s)"
  "Datastore (absorb_object k obj s) = Datastore s"
  "corrupted (absorb_object k obj s) = (corrupted s \<or> sk_file k = ''corrupted'')"
  "Size (absorb_object k obj s) = Size s"
  by (simp_all add: absorb_object_def add_file_def set_comment_def mark_protected_def
      mark_corrupted_def later_comment_def Let_def split: prod.split bool.split)

lemma snapshot_of_prefix_same:
  "sk_prefix k \<in> set (prefixes_in_order kos) \<Longrightarrow>
   snapshot_of_prefix ds (sk_prefix k) (kos @ [(k, obj)])
     = absorb_object k obj (snapshot_of_prefix ds (sk_prefix k) kos)"
  using objects_of_prefix_Nil_iff [of "sk_prefix k" kos]
  by (intro Snapshot.equality)
    (simp_all add: snapshot_of_prefix_def objects_of_prefix_snoc Let_def)

lemma snapshot_of_prefix_new:
  "sk_prefix k \<notin> set (prefixes_in_order kos) \<Longrightarrow>
   snapshot_of_prefix ds (sk_prefix k) (kos @ [(k, obj)])
     = absorb_object k obj (new_snapshot ds k)"
  using objects_of_prefix_Nil_iff [of "sk_prefix k" kos]
  by (intro Snapshot.equality)
    (simp_all add: snapshot_of_prefix_def objects_of_prefix_snoc new_snapshot_def
      zero_snapshot_def Let_def)

definition loop_state :: "string \<Rightarrow> (snapshot_key \<times> object_info) list \<Rightarrow> listing_state" where
  "loop_state ds kos = foldl (\<lambda>st (k, obj). insert_object ds k obj st) ([], []) kos"

lemma loop_state_spec:
  "snd (loop_state ds kos) = prefixes_in_order kos \<and>
   map_of (fst (loop_state ds kos)) p =
     (if p \<in> set (prefixes_in_order kos) then Some (snapshot_of_prefix ds p kos) else None)"
proof (induction kos arbitrary: p rule: rev_induct)
  case Nil
  show ?case by (simp add: loop_state_def prefixes_in_order_def)
next
  case (snoc ko kos)
  obtain k obj where ko: "ko = (k, obj)" by (cases ko)
  obtain m order where st: "loop_state ds kos = (m, order)" by (cases "loop_state ds kos")
  have snoc_st: "loop_state ds (kos @ [ko]) = insert_object ds k obj (m, order)"
    using st by (simp add: loop_state_def ko)
  from snoc.IH st have order: "order = prefixes_in_order kos" by simp
  have m: "map_of m q = (if q \<in> set (prefixes_in_order kos)
      then Some (snapshot_of_prefix ds q kos) else None)" for q
    using snoc.IH [of q] st by simp
  show ?case
  proof (cases "sk_prefix k \<in> set (prefixes_in_order kos)")
    case True
    then show ?thesis
      using m [of "sk_prefix k"] m [of p]
      by (simp add: snoc_st [unfolded ko] insert_object_def order map_of_update ko prefixes_in_order_snoc
          snapshot_of_prefix_same snapshot_of_prefix_other del: set_prefixes_in_order)
  next
    case False
    then show ?thesis
      using m [of "sk_prefix k"] m [of p]
      by (simp add: snoc_st [unfolded ko] insert_object_def order map_of_update ko prefixes_in_order_snoc
          snapshot_of_prefix_new snapshot_of_prefix_other del: set_prefixes_in_order)
  qed
qed

lemma snapshots_loop_ok:
  "listing_ok objects \<Longrightarrow>
   snapshots_loop ds objects st
     = Inr (foldl (\<lambda>st (k, obj). insert_object ds k obj st) st (keyed_objects objects))"
  by (induction objects arbitrary: st) (auto simp: listing_ok_def object_ok_def split: sum.splits)

lemma snapshots_loop_not_ok:
  "\<not> listing_ok objects \<Longrightarrow> \<exists>e. snapshots_loop ds objects st = Inl e"
proof (induction objects arbitrary: st)
  case Nil
  then show ?case by (simp add: listing_ok_def)
next
  case (Cons obj objects)
  show ?case
  proof (cases "listing_ok objects")
    case True
    with Cons.prems have "\<not> object_ok obj" by (simp add: listing_ok_def)
    then show ?thesis by (auto simp: object_ok_def split: sum.splits option.split)
  next
    case False
    with Cons.IH show ?thesis by (auto split: sum.split option.split)
  qed
qed

lemma map_filter_Some:
  "(\<And>x. x \<in> set xs \<Longrightarrow> f x = Some (g x)) \<Longrightarrow> List.map_filter f xs = map g xs"
  by (induction xs) (simp_all add: map_filter_simps)

lemma is_listed_eq: "is_listed rc = (\<lambda>s. rc \<or> \<not> corrupted s)"
  by (auto simp: is_listed_def fun_eq_iff)

lemma SnapshotsFromObjects_ok:
  assumes "listing_ok objects"
  shows "SnapshotsFromObjects objects ds returnCorrupted =
    Inr (filter (\<lambda>s. returnCorrupted \<or> \<not> corrupted s)
      (map (\<lambda>p. snapshot_of_prefix ds p (keyed_objects objects))
        (prefixes_in_order (keyed_objects objects))))"
proof -
  obtain m order where st: "loop_state ds (keyed_objects objects) = (m, order)"
    by (cases "loop_state ds (keyed_objects objects)")
  then have "snapshots_loop ds objects ([], []) = Inr (m, order)"
    using snapshots_loop_ok [OF assms, of ds "([], [])"] by (simp add: loop_state_def)
  moreover have "order = prefixes_in_order (keyed_objects objects)"
    using loop_state_spec [of ds "keyed_objects objects"] st by simp
  moreover have "map_of m p = Some (snapshot_of_prefix ds p (keyed_objects objects))"
    if "p \<in> set (prefixes_in_order (keyed_objects objects))" for p
    using loop_state_spec [of ds "keyed_objects objects" p] st that by simp
  then have "List.map_filter (map_of m) (prefixes_in_order (keyed_objects objects))
      = map (\<lambda>p. snapshot_of_prefix ds p (keyed_objects objects))
          (prefixes_in_order (keyed_objects objects))"
    by (intro map_filter_Some)
  ultimately show ?thesis by (simp add: SnapshotsFromObjects_def)
qed

lemma SnapshotsFromObjects_Inr_iff:
  "(\<exists>ss. SnapshotsFromObjects objects ds rc = Inr ss) \<longleftrightarrow> listing_ok objects"
  using snapshots_loop_not_ok [of objects ds "([], [])"] SnapshotsFromObjects_ok [of objects ds rc]
  by (cases "listing_ok objects") (auto simp: SnapshotsFromObjects_def)

section \<open>The most recent snapshot\<close>

text \<open>The first of the latest elements of a list of snapshots.\<close>

definition latest_of :: "Snapshot list \<Rightarrow> Snapshot option" where
  "latest_of ss = find (\<lambda>s. list_all (\<lambda>x. BackupTime x \<le> BackupTime s) ss) ss"

definition previous_candidates :: "string \<Rightarrow> u64 \<Rightarrow> Snapshot list \<Rightarrow> Snapshot list" where
  "previous_candidates bid time ss = filter (\<lambda>s. BackupID s = bid \<and> BackupTime s \<noteq> time) ss"

lemma find_append: "find P (xs @ ys) = (case find P xs of None \<Rightarrow> find P ys | Some x \<Rightarrow> Some x)"
  by (induction xs) auto

lemma latest_of_mem: "latest_of ss = Some m \<Longrightarrow> m \<in> set ss \<and> (\<forall>x \<in> set ss. BackupTime x \<le> BackupTime m)"
  by (auto simp: latest_of_def find_Some_iff list_all_iff)

lemma latest_of_snoc:
  "latest_of (ss @ [x]) =
     (case latest_of ss of
        None \<Rightarrow> Some x
      | Some m \<Rightarrow> if BackupTime x > BackupTime m then Some x else Some m)"
proof (induction ss arbitrary: x rule: rev_induct)
  case Nil
  then show ?case by (simp add: latest_of_def)
next
  case (snoc y ss)
  have "latest_of (ss @ [y]) \<noteq> None"
    using snoc [of y] by (simp split: option.split)
  then obtain m where m: "latest_of (ss @ [y]) = Some m" by blast
  have le: "\<forall>z \<in> set (ss @ [y]). BackupTime z \<le> BackupTime m" and mem: "m \<in> set (ss @ [y])"
    using latest_of_mem [OF m] by auto
  show ?case
  proof (cases "BackupTime x > BackupTime m")
    case True
    then have "find (\<lambda>s. list_all (\<lambda>z. BackupTime z \<le> BackupTime s) ((ss @ [y]) @ [x])) (ss @ [y]) = None"
      using le by (fastforce simp: find_None_iff list_all_iff)
    moreover have "list_all (\<lambda>z. BackupTime z \<le> BackupTime x) ((ss @ [y]) @ [x])"
      using le True by (auto simp: list_all_iff)
    ultimately show ?thesis
      using True m unfolding latest_of_def find_append by simp
  next
    case False
    have "find (\<lambda>s. list_all (\<lambda>z. BackupTime z \<le> BackupTime s) ((ss @ [y]) @ [x])) (ss @ [y])
        = find (\<lambda>s. list_all (\<lambda>z. BackupTime z \<le> BackupTime s) (ss @ [y])) (ss @ [y])"
      using False le mem by (intro find_cong) (force simp: list_all_iff)+
    then show ?thesis
      using False m unfolding latest_of_def find_append by simp
  qed
qed

lemma latest_of_Nil [simp]: "latest_of [] = None"
  by (simp add: latest_of_def)

lemma foldl_latest_step:
  "foldl (latest_step bid time) None ss = latest_of (previous_candidates bid time ss)"
  by (induction ss rule: rev_induct)
    (auto simp: previous_candidates_def latest_step_def latest_of_snoc split: option.split)

section \<open>Deleting a snapshot\<close>

lemma S3Prefix_inject:
  assumes "wf_identity S" "wf_identity S'" "S3Prefix S = S3Prefix S'"
  shows "BackupID S = BackupID S' \<and> BackupTime S = BackupTime S' \<and> BackupType S = BackupType S'"
  using parse_snapshot_key_S3Prefix [OF assms(1), of "''x''"]
    parse_snapshot_key_S3Prefix [OF assms(2), of "''x''"] assms(3) by simp

lemma S3Prefix_slash_disjoint:
  assumes "wf_identity S" "wf_identity S'" "HasPrefix (S3Prefix S' @ ''/'' @ fname) (S3Prefix S @ ''/'')"
  shows "S3Prefix S = S3Prefix S'"
proof -
  let ?id = "\<lambda>S. BackupID S @ ''|'' @ format_nat (unat (BackupTime S)) @ ''|'' @ BackupType S"
  from assms(3) obtain t where "?id S' @ CHR ''/'' # fname = ?id S @ CHR ''/'' # t"
    by (auto simp: HasPrefix_iff S3Prefix_def)
  then have "SplitN2 (?id S' @ CHR ''/'' # fname) CHR ''/'' = SplitN2 (?id S @ CHR ''/'' # t) CHR ''/''"
    by (rule arg_cong)
  then have "?id S' = ?id S"
    using assms(1,2) by (subst (asm) (1 2) SplitN2_append) (auto simp: wf_identity_def)
  then show ?thesis by (simp add: S3Prefix_def)
qed

lemma collect_objects_Inr:
  "collect_objects msg objects = Inr os \<Longrightarrow> os = objects \<and> (\<forall>obj \<in> set objects. ListErr obj = None)"
  by (induction objects arbitrary: os) (auto split: option.splits sum.splits)

lemma collect_objects_ok:
  "(\<forall>obj \<in> set objects. ListErr obj = None) \<Longrightarrow> collect_objects msg objects = Inr objects"
  by (induction objects) auto

lemma Delete_only_prefix:
  assumes "removes_only c view" "lists_prefix c" "\<not> HasPrefix k (S3Prefix S @ ''/'')"
  shows "view (snd (Delete c st S)) b k = view st b k"
proof -
  have "k \<notin> Key ` set os" if "collect_objects msg (ListObjects c st (Datastore S) (S3Prefix S @ ''/'')) = Inr os"
    for msg os
    using collect_objects_Inr [OF that] assms(2,3) unfolding lists_prefix_def by blast
  then show ?thesis
    using assms(1) unfolding Delete_def removes_only_def
    by (auto split: sum.split prod.split) (metis snd_conv)
qed

text \<open>A deletion that reports no error leaves nothing under the prefix of the snapshot.\<close>

lemma Delete_removes_prefix:
  assumes "removes_all c view" "removes_only c view" "lists_all c view" "Delete c st S = (None, st')"
    and "HasPrefix k (S3Prefix S @ ''/'')"
  shows "view st' (Datastore S) k = None"
proof -
  let ?os = "ListObjects c st (Datastore S) (S3Prefix S @ ''/'')"
  have os: "collect_objects ''list snapshot before deletion'' ?os = Inr ?os" "\<forall>obj \<in> set ?os. ListErr obj = None"
    and rm: "RemoveObjects c st (Datastore S) ?os = ([], st')"
    using assms(4) by (auto simp: Delete_def errors_Join_def split: sum.splits prod.splits if_splits
        dest: collect_objects_Inr)
  show ?thesis
  proof (cases "k \<in> Key ` set ?os")
    case True
    with assms(1) [unfolded removes_all_def, rule_format, OF rm] show ?thesis by simp
  next
    case False
    then have "view st (Datastore S) k = None"
      using assms(3,5) os(2) unfolding lists_all_def by blast
    moreover have "view (snd (RemoveObjects c st (Datastore S) ?os)) (Datastore S) k = view st (Datastore S) k"
      using assms(2) False unfolding removes_only_def by blast
    ultimately show ?thesis using rm by simp
  qed
qed

section \<open>Lemmas: listings of written keys\<close>

text \<open>Listings of keys that were built from snapshot identities.\<close>

definition identity :: "Snapshot \<Rightarrow> string \<times> u64 \<times> string" where
  "identity s = (BackupID s, BackupTime s, BackupType s)"

definition file_of :: "Snapshot \<Rightarrow> string \<Rightarrow> object_info \<Rightarrow> bool" where
  "file_of S fname obj \<longleftrightarrow> wf_identity S \<and> fname \<noteq> [] \<and> Key obj = S3Prefix S @ ''/'' @ fname"

definition written_listing :: "object_info list \<Rightarrow> bool" where
  "written_listing objects \<longleftrightarrow>
     (\<forall>obj \<in> set objects. ListErr obj = None \<and> (HasPrefix (Key obj) ''backups/'' \<longrightarrow> (\<exists>S fname. file_of S fname obj)))"

lemma S3Prefix_identity: "identity s = identity S \<Longrightarrow> S3Prefix s = S3Prefix S"
  by (simp add: identity_def S3Prefix_def)

lemma S3Prefix_drop: "drop 8 (S3Prefix S) = drop 8 (S3Prefix S') \<Longrightarrow> S3Prefix S = S3Prefix S'"
  by (simp add: S3Prefix_def)

lemma wf_identity_cong: "identity s = identity S \<Longrightarrow> wf_identity s = wf_identity S"
  by (simp add: identity_def wf_identity_def)

lemma file_of_parse:
  "file_of S fname obj \<Longrightarrow> parse_snapshot_key (Key obj)
     = Inr \<lparr>sk_prefix = drop 8 (S3Prefix S), sk_id = BackupID S, sk_time = BackupTime S, sk_type = BackupType S,
            sk_file = fname\<rparr>"
  using parse_snapshot_key_S3Prefix [of S fname] by (auto simp: file_of_def)

lemma set_keyed_objects:
  "set (keyed_objects objects)
     = {(k, obj). obj \<in> set objects \<and> HasPrefix (Key obj) ''backups/'' \<and> parse_snapshot_key (Key obj) = Inr k}"
  by (induction objects) (auto split: sum.splits)

lemma keyed_written:
  assumes "written_listing objects" "(k, obj) \<in> set (keyed_objects objects)"
  obtains S where "file_of S (sk_file k) obj" "sk_prefix k = drop 8 (S3Prefix S)" "sk_id k = BackupID S"
    "sk_time k = BackupTime S" "sk_type k = BackupType S"
proof -
  obtain S f where S: "file_of S f obj"
    using assms by (auto simp: set_keyed_objects written_listing_def)
  from file_of_parse [OF this] assms(2) S show ?thesis
    by (intro that [of S]) (auto simp: set_keyed_objects)
qed

lemma written_keyed:
  assumes "obj \<in> set objects" "file_of S fname obj"
  shows "(\<lparr>sk_prefix = drop 8 (S3Prefix S), sk_id = BackupID S, sk_time = BackupTime S, sk_type = BackupType S,
      sk_file = fname\<rparr>, obj) \<in> set (keyed_objects objects)"
  using assms file_of_parse [OF assms(2)] by (auto simp: set_keyed_objects file_of_def)

lemma written_listing_ok: "written_listing objects \<Longrightarrow> listing_ok objects"
proof -
  assume written: "written_listing objects"
  have "object_ok obj" if "obj \<in> set objects" for obj
  proof (cases "HasPrefix (Key obj) ''backups/''")
    case True
    then obtain S f where "file_of S f obj" using written \<open>obj \<in> set objects\<close> by (auto simp: written_listing_def)
    from file_of_parse [OF this] written that show ?thesis by (simp add: object_ok_def written_listing_def)
  qed (use written that in \<open>simp add: object_ok_def written_listing_def\<close>)
  then show ?thesis by (simp add: listing_ok_def list_all_iff)
qed

text \<open>The snapshot of a prefix has the identity the prefix was made from, and the files stored under it.\<close>

lemma snapshot_of_written_prefix:
  assumes written: "written_listing objects" and p: "p \<in> set (prefixes_in_order (keyed_objects objects))"
    and s: "s = snapshot_of_prefix ds p (keyed_objects objects)"
  shows "drop 8 (S3Prefix s) = p" "wf_identity s" "Datastore s = ds"
proof -
  let ?mine = "objects_of_prefix p (keyed_objects objects)"
  obtain k obj where hd: "hd ?mine = (k, obj)" by (cases "hd ?mine")
  have "?mine \<noteq> []" using p by (simp only: objects_of_prefix_Nil_iff) simp
  from hd_in_set [OF this] have "(k, obj) \<in> set ?mine" by (simp only: hd)
  then have k: "(k, obj) \<in> set (keyed_objects objects)" "sk_prefix k = p" by (simp_all add: objects_of_prefix_def)
  from keyed_written [OF written k(1)] obtain S where S: "file_of S (sk_file k) obj" "sk_prefix k = drop 8 (S3Prefix S)"
    "sk_id k = BackupID S" "sk_time k = BackupTime S" "sk_type k = BackupType S" .
  then have id: "identity s = identity S"
    by (simp add: s snapshot_of_prefix_def Let_def hd new_snapshot_def identity_def)
  show "drop 8 (S3Prefix s) = p" using S3Prefix_identity [OF id] S(2) k(2) by simp
  show "wf_identity s" using wf_identity_cong [OF id] S(1) by (simp add: file_of_def)
  show "Datastore s = ds" by (simp add: s snapshot_of_prefix_def Let_def new_snapshot_def)
qed

lemma mine_of_snapshot:
  assumes "written_listing objects" "wf_identity s" "drop 8 (S3Prefix s) = p"
  shows "(\<exists>k obj. (k, obj) \<in> set (objects_of_prefix p (keyed_objects objects)) \<and> sk_file k = f)
    \<longleftrightarrow> (\<exists>obj \<in> set objects. file_of s f obj)"
proof
  assume "\<exists>k obj. (k, obj) \<in> set (objects_of_prefix p (keyed_objects objects)) \<and> sk_file k = f"
  then obtain k obj where ko: "(k, obj) \<in> set (keyed_objects objects)" "sk_prefix k = p" "sk_file k = f"
    by (auto simp: objects_of_prefix_def)
  from keyed_written [OF assms(1) ko(1)] obtain S where S: "file_of S f obj" "drop 8 (S3Prefix S) = p"
    using ko(2,3) by metis
  then have "S3Prefix S = S3Prefix s" using assms(3) by (intro S3Prefix_drop) simp
  then have "file_of s f obj" using S(1) assms(2) by (simp add: file_of_def)
  then show "\<exists>obj \<in> set objects. file_of s f obj" using ko(1) by (auto simp: set_keyed_objects)
next
  assume "\<exists>obj \<in> set objects. file_of s f obj"
  then obtain obj where obj: "obj \<in> set objects" "file_of s f obj" by blast
  then show "\<exists>k obj. (k, obj) \<in> set (objects_of_prefix p (keyed_objects objects)) \<and> sk_file k = f"
    using written_keyed [OF obj] assms(3) by (force simp: objects_of_prefix_def)
qed

lemma snapshot_of_written_files:
  assumes written: "written_listing objects" and p: "p \<in> set (prefixes_in_order (keyed_objects objects))"
    and s: "s = snapshot_of_prefix ds p (keyed_objects objects)"
  shows "corrupted s \<longleftrightarrow> (\<exists>obj \<in> set objects. file_of s ''corrupted'' obj)"
    and "Filename ` set (Files s) = {f. (\<exists>obj \<in> set objects. file_of s f obj) \<and> \<not> HasSuffix f ''.csjson''}"
proof -
  note mine = mine_of_snapshot [OF written snapshot_of_written_prefix(2,1) [OF assms]]
  show "corrupted s \<longleftrightarrow> (\<exists>obj \<in> set objects. file_of s ''corrupted'' obj)"
    unfolding mine [symmetric] by (auto simp: s snapshot_of_prefix_def Let_def list_ex_iff)
  show "Filename ` set (Files s) = {f. (\<exists>obj \<in> set objects. file_of s f obj) \<and> \<not> HasSuffix f ''.csjson''}"
    unfolding mine [symmetric] by (force simp: s snapshot_of_prefix_def Let_def)
qed

text \<open>The snapshot of the prefix that an identity is written to.\<close>

lemma snapshot_at:
  assumes written: "written_listing objects" and p: "p \<in> set (prefixes_in_order (keyed_objects objects))"
    and s: "s = snapshot_of_prefix ds p (keyed_objects objects)" and wf: "wf_identity S"
  shows "identity s = identity S \<longleftrightarrow> p = drop 8 (S3Prefix S)"
    and "p = drop 8 (S3Prefix S) \<Longrightarrow> file_of s f obj = file_of S f obj"
proof -
  note at = snapshot_of_written_prefix(1,2) [OF written p s]
  show "identity s = identity S \<longleftrightarrow> p = drop 8 (S3Prefix S)"
  proof
    assume "p = drop 8 (S3Prefix S)"
    with at(1) have "S3Prefix s = S3Prefix S" by (intro S3Prefix_drop) (simp only:)
    from S3Prefix_inject [OF at(2) wf this] show "identity s = identity S" by (simp add: identity_def)
  qed (use at(1) S3Prefix_identity in metis)
  assume "p = drop 8 (S3Prefix S)"
  with at(1) have "S3Prefix s = S3Prefix S" by (intro S3Prefix_drop) (simp only:)
  then show "file_of s f obj = file_of S f obj" using at(2) wf by (simp add: file_of_def)
qed

lemma prefix_written_iff:
  assumes written: "written_listing objects" and wf: "wf_identity S"
  shows "drop 8 (S3Prefix S) \<in> set (prefixes_in_order (keyed_objects objects))
    \<longleftrightarrow> (\<exists>fname. \<exists>obj \<in> set objects. file_of S fname obj)"
proof
  assume "drop 8 (S3Prefix S) \<in> set (prefixes_in_order (keyed_objects objects))"
  then obtain k obj where ko: "(k, obj) \<in> set (keyed_objects objects)" "sk_prefix k = drop 8 (S3Prefix S)" by auto
  then have "(k, obj) \<in> set (objects_of_prefix (drop 8 (S3Prefix S)) (keyed_objects objects))"
    by (simp add: objects_of_prefix_def)
  with mine_of_snapshot [OF written wf refl, of "sk_file k"]
  show "\<exists>fname. \<exists>obj \<in> set objects. file_of S fname obj" by blast
next
  assume "\<exists>fname. \<exists>obj \<in> set objects. file_of S fname obj"
  then obtain f obj where "obj \<in> set objects" "file_of S f obj" by blast
  from written_keyed [OF this] show "drop 8 (S3Prefix S) \<in> set (prefixes_in_order (keyed_objects objects))" by force
qed

section \<open>Properties\<close>

text \<open>
  C27: A listing is turned into snapshots exactly when every entry is free of errors and every key
  under \<open>backups/\<close> parses; the result then has one snapshot per prefix, in the order of the first
  object of the prefix, holding all files of that prefix and no others, and leaves out the corrupted
  ones unless they were asked for. Otherwise the whole listing is refused.
\<close>

theorem SnapshotsFromObjects_spec:
  "if listing_ok objects
   then SnapshotsFromObjects objects ds returnCorrupted =
     Inr (filter (is_listed returnCorrupted)
       (map (\<lambda>p. snapshot_of_prefix ds p (keyed_objects objects))
         (prefixes_in_order (keyed_objects objects))))
   else \<exists>e. SnapshotsFromObjects objects ds returnCorrupted = Inl e"
  using SnapshotsFromObjects_ok [of objects ds returnCorrupted]
    snapshots_loop_not_ok [of objects ds "([], [])"]
  by (auto simp: SnapshotsFromObjects_def is_listed_eq)

text \<open>
  C28: What was written is what is listed. Take any listing in which no entry is an error and every key
  under \<open>backups/\<close> was built from the identity of some snapshot and a file name, in any number and order,
  beside any keys elsewhere. It is never refused. The snapshots it yields have distinct identities,
  and they are exactly the identities that files were stored under, less those with a corruption marker
  unless these are asked for. Each snapshot belongs to the datastore and has exactly the files stored
  under its prefix, the side files with chunk sizes apart. (A key under \<open>backups/\<close> that was not built this way
  can make the whole listing fail.)
\<close>

theorem snapshot_identity_roundtrip:
  assumes written: "written_listing objects"
  shows "\<exists>ss. SnapshotsFromObjects objects ds returnCorrupted = Inr ss \<and> distinct (map identity ss)
    \<and> (\<forall>S. wf_identity S \<longrightarrow> (identity S \<in> identity ` set ss \<longleftrightarrow>
          (\<exists>fname. \<exists>obj \<in> set objects. file_of S fname obj)
          \<and> (returnCorrupted \<or> \<not> (\<exists>obj \<in> set objects. file_of S ''corrupted'' obj))))
    \<and> (\<forall>s \<in> set ss. wf_identity s \<and> Datastore s = ds
          \<and> Filename ` set (Files s) = {f. (\<exists>obj \<in> set objects. file_of s f obj) \<and> \<not> HasSuffix f ''.csjson''})"
proof -
  define ps where "ps = prefixes_in_order (keyed_objects objects)"
  define snap where "snap p = snapshot_of_prefix ds p (keyed_objects objects)" for p
  define ss where "ss = filter (\<lambda>s. returnCorrupted \<or> \<not> corrupted s) (map snap ps)"
  note at = snapshot_of_written_prefix [where ds = ds, OF written _ refl, folded ps_def snap_def]
    and files = snapshot_of_written_files [where ds = ds, OF written _ refl, folded ps_def snap_def]
    and here = snapshot_at [where ds = ds, OF written _ refl, folded ps_def snap_def]
  have "inj_on (\<lambda>p. identity (snap p)) (set ps)"
  proof (rule inj_onI)
    fix p q
    assume pq: "p \<in> set ps" "q \<in> set ps" "identity (snap p) = identity (snap q)"
    show "p = q" using at(1) [OF pq(1)] at(1) [OF pq(2)] S3Prefix_identity [OF pq(3)] by (metis)
  qed
  then have "distinct (map identity (map snap ps))" by (simp add: distinct_map comp_def ps_def)
  then have dist: "distinct (map identity ss)" unfolding ss_def by (rule distinct_map_filter)
  have listed: "identity S \<in> identity ` set ss \<longleftrightarrow> (\<exists>fname. \<exists>obj \<in> set objects. file_of S fname obj)
      \<and> (returnCorrupted \<or> \<not> (\<exists>obj \<in> set objects. file_of S ''corrupted'' obj))" if wf: "wf_identity S" for S
  proof -
    let ?p = "drop 8 (S3Prefix S)"
    have "identity S \<in> identity ` set ss \<longleftrightarrow> (\<exists>p \<in> set ps. identity (snap p) = identity S \<and> (returnCorrupted \<or> \<not> corrupted (snap p)))"
      unfolding ss_def by (simp add: image_iff) (metis image_eqI)
    also have "\<dots> \<longleftrightarrow> (\<exists>p \<in> set ps. p = ?p \<and> (returnCorrupted \<or> \<not> corrupted (snap p)))"
      by (intro bex_cong refl) (simp only: here(1) [OF _ wf])
    also have "\<dots> \<longleftrightarrow> ?p \<in> set ps \<and> (returnCorrupted \<or> \<not> corrupted (snap ?p))" by blast
    also have "\<dots> \<longleftrightarrow> ?p \<in> set ps \<and> (returnCorrupted \<or> \<not> (\<exists>obj \<in> set objects. file_of S ''corrupted'' obj))"
      using files(1) [of ?p] here(2) [OF _ wf refl] by (cases "?p \<in> set ps") simp_all
    finally show ?thesis by (simp only: prefix_written_iff [OF written wf, folded ps_def])
  qed
  have "SnapshotsFromObjects objects ds returnCorrupted = Inr ss"
    unfolding ss_def ps_def snap_def [abs_def] by (rule SnapshotsFromObjects_ok [OF written_listing_ok [OF written]])
  moreover have "wf_identity s \<and> Datastore s = ds
      \<and> Filename ` set (Files s) = {f. (\<exists>obj \<in> set objects. file_of s f obj) \<and> \<not> HasSuffix f ''.csjson''}" if "s \<in> set ss" for s
  proof -
    from that obtain p where "p \<in> set ps" "s = snap p" by (auto simp: ss_def)
    with at(2,3) files(2) show ?thesis by simp
  qed
  ultimately show ?thesis by (intro exI [of _ ss] conjI allI impI ballI dist listed) simp_all
qed

definition sample_snapshot :: Snapshot where
  "sample_snapshot = zero_snapshot\<lparr>BackupID := ''100'', BackupTime := 1700000000, BackupType := ''vm''\<rparr>"

text \<open>Two files of one snapshot, a marked one of another, and an object elsewhere.\<close>

definition other_snapshot :: Snapshot where
  "other_snapshot = sample_snapshot\<lparr>BackupID := ''101''\<rparr>"

definition sample_listing :: "object_info list" where
  "sample_listing = map (\<lambda>key. mem_info key [] [])
     [S3Prefix sample_snapshot @ ''/'' @ ''drive.fidx'', S3Prefix other_snapshot @ ''/'' @ ''corrupted'',
      S3Prefix sample_snapshot @ ''/'' @ ''qemu.conf.blob'', ''indexed/a.fidx'']"

theorem snapshot_identity_roundtrip_witness:
  "written_listing sample_listing
   \<and> (\<exists>ss. SnapshotsFromObjects sample_listing ''ds'' False = Inr ss \<and> identity sample_snapshot \<in> identity ` set ss
        \<and> identity other_snapshot \<notin> identity ` set ss)"
proof -
  have wf: "wf_identity sample_snapshot" "wf_identity other_snapshot"
    by (simp_all add: wf_identity_def sample_snapshot_def other_snapshot_def zero_snapshot_def)
  have key: "Key (mem_info key data meta) = key" "ListErr (mem_info key data meta) = None" for key data meta
    by (simp_all add: mem_info_def)
  have files: "file_of sample_snapshot ''drive.fidx'' (mem_info (S3Prefix sample_snapshot @ ''/'' @ ''drive.fidx'') [] [])"
    "file_of other_snapshot ''corrupted'' (mem_info (S3Prefix other_snapshot @ ''/'' @ ''corrupted'') [] [])"
    "file_of sample_snapshot ''qemu.conf.blob'' (mem_info (S3Prefix sample_snapshot @ ''/'' @ ''qemu.conf.blob'') [] [])"
    using wf by (simp_all add: file_of_def key)
  have out: "\<not> HasPrefix ''indexed/a.fidx'' ''backups/''" by (simp add: HasPrefix_def)
  have members: "set sample_listing = (\<lambda>key. mem_info key [] []) ` {S3Prefix sample_snapshot @ ''/'' @ ''drive.fidx'',
      S3Prefix other_snapshot @ ''/'' @ ''corrupted'', S3Prefix sample_snapshot @ ''/'' @ ''qemu.conf.blob'', ''indexed/a.fidx''}"
    by (simp add: sample_listing_def)
  have written: "written_listing sample_listing"
    unfolding written_listing_def members using files out by (simp only: ball_simps key simp_thms) blast
  have unmarked: "\<not> file_of sample_snapshot ''corrupted'' obj" if "obj \<in> set sample_listing" for obj
    using that unfolding members file_of_def
    by (auto simp: key S3Prefix_def sample_snapshot_def other_snapshot_def zero_snapshot_def)
  have stored: "\<exists>f. \<exists>obj \<in> set sample_listing. file_of sample_snapshot f obj"
    "\<exists>obj \<in> set sample_listing. file_of other_snapshot ''corrupted'' obj" unfolding members using files by blast+
  obtain ss where "SnapshotsFromObjects sample_listing ''ds'' False = Inr ss"
    "\<forall>S. wf_identity S \<longrightarrow> (identity S \<in> identity ` set ss \<longleftrightarrow> (\<exists>fname. \<exists>obj \<in> set sample_listing. file_of S fname obj)
       \<and> (False \<or> \<not> (\<exists>obj \<in> set sample_listing. file_of S ''corrupted'' obj)))"
    using snapshot_identity_roundtrip [OF written, of "''ds''" False] by blast
  with stored wf unmarked written show ?thesis by blast
qed

text \<open>
  The base of an incremental backup is the latest listed snapshot of the same backup id other
  than the one being written, the first of them on a tie; there is none exactly when no such
  snapshot is listed, and a listing error is passed on.
\<close>

theorem GetLatestSnapshot_spec:
  "GetLatestSnapshot c st ds bid time =
     (case ListSnapshots c st ds False of
        Inl e \<Rightarrow> Inl e
      | Inr ss \<Rightarrow> Inr (latest_of (previous_candidates bid time ss)))"
  by (auto simp: GetLatestSnapshot_def foldl_latest_step previous_candidates_def split: sum.split)

text \<open>
  Deleting a snapshot leaves the objects of every other snapshot and every object outside
  \<open>backups/\<close> as they were, whatever the deletion reports; the client is assumed to list only keys
  under the prefix it is given and to remove only the objects it is given.
\<close>

theorem Delete_keeps_other_snapshots:
  assumes "removes_only c view" and "lists_prefix c"
    and "wf_identity S" and "wf_identity S'"
    and "(BackupID S', BackupTime S', BackupType S') \<noteq> (BackupID S, BackupTime S, BackupType S)"
    and "\<not> HasPrefix k ''backups/''"
  shows "view (snd (Delete c st S)) b (S3Prefix S' @ ''/'' @ fname)
      = view st b (S3Prefix S' @ ''/'' @ fname) \<and>
    view (snd (Delete c st S)) b k = view st b k"
proof -
  have "\<not> HasPrefix (S3Prefix S' @ ''/'' @ fname) (S3Prefix S @ ''/'')"
    using S3Prefix_slash_disjoint [OF assms(3,4)] S3Prefix_inject [OF assms(3,4)] assms(5) by auto
  moreover have "\<not> HasPrefix k (S3Prefix S @ ''/'')"
    using assms(6) HasPrefix_appendD [of k "''backups/''"] unfolding S3Prefix_def append_assoc by blast
  ultimately show ?thesis
    using Delete_only_prefix [OF assms(1,2)] by simp
qed

theorem Delete_keeps_other_snapshots_witness:
  "let S = sample_snapshot; S' = sample_snapshot\<lparr>BackupTime := 1800000000\<rparr>;
       st = [((''ds'', S3Prefix S' @ ''/'' @ ''a.fidx''), ([1], mem_info [] [] []))]
   in mem_view (snd (Delete mem_client st S)) ''ds'' (S3Prefix S' @ ''/'' @ ''a.fidx'') = Some [1]"
  using Delete_keeps_other_snapshots [OF mem_removes_only mem_lists_prefix,
      of sample_snapshot "sample_snapshot\<lparr>BackupTime := 1800000000\<rparr>" "''chunks/''"
        "[((''ds'', S3Prefix (sample_snapshot\<lparr>BackupTime := 1800000000\<rparr>) @ ''/'' @ ''a.fidx''),
           ([1], mem_info [] [] []))]" "''ds''" "''a.fidx''"]
  by (simp add: wf_identity_def sample_snapshot_def zero_snapshot_def mem_view_def HasPrefix_def)

end
