(* ===== verification/Manifest.thy ===== *)
theory Manifest
  imports Snapshots
begin

text \<open>
  \<open>internal/s3pmoxcommon/manifest.go\<close>: the manifest of a snapshot as a Proxmox data blob, the
  encryption modes read from it, and their application to the files of a snapshot. The zstd decoder
  (\<open>klauspost/compress\<close>) and the JSON decoder into the manifest structure are parameters: the first
  gives the decompressed stream or an error, the second the list of file entries or an error.
\<close>

section \<open>Data\<close>

definition uncompressedBlobMagic :: bytes where
  "uncompressedBlobMagic = [66, 171, 56, 7, 190, 131, 112, 161]"

definition compressedBlobMagic :: bytes where
  "compressedBlobMagic = [49, 185, 88, 66, 111, 182, 163, 127]"

definition maxManifestSize :: nat where
  "maxManifestSize = 128 * 1024 * 1024"

record manifestFile =
  mf_Filename :: string
  mf_CryptMode :: string

type_synonym backupManifest = "manifestFile list"

section \<open>Operations\<close>

definition Uint32 :: "bytes \<Rightarrow> 32 word" where
  "Uint32 bs = word_of_nat (le_nat (take 4 bs))"

definition decodeManifestBlob :: "(bytes \<Rightarrow> reader result) \<Rightarrow> bytes \<Rightarrow> bytes result" where
  "decodeManifestBlob zstd_NewReader raw =
     (if length raw < 12 then Inl (Error ''manifest blob too small'')
      else if ChecksumIEEE (drop 12 raw) \<noteq> Uint32 (slice 8 12 raw)
      then Inl (Error ''manifest blob CRC mismatch'')
      else if take 8 raw = uncompressedBlobMagic then Inr (drop 12 raw)
      else if take 8 raw = compressedBlobMagic
      then (case zstd_NewReader (drop 12 raw) of
              Inl e \<Rightarrow> Inl (Wrap ''open compressed manifest'' e)
            | Inr decoder \<Rightarrow>
                (case io_ReadAll (io_LimitReader decoder (maxManifestSize + 1)) of
                   Inl e \<Rightarrow> Inl (Wrap ''decompress manifest'' e)
                 | Inr decoded \<Rightarrow>
                     if length decoded > maxManifestSize
                     then Inl (Error ''decoded manifest exceeds the limit'')
                     else Inr decoded))
      else Inl (Error ''unsupported manifest blob magic''))"

definition known_mode :: "string \<Rightarrow> bool" where
  "known_mode mode \<longleftrightarrow> mode = ''none'' \<or> mode = ''sign-only'' \<or> mode = ''encrypt''"

fun modes_loop ::
    "manifestFile list \<Rightarrow> (string, string) gomap \<Rightarrow> (string, string) gomap result" where
  "modes_loop [] modes = Inr modes"
| "modes_loop (file # files) modes =
     (let mode = (if mf_CryptMode file = [] then ''none'' else mf_CryptMode file) in
      if known_mode mode then modes_loop files (AList.update (mf_Filename file) mode modes)
      else Inl (Error ''file has unsupported crypt mode''))"

definition ParseManifestCryptModes ::
    "(bytes \<Rightarrow> reader result) \<Rightarrow> (bytes \<Rightarrow> backupManifest result) \<Rightarrow> bytes
      \<Rightarrow> (string, string) gomap result" where
  "ParseManifestCryptModes zstd_NewReader json_Unmarshal raw =
     (case decodeManifestBlob zstd_NewReader raw of
        Inl e \<Rightarrow> Inl e
      | Inr data \<Rightarrow>
          (case json_Unmarshal data of
             Inl e \<Rightarrow> Inl (Wrap ''decode manifest JSON'' e)
           | Inr manifest \<Rightarrow> modes_loop manifest []))"

definition ApplySnapshotCryptModes :: "Snapshot \<Rightarrow> (string, string) gomap \<Rightarrow> Snapshot" where
  "ApplySnapshotCryptModes snapshot modes =
     snapshot\<lparr>Files := map (\<lambda>f. case map_of modes (Filename f) of
                                 Some mode \<Rightarrow> f\<lparr>CryptMode := mode\<rparr>
                               | None \<Rightarrow> f) (Files snapshot)\<rparr>"

definition applyManifestCryptModes ::
    "(bytes \<Rightarrow> reader result) \<Rightarrow> (bytes \<Rightarrow> backupManifest result) \<Rightarrow> Snapshot \<Rightarrow> bytes
      \<Rightarrow> Snapshot result" where
  "applyManifestCryptModes zstd_NewReader json_Unmarshal snapshot raw =
     (case ParseManifestCryptModes zstd_NewReader json_Unmarshal raw of
        Inl e \<Rightarrow> Inl e
      | Inr modes \<Rightarrow> Inr (ApplySnapshotCryptModes snapshot modes))"

definition ReadSnapshotCryptModes ::
    "(bytes \<Rightarrow> reader result) \<Rightarrow> (bytes \<Rightarrow> backupManifest result) \<Rightarrow> 's s3_client \<Rightarrow> 's
      \<Rightarrow> Snapshot \<Rightarrow> (string, string) gomap result" where
  "ReadSnapshotCryptModes zstd_NewReader json_Unmarshal c st snapshot =
     (let key = S3Prefix snapshot @ ''/index.json.blob'' in
      case GetObject c st (Datastore snapshot) key of
        Inl e \<Rightarrow> Inl (Wrap (''get '' @ key) e)
      | Inr obj \<Rightarrow>
          (case io_ReadAll (io_LimitReader (oh_body obj) (maxManifestSize + 13)) of
             Inl e \<Rightarrow> Inl (Wrap (''read '' @ key) e)
           | Inr raw \<Rightarrow>
               (case oh_close obj of
                  Some e \<Rightarrow> Inl (Wrap (''close '' @ key) e)
                | None \<Rightarrow>
                    if length raw > maxManifestSize + 12
                    then Inl (Error (key @ '' exceeds the maximum manifest size''))
                    else (case ParseManifestCryptModes zstd_NewReader json_Unmarshal raw of
                            Inl e \<Rightarrow> Inl (Wrap (''parse '' @ key) e)
                          | Inr modes \<Rightarrow> Inr modes))))"

section \<open>The data blob a client writes\<close>

definition crc_bytes :: "bytes \<Rightarrow> bytes" where
  "crc_bytes data = le_bytes 4 (unat (ChecksumIEEE data))"

definition data_blob :: "bytes \<Rightarrow> bytes \<Rightarrow> bytes" where
  "data_blob magic payload = magic @ crc_bytes payload @ payload"

definition effective_mode :: "manifestFile \<Rightarrow> string" where
  "effective_mode file = (if mf_CryptMode file = [] then ''none'' else mf_CryptMode file)"

text \<open>The mode a manifest states for a file: that of its last entry with the name.\<close>

definition mode_in :: "backupManifest \<Rightarrow> string \<Rightarrow> string option" where
  "mode_in manifest name =
     map_option effective_mode (find (\<lambda>f. mf_Filename f = name) (rev manifest))"

section \<open>Lemmas\<close>

lemma length_blob_magics [simp]:
  "length uncompressedBlobMagic = 8" "length compressedBlobMagic = 8"
  by (simp_all add: uncompressedBlobMagic_def compressedBlobMagic_def)

lemma blob_magics_differ: "uncompressedBlobMagic \<noteq> compressedBlobMagic"
  by (simp add: uncompressedBlobMagic_def compressedBlobMagic_def)

lemma Uint32_crc_bytes: "Uint32 (crc_bytes d) = ChecksumIEEE d"
proof -
  have "unat (ChecksumIEEE d) < 256 ^ 4" using unsigned_less [of "ChecksumIEEE d"] by simp
  then show ?thesis by (simp add: Uint32_def crc_bytes_def le_nat_le_bytes)
qed

lemma data_blob_fields:
  assumes "length magic = 8"
  shows "length (data_blob magic p) = 12 + length p" "take 8 (data_blob magic p) = magic"
    "slice 8 12 (data_blob magic p) = crc_bytes p" "drop 12 (data_blob magic p) = p"
  using assms by (simp_all add: data_blob_def crc_bytes_def slice_def)

lemma decode_uncompressed: "decodeManifestBlob zstd (data_blob uncompressedBlobMagic d) = Inr d"
  by (simp add: decodeManifestBlob_def data_blob_fields Uint32_crc_bytes)

lemma decode_compressed:
  assumes "zstd z = Inr (bytes_NewReader d)" "length d \<le> maxManifestSize"
  shows "decodeManifestBlob zstd (data_blob compressedBlobMagic z) = Inr d"
  using assms blob_magics_differ [symmetric]
  by (simp add: decodeManifestBlob_def data_blob_fields Uint32_crc_bytes io_LimitReader_def io_ReadAll_def
      bytes_NewReader_def)

lemma modes_loop_spec:
  "modes_loop files modes =
     (if list_all (\<lambda>f. known_mode (effective_mode f)) files
      then Inr (foldl (\<lambda>m f. AList.update (mf_Filename f) (effective_mode f) m) modes files)
      else Inl (Error ''file has unsupported crypt mode''))"
  by (induction files arbitrary: modes) (auto simp: effective_mode_def Let_def)

lemma map_of_modes:
  "map_of (foldl (\<lambda>m f. AList.update (mf_Filename f) (effective_mode f) m) modes files) name
     = (case mode_in files name of Some m \<Rightarrow> Some m | None \<Rightarrow> map_of modes name)"
  by (induction files rule: rev_induct) (auto simp: mode_in_def map_of_update)

lemma ParseManifest_blob:
  assumes "decodeManifestBlob zstd raw = Inr data" "json data = Inr manifest"
    and "list_all (\<lambda>f. known_mode (effective_mode f)) manifest"
  obtains modes where "ParseManifestCryptModes zstd json raw = Inr modes"
    "\<forall>name. map_of modes name = mode_in manifest name"
  using assms by (auto simp: ParseManifestCryptModes_def modes_loop_spec map_of_modes split: option.splits)

section \<open>Properties\<close>

text \<open>
  C37: The encryption modes a client states reach the listing. For a manifest stored as an
  uncompressed data blob with a good checksum, or as a compressed one whose decompression is within
  the size limit, and all of whose modes are known, reading and applying it succeeds and sets for
  every file of the snapshot exactly the mode of the last entry of that name, \<open>none\<close> when the entry
  leaves it out; a file the manifest does not name and all other data of the snapshot are unchanged.
\<close>

theorem manifest_modes_applied:
  assumes json: "json data = Inr manifest" "list_all (\<lambda>f. known_mode (effective_mode f)) manifest"
    and blob: "raw = (case compressed of None \<Rightarrow> data_blob uncompressedBlobMagic data
                        | Some z \<Rightarrow> data_blob compressedBlobMagic z)"
    and zstd: "\<And>z. compressed = Some z \<Longrightarrow>
      zstd z = Inr (bytes_NewReader data) \<and> length data \<le> maxManifestSize"
  shows "applyManifestCryptModes zstd json snapshot raw =
    Inr (snapshot\<lparr>Files := map (\<lambda>f. case mode_in manifest (Filename f) of
        Some mode \<Rightarrow> f\<lparr>CryptMode := mode\<rparr> | None \<Rightarrow> f) (Files snapshot)\<rparr>)"
proof -
  have "decodeManifestBlob zstd raw = Inr data"
    using blob zstd by (cases compressed) (simp_all add: decode_uncompressed decode_compressed)
  then obtain modes where "ParseManifestCryptModes zstd json raw = Inr modes"
    and "\<forall>name. map_of modes name = mode_in manifest name"
    using ParseManifest_blob json by metis
  then show ?thesis by (simp add: applyManifestCryptModes_def ApplySnapshotCryptModes_def)
qed

theorem manifest_modes_applied_witness:
  "applyManifestCryptModes (\<lambda>_. Inl (Error ''no decoder''))
     (\<lambda>_. Inr [\<lparr>mf_Filename = ''a.fidx'', mf_CryptMode = ''encrypt''\<rparr>])
     (zero_snapshot\<lparr>Files := [\<lparr>Filename = ''a.fidx'', CryptMode = ''none'', FileSize = 5\<rparr>]\<rparr>)
     (data_blob uncompressedBlobMagic [1, 2, 3])
   = Inr (zero_snapshot\<lparr>Files := [\<lparr>Filename = ''a.fidx'', CryptMode = ''encrypt'', FileSize = 5\<rparr>]\<rparr>)"
  using manifest_modes_applied [of "\<lambda>_. Inr [\<lparr>mf_Filename = ''a.fidx'', mf_CryptMode = ''encrypt''\<rparr>]"
      "[1, 2, 3]" "[\<lparr>mf_Filename = ''a.fidx'', mf_CryptMode = ''encrypt''\<rparr>]"
      "data_blob uncompressedBlobMagic [1, 2, 3]" None "\<lambda>_. Inl (Error ''no decoder'')"
      "zero_snapshot\<lparr>Files := [\<lparr>Filename = ''a.fidx'', CryptMode = ''none'', FileSize = 5\<rparr>]\<rparr>"]
  by (simp add: effective_mode_def known_mode_def mode_in_def)

text \<open>
  A manifest is read fail-closed. A blob shorter than its header, one whose checksum does not
  match its payload, one with a foreign magic, and one with a mode the proxy does not know give an
  error, never modes; and when modes are returned, each of them is one of the three known ones.
\<close>

theorem manifest_modes_fail_closed:
  "(length raw < 12 \<or> ChecksumIEEE (drop 12 raw) \<noteq> Uint32 (slice 8 12 raw)
      \<or> take 8 raw \<notin> {uncompressedBlobMagic, compressedBlobMagic}
    \<longrightarrow> \<not> succeeds (ParseManifestCryptModes zstd json raw))
   \<and> (ParseManifestCryptModes zstd json raw = Inr modes \<longrightarrow> map_of modes name = Some mode
        \<longrightarrow> known_mode mode)"
proof (intro conjI impI)
  assume "length raw < 12 \<or> ChecksumIEEE (drop 12 raw) \<noteq> Uint32 (slice 8 12 raw)
      \<or> take 8 raw \<notin> {uncompressedBlobMagic, compressedBlobMagic}"
  then show "\<not> succeeds (ParseManifestCryptModes zstd json raw)"
    by (auto simp: ParseManifestCryptModes_def decodeManifestBlob_def)
next
  assume *: "ParseManifestCryptModes zstd json raw = Inr modes" "map_of modes name = Some mode"
  from *(1) obtain manifest where m: "modes_loop manifest [] = Inr modes"
    by (auto simp: ParseManifestCryptModes_def split: sum.splits)
  then have ok: "list_all (\<lambda>f. known_mode (effective_mode f)) manifest"
    by (auto simp: modes_loop_spec split: if_splits)
  moreover have "mode_in manifest name = Some mode"
    using m *(2) map_of_modes [of "[]" manifest name]
    by (auto simp: modes_loop_spec split: if_splits option.splits)
  ultimately show "known_mode mode"
    by (auto simp: mode_in_def find_Some_iff list_all_iff rev_nth)
qed

theorem manifest_modes_fail_closed_witness:
  "\<not> succeeds (ParseManifestCryptModes (\<lambda>_. Inl (Error ''no decoder'')) (\<lambda>_. Inr []) [1, 2, 3])"
  using manifest_modes_fail_closed [of "[1, 2, 3]"] by simp

end
