(* ===== verification/IndexFormat.thy ===== *)
theory IndexFormat
  imports ObjectStore Sha256
begin

text \<open>
  The two index formats and everything that reads them: \<open>internal/s3pmoxcommon/indexsize.go\<close>
  (the size of an archive from a few bytes of its index), the magic numbers of \<open>types.go\<close>, and the
  collector's \<open>parseIndex\<close> and \<open>compareSum\<close>, which read a whole index and validate it against
  its checksum. The documented layout of both formats is given as two functions that build an index
  from its fields; the readers are shown to invert them, and the writers of the proxy (theory
  IndexWriters) to produce them.
\<close>

section \<open>Constants and predicates\<close>

definition PROXMOX_INDEX_MAGIC_DYNAMIC :: bytes where
  "PROXMOX_INDEX_MAGIC_DYNAMIC = [28, 145, 78, 165, 25, 186, 179, 205]"

definition PROXMOX_INDEX_MAGIC_FIXED :: bytes where
  "PROXMOX_INDEX_MAGIC_FIXED = [47, 127, 65, 237, 145, 253, 15, 205]"

definition IndexHeaderSize :: nat where "IndexHeaderSize = 4096"
definition fixedIndexSizeAt :: nat where "fixedIndexSizeAt = 64"
definition dynamicIndexEntry :: nat where "dynamicIndexEntry = 40"
definition fixedIndexHeaderMin :: nat where "fixedIndexHeaderMin = 80"

definition ErrNotAnIndex :: goerr where
  "ErrNotAnIndex = Error ''object is not a fixed or dynamic index''"

definition IsIndex :: "string \<Rightarrow> bool" where
  "IsIndex name = (HasSuffix name ''.fidx'' \<or> HasSuffix name ''.didx'')"

section \<open>The size of an archive\<close>

text \<open>A short read is no error here: the bytes that did arrive are returned.\<close>

definition rangeRead ::
    "'s s3_client \<Rightarrow> 's \<Rightarrow> string \<Rightarrow> string \<Rightarrow> int \<Rightarrow> int \<Rightarrow> bytes result" where
  "rangeRead c st bucket key start stop =
     (case GetObjectRange c st bucket key start stop of
        Inl e \<Rightarrow> Inl e
      | Inr obj \<Rightarrow>
          let n = nat (stop - start + 1) in
          (case io_ReadFull (oh_body obj) n of
             Inr (buf, _) \<Rightarrow> Inr buf
           | Inl e \<Rightarrow>
               if errors_Is e io_EOF \<or> errors_Is e io_ErrUnexpectedEOF
               then Inr (rd_data (oh_body obj))
               else Inl e))"

definition fixedArchiveSize ::
    "'s s3_client \<Rightarrow> 's \<Rightarrow> string \<Rightarrow> string \<Rightarrow> u64 result" where
  "fixedArchiveSize c st bucket key =
     (case rangeRead c st bucket key 0 (int fixedIndexHeaderMin - 1) of
        Inl e \<Rightarrow> Inl e
      | Inr head \<Rightarrow>
          if length head < fixedIndexHeaderMin then Inl (Error ''index header is too short'')
          else if slice 0 8 head \<noteq> PROXMOX_INDEX_MAGIC_FIXED
               then Inl (Error ''wrong magic for a fixed index'')
          else Inr (Uint64 (slice fixedIndexSizeAt (fixedIndexSizeAt + 8) head)))"

definition dynamicArchiveSize ::
    "'s s3_client \<Rightarrow> 's \<Rightarrow> string \<Rightarrow> string \<Rightarrow> int \<Rightarrow> u64 result" where
  "dynamicArchiveSize c st bucket key objectSize =
     (if objectSize \<le> int IndexHeaderSize then Inr 0
      else
        let payload = objectSize - int IndexHeaderSize in
        if payload mod int dynamicIndexEntry \<noteq> 0
        then Inl (Error ''payload is not a multiple of the entry size'')
        else (case rangeRead c st bucket key (objectSize - int dynamicIndexEntry) (objectSize - 1) of
                Inl e \<Rightarrow> Inl e
              | Inr tail \<Rightarrow>
                  if length tail < 8 then Inl (Error ''short read on the last index entry'')
                  else Inr (Uint64 (slice 0 8 tail))))"

definition ArchiveSize ::
    "'s s3_client \<Rightarrow> 's \<Rightarrow> string \<Rightarrow> string \<Rightarrow> int \<Rightarrow> u64 result" where
  "ArchiveSize c st bucket key objectSize =
     (if HasSuffix key ''.fidx'' then fixedArchiveSize c st bucket key
      else if HasSuffix key ''.didx'' then dynamicArchiveSize c st bucket key objectSize
      else Inl ErrNotAnIndex)"

section \<open>Parsing an index\<close>

definition compareSum :: "bytes \<Rightarrow> bytes \<Rightarrow> string \<Rightarrow> goerr option" where
  "compareSum csum index metadatasum =
     (let fileChecksum = hex_EncodeToString csum;
          checksum = hex_EncodeToString (Sum256 index)
      in if fileChecksum \<noteq> checksum \<or> fileChecksum \<noteq> metadatasum
         then Some (Error ''Corrupted index file'') else None)"

record parsedIndex =
  checksum :: string
  digests :: "string list"
  logicalSize :: u64

definition parseIndex :: "string \<Rightarrow> bytes \<Rightarrow> string \<Rightarrow> parsedIndex result" where
  "parseIndex key data metadataChecksum =
     (if length data < 4096 then Inl (Error ''index is too small'')
      else
        let payload = drop 4096 data in
        (case compareSum (slice 32 64 data) payload metadataChecksum of
           Some e \<Rightarrow> Inl (Wrap ''index'' e)
         | None \<Rightarrow>
             if HasSuffix key ''.fidx'' then
               (if slice 0 8 data \<noteq> PROXMOX_INDEX_MAGIC_FIXED
                then Inl (Error ''fixed index has wrong magic'')
                else if length payload mod 32 \<noteq> 0
                then Inl (Error ''fixed index payload is not 32-byte aligned'')
                else Inr \<lparr>checksum = metadataChecksum,
                          digests = map hex_EncodeToString (chunks_of 32 payload),
                          logicalSize = Uint64 (slice 64 72 data)\<rparr>)
             else if HasSuffix key ''.didx'' then
               (if slice 0 8 data \<noteq> PROXMOX_INDEX_MAGIC_DYNAMIC
                then Inl (Error ''dynamic index has wrong magic'')
                else if length payload mod 40 \<noteq> 0
                then Inl (Error ''dynamic index payload is not 40-byte aligned'')
                else Inr \<lparr>checksum = metadataChecksum,
                          digests = map (\<lambda>entry. hex_EncodeToString (slice 8 40 entry))
                                      (chunks_of 40 payload),
                          logicalSize = foldl (\<lambda>_ entry. Uint64 (slice 0 8 entry)) 0
                                          (chunks_of 40 payload)\<rparr>)
             else Inl (Error ''unsupported index object'')))"

section \<open>The documented layout\<close>

text \<open>A fixed index: 4096 bytes of header, then one digest per chunk.\<close>

definition fixed_layout ::
    "bytes \<Rightarrow> u64 \<Rightarrow> bytes \<Rightarrow> u64 \<Rightarrow> u64 \<Rightarrow> bytes list \<Rightarrow> bytes" where
  "fixed_layout uuid ctime csum asize chunksize ds =
     PROXMOX_INDEX_MAGIC_FIXED @ uuid @ AppendUint64 ctime @ csum @ AppendUint64 asize
       @ AppendUint64 chunksize @ replicate 4016 0 @ concat ds"

text \<open>A dynamic index: 4096 bytes of header, then an end offset and a digest per chunk.\<close>

definition dynamic_layout :: "bytes \<Rightarrow> u64 \<Rightarrow> bytes \<Rightarrow> (u64 \<times> bytes) list \<Rightarrow> bytes" where
  "dynamic_layout uuid ctime csum entries =
     PROXMOX_INDEX_MAGIC_DYNAMIC @ uuid @ AppendUint64 ctime @ csum @ replicate 4032 0
       @ concat (map (\<lambda>(off, d). AppendUint64 off @ d) entries)"

text \<open>The logical size a dynamic index states: the end offset of its last entry.\<close>

definition last_offset :: "(u64 \<times> bytes) list \<Rightarrow> u64" where
  "last_offset entries = (if entries = [] then 0 else fst (last entries))"

section \<open>Lemmas: fields of the layouts\<close>

lemma length_magic [simp, codec]:
  "length PROXMOX_INDEX_MAGIC_FIXED = 8" "length PROXMOX_INDEX_MAGIC_DYNAMIC = 8"
  by (simp_all add: PROXMOX_INDEX_MAGIC_FIXED_def PROXMOX_INDEX_MAGIC_DYNAMIC_def)

lemma length_fixed_layout:
  "length uuid = 16 \<Longrightarrow> length csum = 32 \<Longrightarrow>
   length (fixed_layout uuid ctime csum asize cs ds) = 4096 + length (concat ds)"
  by (simp add: fixed_layout_def)

lemma fixed_layout_fields:
  assumes "length uuid = 16" "length csum = 32"
  shows "slice 0 8 (fixed_layout uuid ctime csum asize cs ds) = PROXMOX_INDEX_MAGIC_FIXED"
    and "slice 32 64 (fixed_layout uuid ctime csum asize cs ds) = csum"
    and "slice 64 72 (fixed_layout uuid ctime csum asize cs ds) = AppendUint64 asize"
    and "drop 4096 (fixed_layout uuid ctime csum asize cs ds) = concat ds"
    and "take 80 (fixed_layout uuid ctime csum asize cs ds) =
      PROXMOX_INDEX_MAGIC_FIXED @ uuid @ AppendUint64 ctime @ csum @ AppendUint64 asize
       @ AppendUint64 cs"
  using assms by (simp_all add: fixed_layout_def slice_def)

lemma length_dynamic_entries:
  "\<forall>(off, d) \<in> set entries. length d = 32 \<Longrightarrow>
   \<forall>x \<in> set (map (\<lambda>(off, d). AppendUint64 off @ d) entries). length x = 40"
  by auto

lemma dynamic_layout_fields:
  assumes "length uuid = 16" "length csum = 32"
  shows "slice 0 8 (dynamic_layout uuid ctime csum entries) = PROXMOX_INDEX_MAGIC_DYNAMIC"
    and "slice 32 64 (dynamic_layout uuid ctime csum entries) = csum"
    and "drop 4096 (dynamic_layout uuid ctime csum entries)
      = concat (map (\<lambda>(off, d). AppendUint64 off @ d) entries)"
  using assms by (simp_all add: dynamic_layout_def slice_def)

lemma length_dynamic_layout:
  assumes "length uuid = 16" "length csum = 32" "\<forall>(off, d) \<in> set entries. length d = 32"
  shows "length (dynamic_layout uuid ctime csum entries) = 4096 + 40 * length entries"
  using assms length_concat_const [OF length_dynamic_entries [OF assms(3)]]
  by (simp add: dynamic_layout_def)

lemma chunks_of_fixed: "\<forall>d \<in> set ds. length d = 32 \<Longrightarrow> chunks_of 32 (concat ds) = ds"
  by (rule chunks_of_concat) auto

lemma chunks_of_dynamic:
  assumes "\<forall>(off, d) \<in> set entries. length d = 32"
  shows "chunks_of 40 (concat (map (\<lambda>(off, d). AppendUint64 off @ d) entries))
     = map (\<lambda>(off, d). AppendUint64 off @ d) entries"
  using length_dynamic_entries [OF assms] by (rule chunks_of_concat) simp

lemma dynamic_entry_fields [simp]:
  "slice 0 8 (AppendUint64 off @ d) = AppendUint64 off"
  "length d = 32 \<Longrightarrow> slice 8 40 (AppendUint64 off @ d) = d"
  by (simp_all add: slice_def)

lemma fold_last_offset:
  "foldl (\<lambda>_ entry. Uint64 (slice 0 8 entry)) 0 (map (\<lambda>(off, d). AppendUint64 off @ d) entries)
     = last_offset entries"
  by (induction entries rule: rev_induct) (auto simp: last_offset_def)

lemma compareSum_None_iff:
  "compareSum csum index meta = None \<longleftrightarrow> csum = Sum256 index \<and> meta = hex_EncodeToString csum"
  by (auto simp: compareSum_def Let_def)

lemma parseIndex_fixed:
  assumes "length uuid = 16" "\<forall>d \<in> set ds. length d = 32" "csum = Sum256 (concat ds)"
    and "HasSuffix key ''.fidx''"
  shows "parseIndex key (fixed_layout uuid ctime csum asize cs ds) (hex_EncodeToString csum)
    = Inr \<lparr>checksum = hex_EncodeToString csum, digests = map hex_EncodeToString ds,
           logicalSize = asize\<rparr>"
proof -
  have csum: "length csum = 32" by (simp add: assms(3))
  have "length (concat ds) mod 32 = 0"
    using length_concat_const [OF assms(2)] by simp
  moreover have "compareSum csum (concat ds) (hex_EncodeToString csum) = None"
    by (simp add: compareSum_None_iff assms(3))
  ultimately show ?thesis
    using assms(1,2,4) csum length_fixed_layout [OF assms(1) csum]
    by (simp add: parseIndex_def Let_def fixed_layout_fields chunks_of_fixed)
qed

lemma parseIndex_dynamic:
  assumes "length uuid = 16" "\<forall>(off, d) \<in> set entries. length d = 32"
    and "csum = Sum256 (concat (map (\<lambda>(off, d). AppendUint64 off @ d) entries))"
    and "HasSuffix key ''.didx''" "\<not> HasSuffix key ''.fidx''"
  shows "parseIndex key (dynamic_layout uuid ctime csum entries) (hex_EncodeToString csum)
    = Inr \<lparr>checksum = hex_EncodeToString csum,
           digests = map (\<lambda>(off, d). hex_EncodeToString d) entries,
           logicalSize = last_offset entries\<rparr>"
proof -
  have csum: "length csum = 32" by (simp add: assms(3))
  have "length (concat (map (\<lambda>(off, d). AppendUint64 off @ d) entries)) mod 40 = 0"
    using length_concat_const [OF length_dynamic_entries [OF assms(2)]] by simp
  moreover have "map (\<lambda>entry. hex_EncodeToString (slice 8 40 entry))
      (map (\<lambda>(off, d). AppendUint64 off @ d) entries) = map (\<lambda>(off, d). hex_EncodeToString d) entries"
    using assms(2) by auto
  moreover have "compareSum csum (concat (map (\<lambda>(off, d). AppendUint64 off @ d) entries))
      (hex_EncodeToString csum) = None"
    by (simp add: compareSum_None_iff assms(3))
  ultimately show ?thesis
    using assms(1,2,4,5) csum length_dynamic_layout [OF assms(1) csum assms(2)]
    by (simp add: parseIndex_def Let_def dynamic_layout_fields chunks_of_dynamic
        fold_last_offset del: map_map)
qed

lemma not_both_suffixes: "HasSuffix key ''.didx'' \<Longrightarrow> \<not> HasSuffix key ''.fidx''"
  by (auto simp: HasSuffix_iff)

section \<open>Properties\<close>

text \<open>A client that serves ranged reads of one object from given bytes.\<close>

definition serves_ranges :: "'s s3_client \<Rightarrow> 's \<Rightarrow> string \<Rightarrow> string \<Rightarrow> bytes \<Rightarrow> bool" where
  "serves_ranges c st bucket key data \<longleftrightarrow>
     (\<forall>i j. 0 \<le> i \<and> i \<le> j \<longrightarrow>
        (\<exists>h. GetObjectRange c st bucket key i j = Inr h \<and>
             oh_body h = bytes_NewReader (slice (nat i) (nat (j + 1)) data)))"

lemma rangeRead_served:
  assumes "serves_ranges c st bucket key data" "0 \<le> i" "i \<le> j" "nat (j + 1) \<le> length data"
  shows "rangeRead c st bucket key i j = Inr (slice (nat i) (nat (j + 1)) data)"
proof -
  obtain h where "GetObjectRange c st bucket key i j = Inr h"
    "oh_body h = bytes_NewReader (slice (nat i) (nat (j + 1)) data)"
    using assms(1-3) unfolding serves_ranges_def by blast
  moreover have "nat (j - i + 1) = nat (j + 1) - nat i" using assms(2,3) by simp
  ultimately show ?thesis
    using assms(4) by (simp add: rangeRead_def Let_def io_ReadFull_def bytes_NewReader_def)
qed

lemma rangeRead_tail:
  assumes "serves_ranges c st bucket key data" "0 < n" "n \<le> length data"
  shows "rangeRead c st bucket key (int (length data) - int n) (int (length data) - 1)
    = Inr (drop (length data - n) data)"
proof -
  have "nat (int (length data) - int n) = length data - n"
    "nat (int (length data) - 1 + 1) = length data" by linarith+
  with rangeRead_served [OF assms(1), of "int (length data) - int n" "int (length data) - 1"] assms(2,3)
  show ?thesis by (simp add: slice_def)
qed

text \<open>What a successful parse says about the bytes.\<close>

lemma parseIndex_InrD:
  assumes "parseIndex key data meta = Inr idx"
  shows "4096 \<le> length data" and "slice 32 64 data = Sum256 (drop 4096 data)"
    and "meta = hex_EncodeToString (Sum256 (drop 4096 data))" and "checksum idx = meta"
    and "HasSuffix key ''.fidx'' \<and> slice 0 8 data = PROXMOX_INDEX_MAGIC_FIXED
      \<and> 32 dvd length (drop 4096 data) \<and> logicalSize idx = Uint64 (slice 64 72 data)
      \<and> digests idx = map hex_EncodeToString (chunks_of 32 (drop 4096 data))
     \<or> \<not> HasSuffix key ''.fidx'' \<and> HasSuffix key ''.didx''
      \<and> 40 dvd length (drop 4096 data)
      \<and> digests idx = map (\<lambda>e. hex_EncodeToString (slice 8 40 e)) (chunks_of 40 (drop 4096 data))
      \<and> logicalSize idx = foldl (\<lambda>_ e. Uint64 (slice 0 8 e)) 0 (chunks_of 40 (drop 4096 data))"
  using assms compareSum_None_iff [of "slice 32 64 data" "drop 4096 data" meta]
  by (auto simp: parseIndex_def Let_def mod_eq_0_iff_dvd split: if_splits option.splits)

text \<open>
  An index the collector accepts is read completely: its checksum field, the checksum in the
  object metadata and the checksum of its payload agree, and the listed digests are, in order, the
  digests of every record of the payload, so that no reference is lost between the bytes and the
  mark phase.
\<close>

theorem parseIndex_reads_all:
  assumes "parseIndex key data meta = Inr idx"
  shows "meta = hex_EncodeToString (Sum256 (drop 4096 data)) \<and>
    slice 32 64 data = Sum256 (drop 4096 data) \<and>
    (if HasSuffix key ''.fidx''
     then concat (map (\<lambda>d. fst (hex_DecodeString d)) (digests idx)) = drop 4096 data
     else map (\<lambda>d. fst (hex_DecodeString d)) (digests idx)
       = map (\<lambda>e. drop 8 e) (chunks_of 40 (drop 4096 data))
       \<and> concat (chunks_of 40 (drop 4096 data)) = drop 4096 data)"
proof -
  have "slice 8 40 e = drop 8 e"
    if "40 dvd length data - 4096" "e \<in> set (chunks_of 40 (drop 4096 data))" for e
    using length_chunk [of 40 "drop 4096 data" e] that by (simp add: slice_def)
  with parseIndex_InrD [OF assms] show ?thesis
    by (auto simp: comp_def concat_chunks_of)
qed

definition sample_index :: bytes where
  "sample_index = fixed_layout (replicate 16 7) 1700000000
     (Sum256 (replicate 32 1 @ replicate 32 2)) 8388608 4194304 [replicate 32 1, replicate 32 2]"

lemma parse_sample_index:
  "parseIndex ''backups/100|5|vm/a.fidx'' sample_index
     (hex_EncodeToString (Sum256 (replicate 32 1 @ replicate 32 2)))
   = Inr \<lparr>checksum = hex_EncodeToString (Sum256 (replicate 32 1 @ replicate 32 2)),
          digests = [hex_EncodeToString (replicate 32 1), hex_EncodeToString (replicate 32 2)],
          logicalSize = 8388608\<rparr>"
  unfolding sample_index_def by (subst parseIndex_fixed) (simp_all add: HasSuffix_def)

theorem parseIndex_reads_all_witness:
  "concat (map (\<lambda>d. fst (hex_DecodeString d))
      [hex_EncodeToString (replicate 32 1), hex_EncodeToString (replicate 32 2)])
     = drop 4096 sample_index"
  using parseIndex_reads_all [OF parse_sample_index] by (simp add: HasSuffix_def)

lemma fixedArchiveSize_matches:
  assumes parsed: "parseIndex key data meta = Inr idx" "HasSuffix key ''.fidx''" and served: "serves_ranges c st bucket key data"
  shows "fixedArchiveSize c st bucket key = Inr (logicalSize idx)"
proof -
  have *: "4096 \<le> length data" "slice 0 8 data = PROXMOX_INDEX_MAGIC_FIXED" "logicalSize idx = Uint64 (slice 64 72 data)"
    using parseIndex_InrD [OF parsed(1)] parsed(2) by auto
  then have "rangeRead c st bucket key 0 79 = Inr (slice 0 80 data)"
    using rangeRead_served [OF served, of 0 79] by simp
  moreover have "slice 0 8 (slice 0 80 data) = slice 0 8 data" "slice 64 72 (slice 0 80 data) = slice 64 72 data"
    by (simp_all add: slice_def drop_take)
  ultimately show ?thesis
    using * by (simp add: fixedArchiveSize_def fixedIndexHeaderMin_def fixedIndexSizeAt_def)
qed

lemma drop_last_chunk:
  assumes "payload = drop n data" "n \<le> length data" "0 < m" "m dvd length payload" "payload \<noteq> []"
  shows "drop (length data - m) data = last (chunks_of m payload)"
proof -
  have "m \<le> length payload" "length data = n + length payload"
    using assms by (auto dest: dvd_imp_le)
  then have "length data - m = length payload - m + n" by simp
  moreover have "drop (length payload - m) payload = drop (length payload - m + n) data"
    by (simp only: assms(1) drop_drop)
  ultimately show ?thesis using last_chunks_of [OF assms(3,4,5)] by simp
qed

lemma dynamicArchiveSize_matches:
  assumes parsed: "parseIndex key data meta = Inr idx" "\<not> HasSuffix key ''.fidx''" and served: "serves_ranges c st bucket key data"
  shows "dynamicArchiveSize c st bucket key (int (length data)) = Inr (logicalSize idx)"
proof -
  define payload where "payload = drop 4096 data"
  have *: "4096 \<le> length data" "40 dvd length payload"
    "logicalSize idx = foldl (\<lambda>_ e. Uint64 (slice 0 8 e)) 0 (chunks_of 40 payload)"
    using parseIndex_InrD [OF parsed(1)] parsed(2) by (auto simp: payload_def)
  show ?thesis
  proof (cases "payload = []")
    case True
    then show ?thesis using * by (simp add: dynamicArchiveSize_def IndexHeaderSize_def payload_def)
  next
    case False
    then have len: "40 \<le> length payload" "length data = 4096 + length payload"
      using * by (auto simp: payload_def dest: dvd_imp_le)
    have tail: "drop (length data - 40) data = last (chunks_of 40 payload)"
      by (rule drop_last_chunk [OF payload_def *(1) _ *(2) False]) simp
    have "rangeRead c st bucket key (int (length data) - 40) (int (length data) - 1) = Inr (last (chunks_of 40 payload))"
      using rangeRead_tail [OF served, of 40] len tail by simp
    moreover have "length (last (chunks_of 40 payload)) = 40" using len by (simp flip: tail)
    moreover have "(int (length data) - 4096) mod 40 = 0" "\<not> int (length data) \<le> 4096"
      using *(2) len by (auto elim!: dvdE)
    ultimately show ?thesis
      using *(3) False
      by (simp add: dynamicArchiveSize_def IndexHeaderSize_def dynamicIndexEntry_def foldl_last chunks_of_eq_Nil_iff Let_def)
  qed
qed

text \<open>
  C29: The size read from a few bytes of an index is the size a full parse of it gives: whenever the
  collector accepts an index, \<open>ArchiveSize\<close>, asked with the size of the object and served ranges of
  the same bytes, returns the logical size of the parse.
\<close>

theorem ArchiveSize_matches_parseIndex:
  assumes "parseIndex key data meta = Inr idx" and "serves_ranges c st bucket key data"
  shows "ArchiveSize c st bucket key (int (length data)) = Inr (logicalSize idx)"
proof (cases "HasSuffix key ''.fidx''")
  case True
  with fixedArchiveSize_matches [OF assms(1) _ assms(2)] show ?thesis by (simp add: ArchiveSize_def)
next
  case False
  then have "HasSuffix key ''.didx''" using parseIndex_InrD [OF assms(1)] by auto
  with False dynamicArchiveSize_matches [OF assms(1) _ assms(2)] show ?thesis by (simp add: ArchiveSize_def)
qed

theorem ArchiveSize_matches_parseIndex_witness:
  "ArchiveSize mem_client
     [((''ds'', ''backups/100|5|vm/a.fidx''), (sample_index, mem_info [] [] []))]
     ''ds'' ''backups/100|5|vm/a.fidx'' (int (length sample_index)) = Inr 8388608"
proof -
  have "serves_ranges mem_client
     [((''ds'', ''backups/100|5|vm/a.fidx''), (sample_index, mem_info [] [] []))]
     ''ds'' ''backups/100|5|vm/a.fidx'' sample_index"
    by (simp add: serves_ranges_def mem_client_def mem_range_def)
  from ArchiveSize_matches_parseIndex [OF parse_sample_index this] show ?thesis by simp
qed

end
