(* ===== verification/Collector.thy ===== *)
theory Collector
  imports Snapshots IndexFormat
begin

text \<open>
  \<open>cmd/garbagecollector/gc.go\<close> and the helpers of \<open>cmd/garbagecollector/main.go\<close>: complete
  listings, the mark phase (\<open>buildGCPlan\<close>) and the sweep (\<open>executeGCPlan\<close>). Times are counted in
  nanoseconds since the Unix epoch.

  The mark phase is a sequence of four loops over the listings that fill one plan and stop at the
  first error. Its result is characterised field by field by filters over the listings.
\<close>

section \<open>Listings and removals\<close>

definition isDirectoryMarker :: "object_info \<Rightarrow> bool" where
  "isDirectoryMarker obj \<longleftrightarrow> ObjectSize obj = 0 \<and> HasSuffix (Key obj) ''/''"

fun list_fully_loop :: "object_info list \<Rightarrow> object_info list result" where
  "list_fully_loop [] = Inr []"
| "list_fully_loop (obj # objects) =
     (case ListErr obj of
        Some e \<Rightarrow> Inl (Wrap ''list under prefix'' e)
      | None \<Rightarrow>
          if isDirectoryMarker obj then list_fully_loop objects
          else (case list_fully_loop objects of
                  Inl e \<Rightarrow> Inl e
                | Inr rest \<Rightarrow> Inr (obj # rest)))"

text \<open>
  A context is cancelled or not. When it is, the feeding goroutine of a removal stops after some
  number of objects.
\<close>

type_synonym cancellation = "(nat \<times> goerr) option"

definition listObjectsFully ::
    "cancellation \<Rightarrow> 's s3_client \<Rightarrow> 's \<Rightarrow> string \<Rightarrow> string \<Rightarrow> object_info list result" where
  "listObjectsFully ctx c st bucket prefix =
     (case list_fully_loop (ListObjects c st bucket prefix) of
        Inl e \<Rightarrow> Inl e
      | Inr objects \<Rightarrow>
          (case ctx of
             Some (_, e) \<Rightarrow> Inl (Wrap ''list under prefix'' e)
           | None \<Rightarrow> Inr objects))"

definition removeObjectsFully ::
    "cancellation \<Rightarrow> 's s3_client \<Rightarrow> 's \<Rightarrow> string \<Rightarrow> object_info list \<Rightarrow> goerr option \<times> 's" where
  "removeObjectsFully ctx c st bucket objects =
     (if objects = [] then (None, st)
      else
        let sent = (case ctx of None \<Rightarrow> objects | Some (n, _) \<Rightarrow> take n objects) in
        (case RemoveObjects c st bucket sent of
           (failed, st') \<Rightarrow>
             (errors_Join (map (\<lambda>(name, e). Wrap (''remove '' @ name) e) failed
                @ (case ctx of None \<Rightarrow> [] | Some (_, e) \<Rightarrow> [e])), st')))"

section \<open>Metadata, keys and times\<close>

definition checksumFromMetadata :: "object_info \<Rightarrow> string" where
  "checksumFromMetadata info =
     (if str_at (UserMetadata info) ''X-Amz-Meta-Csum'' \<noteq> []
      then str_at (UserMetadata info) ''X-Amz-Meta-Csum''
      else if str_at (UserMetadata info) ''Csum'' \<noteq> [] then str_at (UserMetadata info) ''Csum''
      else [])"

text \<open>The checksum, whether the listing had to be completed by a stat, and the error.\<close>

definition getObjectMetadata ::
    "'s s3_client \<Rightarrow> 's \<Rightarrow> string \<Rightarrow> object_info \<Rightarrow> string result \<times> bool" where
  "getObjectMetadata c st bucket obj =
     (let csum = checksumFromMetadata obj in
      if csum \<noteq> [] then (Inr csum, False)
      else
        (case StatObject c st bucket (Key obj) of
           Inl e \<Rightarrow> (Inl (Wrap ''unable to stat object'' e), True)
         | Inr statObject \<Rightarrow>
             let csum = checksumFromMetadata statObject in
             if csum = [] then (Inl (Error ''object has no csum metadata flag set''), True)
             else (Inr csum, True)))"

definition withinGracePeriod :: "int \<Rightarrow> int \<Rightarrow> int \<Rightarrow> bool" where
  "withinGracePeriod lastModified now grace =
     (if grace \<le> 0 then False else lastModified > now + (- grace))"

definition hour_ns :: int where "hour_ns = 3600000000000"

definition hoursDuration :: "u64 \<Rightarrow> int result" where
  "hoursDuration hours =
     (if hours > word_of_int ((2 ^ 63 - 1) div hour_ns)
      then Inl (Error ''grace period overflows time.Duration'')
      else Inr (int64_of (hours * word_of_int hour_ns)))"

text \<open>\<open>Time.Unix()\<close>: whole seconds.\<close>

definition unix :: "int \<Rightarrow> int" where
  "unix t = t div 1000000000"

definition snapshotExpired :: "Snapshot \<Rightarrow> int \<Rightarrow> u64 \<Rightarrow> bool result" where
  "snapshotExpired snapshot now retentionDays =
     (if retentionDays > word_of_int ((2 ^ 64 - 1) div 86400)
      then Inl (Error ''retention period overflows seconds'')
      else
        let retentionSeconds = retentionDays * 86400;
            nowUnix = uint64_of (unix now)
        in if unix now < 0 \<or> nowUnix < retentionSeconds then Inr False
           else Inr (BackupTime snapshot < nowUnix - retentionSeconds))"

definition snapshotPrefixForObject :: "string \<Rightarrow> string result" where
  "snapshotPrefixForObject key =
     (if \<not> HasPrefix key ''backups/'' then Inl (Error ''object is outside backups/'')
      else
        let rest = TrimPrefix key ''backups/'';
            slash = IndexByte rest CHR ''/''
        in if slash \<le> 0 then Inl (Error ''invalid backup object key'')
           else Inr (''backups/'' @ take (nat slash) rest))"

definition chunkDigestFromKey :: "string \<Rightarrow> string result" where
  "chunkDigestFromKey key =
     (let parts = Split key CHR ''/'' in
      if length parts \<noteq> 4 \<or> parts ! 0 \<noteq> ''chunks'' \<or> length (parts ! 1) \<noteq> 2
         \<or> length (parts ! 2) \<noteq> 2 \<or> length (parts ! 3) \<noteq> 60
      then Inl (Error ''invalid chunk object key'')
      else
        let digest = parts ! 1 @ parts ! 2 @ parts ! 3 in
        (case hex_DecodeString digest of
           (decoded, ok) \<Rightarrow>
             if \<not> ok \<or> length decoded \<noteq> 32 then Inl (Error ''invalid chunk digest in key'')
             else Inr digest))"

definition loadIndexFromS3 ::
    "'s s3_client \<Rightarrow> 's \<Rightarrow> string \<Rightarrow> object_info \<Rightarrow> parsedIndex result" where
  "loadIndexFromS3 c st bucket obj =
     (case GetObject c st bucket (Key obj) of
        Inl e \<Rightarrow> Inl (Wrap ''get index'' e)
      | Inr reader \<Rightarrow>
          (case io_ReadAll (oh_body reader) of
             Inl e \<Rightarrow> Inl (Wrap ''read index'' e)
           | Inr data \<Rightarrow>
               (case (if checksumFromMetadata obj = []
                      then (case oh_stat reader of
                              Inl e \<Rightarrow> Inl (Wrap ''stat index'' e)
                            | Inr info \<Rightarrow> Inr (checksumFromMetadata info))
                      else Inr (checksumFromMetadata obj)) of
                  Inl e \<Rightarrow> Inl e
                | Inr csum \<Rightarrow>
                    if csum = [] then Inl (Error ''object has no csum metadata flag set'')
                    else parseIndex (Key obj) data csum)))"

section \<open>Protection of expired snapshots\<close>

fun manifest_prefixes :: "object_info list \<Rightarrow> string list result" where
  "manifest_prefixes [] = Inr []"
| "manifest_prefixes (obj # objects) =
     (if HasSuffix (Key obj) ''/index.json.blob''
      then (case snapshotPrefixForObject (Key obj) of
              Inl e \<Rightarrow> Inl e
            | Inr p \<Rightarrow>
                (case manifest_prefixes objects of Inl e \<Rightarrow> Inl e | Inr ps \<Rightarrow> Inr (p # ps)))
      else manifest_prefixes objects)"

fun refresh_loop ::
    "'s s3_client \<Rightarrow> 's \<Rightarrow> string \<Rightarrow> string list \<Rightarrow> int \<Rightarrow> u64 \<Rightarrow> Snapshot list
      \<Rightarrow> Snapshot list result" where
  "refresh_loop c st bucket manifests now retentionDays [] = Inr []"
| "refresh_loop c st bucket manifests now retentionDays (s # ss) =
     (case snapshotExpired s now retentionDays of
        Inl e \<Rightarrow> Inl e
      | Inr expired \<Rightarrow>
          (case (if \<not> expired \<or> S3Prefix s \<notin> set manifests then Inr s
                 else (case GetObjectTagging c st bucket (S3Prefix s @ ''/index.json.blob'') of
                         Inl e \<Rightarrow> Inl (Wrap ''read protection tag'' e)
                       | Inr tags \<Rightarrow> Inr (s\<lparr>Protected := str_at tags ''protected'' = ''true''\<rparr>))) of
             Inl e \<Rightarrow> Inl e
           | Inr s' \<Rightarrow>
               (case refresh_loop c st bucket manifests now retentionDays ss of
                  Inl e \<Rightarrow> Inl e
                | Inr ss' \<Rightarrow> Inr (s' # ss'))))"

definition refreshExpiredSnapshotProtection ::
    "'s s3_client \<Rightarrow> 's \<Rightarrow> string \<Rightarrow> Snapshot list \<Rightarrow> object_info list \<Rightarrow> int \<Rightarrow> u64
      \<Rightarrow> Snapshot list result" where
  "refreshExpiredSnapshotProtection c st bucket snapshots backups now retentionDays =
     (case manifest_prefixes backups of
        Inl e \<Rightarrow> Inl e
      | Inr manifests \<Rightarrow> refresh_loop c st bucket manifests now retentionDays snapshots)"

section \<open>The mark phase\<close>

record gcPlan =
  expiredSnapshots :: "Snapshot list"
  backupObjects :: "object_info list"
  indexedObjects :: "object_info list"
  chunkObjects :: "object_info list"
  knownChunks :: "(string, string list) gomap"
  existingChunks :: "(string, bool) gomap"
  chunkSizes :: "(string, u64) gomap"
  archiveSizes :: "(string, u64) gomap"
  missingChunks :: "(string, string list) gomap"
  protectedByGrace :: u64

definition empty_plan :: gcPlan where
  "empty_plan =
     \<lparr>expiredSnapshots = [], backupObjects = [], indexedObjects = [], chunkObjects = [],
      knownChunks = [], existingChunks = [], chunkSizes = [], archiveSizes = [],
      missingChunks = [], protectedByGrace = 0\<rparr>"

text \<open>First loop: the expired, unprotected snapshots and the set of their prefixes.\<close>

fun mark_expired :: "int \<Rightarrow> u64 \<Rightarrow> Snapshot list \<Rightarrow> Snapshot list result" where
  "mark_expired now retentionDays [] = Inr []"
| "mark_expired now retentionDays (s # ss) =
     (case snapshotExpired s now retentionDays of
        Inl e \<Rightarrow> Inl e
      | Inr expired \<Rightarrow>
          (case mark_expired now retentionDays ss of
             Inl e \<Rightarrow> Inl e
           | Inr rest \<Rightarrow> Inr (if expired \<and> \<not> Protected s then s # rest else rest)))"

text \<open>Second loop: the objects under \<open>backups/\<close>.\<close>

definition is_index_key :: "string \<Rightarrow> bool" where
  "is_index_key key \<longleftrightarrow> HasSuffix key ''.fidx'' \<or> HasSuffix key ''.didx''"

definition add_reference ::
    "string \<Rightarrow> (string, string list) gomap \<Rightarrow> string \<Rightarrow> (string, string list) gomap" where
  "add_reference key known digest =
     AList.update digest ((case map_of known digest of None \<Rightarrow> [] | Some rs \<Rightarrow> rs) @ [key]) known"

definition record_index :: "object_info \<Rightarrow> parsedIndex \<Rightarrow> gcPlan \<Rightarrow> gcPlan" where
  "record_index obj idx plan =
     plan\<lparr>archiveSizes := AList.update (Key obj) (logicalSize idx) (archiveSizes plan),
          knownChunks := foldl (add_reference (Key obj)) (knownChunks plan) (digests idx)\<rparr>"

fun scan_backups ::
    "(object_info \<Rightarrow> parsedIndex result) \<Rightarrow> string list \<Rightarrow> object_info list \<Rightarrow> gcPlan \<times> string list
      \<Rightarrow> (gcPlan \<times> string list) result" where
  "scan_backups loadIndex expiredPrefixes [] acc = Inr acc"
| "scan_backups loadIndex expiredPrefixes (obj # objects) acc =
     (case acc of (plan, knownHashes) \<Rightarrow>
        (case snapshotPrefixForObject (Key obj) of
           Inl e \<Rightarrow> Inl e
         | Inr prefix \<Rightarrow>
             if prefix \<in> set expiredPrefixes
             then scan_backups loadIndex expiredPrefixes objects
                    (plan\<lparr>backupObjects := backupObjects plan @ [obj]\<rparr>, knownHashes)
             else if \<not> is_index_key (Key obj)
             then scan_backups loadIndex expiredPrefixes objects (plan, knownHashes)
             else (case loadIndex obj of
                     Inl e \<Rightarrow> Inl e
                   | Inr idx \<Rightarrow>
                       scan_backups loadIndex expiredPrefixes objects
                         (record_index obj idx plan,
                          if HasSuffix (Key obj) ''.fidx'' then checksum idx # knownHashes
                          else knownHashes))))"

text \<open>Third loop: the copied indexes.\<close>

fun scan_indexed ::
    "(object_info \<Rightarrow> string result) \<Rightarrow> string list \<Rightarrow> object_info list \<Rightarrow> gcPlan
      \<Rightarrow> gcPlan result" where
  "scan_indexed loadChecksum knownHashes [] plan = Inr plan"
| "scan_indexed loadChecksum knownHashes (obj # objects) plan =
     (case loadChecksum obj of
        Inl e \<Rightarrow> Inl e
      | Inr csum \<Rightarrow>
          scan_indexed loadChecksum knownHashes objects
            (if csum \<notin> set knownHashes
             then plan\<lparr>indexedObjects := indexedObjects plan @ [obj]\<rparr> else plan))"

text \<open>Fourth loop: the chunks.\<close>

definition scan_chunk :: "int \<Rightarrow> int \<Rightarrow> object_info \<Rightarrow> string \<Rightarrow> gcPlan \<Rightarrow> gcPlan" where
  "scan_chunk now grace obj digest plan =
     (if map_of (knownChunks plan) digest \<noteq> None
      then plan\<lparr>existingChunks := AList.update digest True (existingChunks plan),
                chunkSizes := AList.update digest (uint64_of (ObjectSize obj)) (chunkSizes plan)\<rparr>
      else if withinGracePeriod (LastModified obj) now grace
      then plan\<lparr>protectedByGrace := protectedByGrace plan + 1\<rparr>
      else plan\<lparr>chunkObjects := chunkObjects plan @ [obj]\<rparr>)"

fun scan_chunks :: "int \<Rightarrow> int \<Rightarrow> object_info list \<Rightarrow> gcPlan \<Rightarrow> gcPlan result" where
  "scan_chunks now grace [] plan = Inr plan"
| "scan_chunks now grace (obj # objects) plan =
     (case chunkDigestFromKey (Key obj) of
        Inl e \<Rightarrow> Inl e
      | Inr digest \<Rightarrow> scan_chunks now grace objects (scan_chunk now grace obj digest plan))"

text \<open>Last loop: referenced chunks no listing entry was seen for.\<close>

definition mark_missing :: "gcPlan \<Rightarrow> gcPlan" where
  "mark_missing plan =
     plan\<lparr>missingChunks :=
            filter (\<lambda>(digest, _). map_of (existingChunks plan) digest \<noteq> Some True)
              (knownChunks plan)\<rparr>"

definition buildGCPlan ::
    "Snapshot list \<Rightarrow> object_info list \<Rightarrow> object_info list \<Rightarrow> object_info list \<Rightarrow> int \<Rightarrow> u64 \<Rightarrow> int
      \<Rightarrow> (object_info \<Rightarrow> parsedIndex result) \<Rightarrow> (object_info \<Rightarrow> string result)
      \<Rightarrow> gcPlan result" where
  "buildGCPlan snapshots backups indexed chunks now retentionDays grace loadIndex loadChecksum =
     (case mark_expired now retentionDays snapshots of
        Inl e \<Rightarrow> Inl e
      | Inr expired \<Rightarrow>
          (case scan_backups loadIndex (map S3Prefix expired) backups
                  (empty_plan\<lparr>expiredSnapshots := expired\<rparr>, []) of
             Inl e \<Rightarrow> Inl e
           | Inr (plan1, knownHashes) \<Rightarrow>
               (case scan_indexed loadChecksum knownHashes indexed plan1 of
                  Inl e \<Rightarrow> Inl e
                | Inr plan2 \<Rightarrow>
                    (case scan_chunks now grace chunks plan2 of
                       Inl e \<Rightarrow> Inl e
                     | Inr plan3 \<Rightarrow> Inr (mark_missing plan3)))))"

section \<open>The sweep\<close>

definition executeGCPlan ::
    "cancellation \<Rightarrow> 's s3_client \<Rightarrow> 's \<Rightarrow> string \<Rightarrow> gcPlan \<Rightarrow> goerr option \<times> 's" where
  "executeGCPlan ctx c st bucket plan =
     (case removeObjectsFully ctx c st bucket (backupObjects plan) of
        (Some e, st1) \<Rightarrow> (Some (Wrap ''remove expired snapshot objects'' e), st1)
      | (None, st1) \<Rightarrow>
          (case removeObjectsFully ctx c st1 bucket (indexedObjects plan) of
             (Some e, st2) \<Rightarrow> (Some (Wrap ''remove orphaned copied indexes'' e), st2)
           | (None, st2) \<Rightarrow>
               (case removeObjectsFully ctx c st2 bucket (chunkObjects plan) of
                  (Some e, st3) \<Rightarrow> (Some (Wrap ''remove orphaned chunks'' e), st3)
                | (None, st3) \<Rightarrow> (None, st3))))"

section \<open>The declarative reading of a plan\<close>

definition no_index :: parsedIndex where
  "no_index = \<lparr>checksum = [], digests = [], logicalSize = 0\<rparr>"

definition index_of :: "(object_info \<Rightarrow> parsedIndex result) \<Rightarrow> object_info \<Rightarrow> parsedIndex" where
  "index_of loadIndex obj = (case loadIndex obj of Inr idx \<Rightarrow> idx | Inl _ \<Rightarrow> no_index)"

text \<open>The snapshots a run expires, and the objects that belong to them.\<close>

definition expires :: "int \<Rightarrow> u64 \<Rightarrow> Snapshot \<Rightarrow> bool" where
  "expires now retentionDays s \<longleftrightarrow> snapshotExpired s now retentionDays = Inr True \<and> \<not> Protected s"

definition in_prefixes :: "string list \<Rightarrow> object_info \<Rightarrow> bool" where
  "in_prefixes ps obj =
     (case snapshotPrefixForObject (Key obj) of Inr p \<Rightarrow> p \<in> set ps | Inl _ \<Rightarrow> False)"

definition expired_prefixes :: "int \<Rightarrow> u64 \<Rightarrow> Snapshot list \<Rightarrow> string list" where
  "expired_prefixes now retentionDays snapshots
     = map S3Prefix (filter (expires now retentionDays) snapshots)"

text \<open>The indexes that keep chunks alive, and the references to a digest they hold.\<close>

definition live_indexes :: "string list \<Rightarrow> object_info list \<Rightarrow> object_info list" where
  "live_indexes ps backups = filter (\<lambda>obj. \<not> in_prefixes ps obj \<and> is_index_key (Key obj)) backups"

definition references ::
    "(object_info \<Rightarrow> parsedIndex result) \<Rightarrow> object_info list \<Rightarrow> string \<Rightarrow> string list" where
  "references loadIndex indexes d =
     concat (map (\<lambda>obj. replicate (count_list (digests (index_of loadIndex obj)) d) (Key obj)) indexes)"

definition digest_of_chunk :: "object_info \<Rightarrow> string" where
  "digest_of_chunk obj = (case chunkDigestFromKey (Key obj) of Inr d \<Rightarrow> d | Inl _ \<Rightarrow> [])"

definition refs_at :: "(string, string list) gomap \<Rightarrow> string \<Rightarrow> string list" where
  "refs_at m d = (case map_of m d of None \<Rightarrow> [] | Some rs \<Rightarrow> rs)"

section \<open>Lemmas: the loops\<close>

lemma mark_expired_Inr:
  "mark_expired now r ss = Inr ex \<Longrightarrow> ex = filter (expires now r) ss"
  by (induction ss arbitrary: ex) (auto simp: expires_def split: sum.splits if_splits)

lemma map_of_add_reference:
  "map_of (add_reference key m d) x = (if x = d then Some (refs_at m d @ [key]) else map_of m x)"
  by (simp add: add_reference_def refs_at_def map_of_update)

lemma refs_at_fold:
  "refs_at (foldl (add_reference key) m ds) x = refs_at m x @ replicate (count_list ds x) key"
proof (induction ds arbitrary: m)
  case (Cons d ds)
  then show ?case
    by (cases "x = d") (auto simp: refs_at_def map_of_add_reference replicate_app_Cons_same)
qed simp

text \<open>One iteration of the second loop that goes on: the three ways it can.\<close>

lemma scan_backups_ConsE:
  assumes "scan_backups load ex (obj # objs) (plan, kh) = Inr r"
  obtains (expired) p where "snapshotPrefixForObject (Key obj) = Inr p" "p \<in> set ex"
      "scan_backups load ex objs (plan\<lparr>backupObjects := backupObjects plan @ [obj]\<rparr>, kh) = Inr r"
  | (other) p where "snapshotPrefixForObject (Key obj) = Inr p" "p \<notin> set ex"
      "\<not> is_index_key (Key obj)" "scan_backups load ex objs (plan, kh) = Inr r"
  | (index) p idx where "snapshotPrefixForObject (Key obj) = Inr p" "p \<notin> set ex"
      "is_index_key (Key obj)" "load obj = Inr idx"
      "scan_backups load ex objs (record_index obj idx plan,
         if HasSuffix (Key obj) ''.fidx'' then checksum idx # kh else kh) = Inr r"
  using assms by (auto split: sum.splits if_splits)

text \<open>The loop leaves the fields of the later loops alone.\<close>

lemma scan_backups_frame:
  assumes "scan_backups load ex objs (plan, kh) = Inr (plan', kh')"
  shows "expiredSnapshots plan' = expiredSnapshots plan \<and> indexedObjects plan' = indexedObjects plan
    \<and> chunkObjects plan' = chunkObjects plan \<and> existingChunks plan' = existingChunks plan
    \<and> chunkSizes plan' = chunkSizes plan \<and> missingChunks plan' = missingChunks plan
    \<and> protectedByGrace plan' = protectedByGrace plan"
  using assms
proof (induction objs arbitrary: plan kh)
  case (Cons obj objs)
  from Cons.prems show ?case
    by (cases rule: scan_backups_ConsE) (auto dest!: Cons.IH simp: record_index_def)
qed simp

text \<open>What it collects: the objects of expired snapshots, and every index of the others.\<close>

lemma in_prefixes_iff:
  "snapshotPrefixForObject (Key obj) = Inr p \<Longrightarrow> in_prefixes ps obj \<longleftrightarrow> p \<in> set ps"
  by (simp add: in_prefixes_def)

lemma live_indexes_Cons:
  "live_indexes ps (obj # objs) =
     (if \<not> in_prefixes ps obj \<and> is_index_key (Key obj) then obj # live_indexes ps objs
      else live_indexes ps objs)"
  by (simp add: live_indexes_def)

lemma live_indexes_Nil [simp]: "live_indexes ps [] = []"
  by (simp add: live_indexes_def)

lemma index_of_Inr: "load obj = Inr idx \<Longrightarrow> index_of load obj = idx"
  by (simp add: index_of_def)

lemma scan_backups_objects:
  assumes "scan_backups load ex objs (plan, kh) = Inr (plan', kh')"
  shows "backupObjects plan' = backupObjects plan @ filter (in_prefixes ex) objs"
  using assms
proof (induction objs arbitrary: plan kh)
  case (Cons obj objs)
  from Cons.prems show ?case
    by (cases rule: scan_backups_ConsE)
      (auto dest!: Cons.IH simp: record_index_def in_prefixes_iff)
qed simp

lemma references_Cons:
  "references load (obj # objs) d =
     replicate (count_list (digests (index_of load obj)) d) (Key obj) @ references load objs d"
  by (simp add: references_def)

lemma references_Nil [simp]: "references load [] d = []"
  by (simp add: references_def)

lemma scan_backups_refs:
  assumes "scan_backups load ex objs (plan, kh) = Inr (plan', kh')"
  shows "refs_at (knownChunks plan') d
    = refs_at (knownChunks plan) d @ references load (live_indexes ex objs) d"
  using assms
proof (induction objs arbitrary: plan kh)
  case (Cons obj objs)
  from Cons.prems show ?case
    by (cases rule: scan_backups_ConsE)
      (auto dest!: Cons.IH simp: record_index_def in_prefixes_iff live_indexes_Cons references_Cons
        refs_at_fold index_of_Inr)
qed simp

lemma scan_backups_hashes:
  assumes "scan_backups load ex objs (plan, kh) = Inr (plan', kh')"
  shows "set kh' = set kh \<union> (\<lambda>obj. checksum (index_of load obj)) `
    {obj \<in> set (live_indexes ex objs). HasSuffix (Key obj) ''.fidx''}"
  using assms
proof (induction objs arbitrary: plan kh)
  case (Cons obj objs)
  from Cons.prems show ?case
  proof (cases rule: scan_backups_ConsE)
    case (expired p)
    from Cons.IH [OF expired(3)] expired(1,2) show ?thesis
      by (simp add: in_prefixes_iff live_indexes_Cons)
  next
    case (other p)
    from Cons.IH [OF other(4)] other(1-3) show ?thesis
      by (simp add: in_prefixes_iff live_indexes_Cons)
  next
    case (index p idx)
    have "live_indexes ex (obj # objs) = obj # live_indexes ex objs" "index_of load obj = idx"
      using index by (simp_all add: in_prefixes_iff live_indexes_Cons index_of_Inr)
    with Cons.IH [OF index(5)] show ?thesis by (auto simp: image_iff)
  qed
qed simp

lemma scan_backups_loaded:
  assumes "scan_backups load ex objs (plan, kh) = Inr (plan', kh')"
  shows "(\<forall>obj \<in> set objs. \<exists>p. snapshotPrefixForObject (Key obj) = Inr p)
    \<and> (\<forall>obj \<in> set (live_indexes ex objs). \<exists>idx. load obj = Inr idx)"
  using assms
proof (induction objs arbitrary: plan kh)
  case (Cons obj objs)
  from Cons.prems show ?case
  proof (cases rule: scan_backups_ConsE)
    case (expired p)
    from Cons.IH [OF expired(3)] expired(1,2) show ?thesis
      by (simp add: in_prefixes_iff live_indexes_Cons)
  next
    case (other p)
    from Cons.IH [OF other(4)] other(1-3) show ?thesis
      by (simp add: in_prefixes_iff live_indexes_Cons)
  next
    case (index p idx)
    from Cons.IH [OF index(5)] index(1-4) show ?thesis
      by (simp add: in_prefixes_iff live_indexes_Cons index_of_Inr)
  qed
qed simp

text \<open>A map of references never holds an empty list.\<close>

definition refs_wf :: "(string, string list) gomap \<Rightarrow> bool" where
  "refs_wf m \<longleftrightarrow> distinct (map fst m) \<and> [] \<notin> snd ` set m"

lemma refs_wf_map_of:
  "refs_wf m \<Longrightarrow> map_of m d = (if refs_at m d = [] then None else Some (refs_at m d))"
  by (auto simp: refs_wf_def refs_at_def image_iff dest!: map_of_SomeD split: option.splits)

lemma refs_wf_add: "refs_wf m \<Longrightarrow> refs_wf (add_reference key m d)"
  by (auto simp: refs_wf_def add_reference_def distinct_keys_update set_AList_update)

lemma refs_wf_fold: "refs_wf m \<Longrightarrow> refs_wf (foldl (add_reference key) m ds)"
  by (induction ds arbitrary: m) (auto simp: refs_wf_add)

lemma scan_backups_wf:
  assumes "scan_backups load ex objs (plan, kh) = Inr (plan', kh')" "refs_wf (knownChunks plan)"
  shows "refs_wf (knownChunks plan')"
  using assms
proof (induction objs arbitrary: plan kh)
  case (Cons obj objs)
  from Cons.prems(1) show ?case
  proof (cases rule: scan_backups_ConsE)
    case (index p idx)
    show ?thesis
      by (rule Cons.IH [OF index(5)]) (simp add: record_index_def refs_wf_fold Cons.prems(2))
  qed (use Cons.IH Cons.prems(2) in auto)
qed simp

text \<open>The third loop, the fourth and the last.\<close>

definition orphaned_index :: "(object_info \<Rightarrow> string result) \<Rightarrow> string set \<Rightarrow> object_info \<Rightarrow> bool" where
  "orphaned_index loadChecksum live obj =
     (case loadChecksum obj of Inr csum \<Rightarrow> csum \<notin> live | Inl _ \<Rightarrow> False)"

lemma scan_indexed_Inr:
  assumes "scan_indexed load kh objs plan = Inr plan'"
  shows "plan' = plan\<lparr>indexedObjects := indexedObjects plan @ filter (orphaned_index load (set kh)) objs\<rparr>
    \<and> (\<forall>obj \<in> set objs. \<exists>c. load obj = Inr c)"
  using assms
proof (induction objs arbitrary: plan)
  case (Cons obj objs)
  from Cons.prems obtain c where c: "load obj = Inr c" by (auto split: sum.splits)
  with Cons.prems have "scan_indexed load kh objs (if c \<notin> set kh
      then plan\<lparr>indexedObjects := indexedObjects plan @ [obj]\<rparr> else plan) = Inr plan'" by simp
  from Cons.IH [OF this] c show ?case by (simp add: orphaned_index_def)
qed simp

text \<open>A chunk is swept when no live index refers to it and it is not recent.\<close>

definition swept :: "(string \<Rightarrow> bool) \<Rightarrow> int \<Rightarrow> int \<Rightarrow> object_info \<Rightarrow> bool" where
  "swept known now grace obj \<longleftrightarrow>
     \<not> known (digest_of_chunk obj) \<and> \<not> withinGracePeriod (LastModified obj) now grace"

definition spared :: "(string \<Rightarrow> bool) \<Rightarrow> int \<Rightarrow> int \<Rightarrow> object_info \<Rightarrow> bool" where
  "spared known now grace obj \<longleftrightarrow>
     \<not> known (digest_of_chunk obj) \<and> withinGracePeriod (LastModified obj) now grace"

lemma scan_chunks_ConsE:
  assumes "scan_chunks now grace (obj # objs) plan = Inr plan'"
  obtains d where "chunkDigestFromKey (Key obj) = Inr d" "digest_of_chunk obj = d"
    "scan_chunks now grace objs (scan_chunk now grace obj d plan) = Inr plan'"
  using assms by (auto simp: digest_of_chunk_def split: sum.splits)

lemma scan_chunk_frame [simp]:
  "knownChunks (scan_chunk now grace obj d plan) = knownChunks plan"
  "expiredSnapshots (scan_chunk now grace obj d plan) = expiredSnapshots plan"
  "backupObjects (scan_chunk now grace obj d plan) = backupObjects plan"
  "indexedObjects (scan_chunk now grace obj d plan) = indexedObjects plan"
  "archiveSizes (scan_chunk now grace obj d plan) = archiveSizes plan"
  by (simp_all add: scan_chunk_def)

lemma scan_chunks_frame:
  assumes "scan_chunks now grace objs plan = Inr plan'"
  shows "knownChunks plan' = knownChunks plan \<and> expiredSnapshots plan' = expiredSnapshots plan
    \<and> backupObjects plan' = backupObjects plan \<and> indexedObjects plan' = indexedObjects plan
    \<and> archiveSizes plan' = archiveSizes plan
    \<and> (\<forall>obj \<in> set objs. \<exists>d. chunkDigestFromKey (Key obj) = Inr d)"
  using assms
proof (induction objs arbitrary: plan)
  case (Cons obj objs)
  from Cons.prems obtain d where d: "chunkDigestFromKey (Key obj) = Inr d"
    and "scan_chunks now grace objs (scan_chunk now grace obj d plan) = Inr plan'"
    by (rule scan_chunks_ConsE)
  from Cons.IH [OF this(2)] d show ?case by simp
qed simp

definition known_in :: "(string, string list) gomap \<Rightarrow> string \<Rightarrow> bool" where
  "known_in m d \<longleftrightarrow> map_of m d \<noteq> None"

lemma scan_chunks_swept:
  assumes "scan_chunks now grace objs plan = Inr plan'"
  shows "chunkObjects plan' = chunkObjects plan @ filter (swept (known_in (knownChunks plan)) now grace) objs
    \<and> protectedByGrace plan' = protectedByGrace plan
        + of_nat (length (filter (spared (known_in (knownChunks plan)) now grace) objs))"
  using assms
proof (induction objs arbitrary: plan)
  case (Cons obj objs)
  from Cons.prems obtain d where d: "digest_of_chunk obj = d"
    and "scan_chunks now grace objs (scan_chunk now grace obj d plan) = Inr plan'"
    by (rule scan_chunks_ConsE)
  from Cons.IH [OF this(2)] d show ?case
    by (simp add: swept_def spared_def known_in_def scan_chunk_def)
qed simp

lemma scan_chunk_existing:
  "map_of (existingChunks (scan_chunk now grace obj e plan)) =
     (if known_in (knownChunks plan) e then (map_of (existingChunks plan))(e \<mapsto> True)
      else map_of (existingChunks plan))"
  by (simp add: scan_chunk_def known_in_def map_of_update)

lemma scan_chunks_existing:
  assumes "scan_chunks now grace objs plan = Inr plan'"
  shows "map_of (existingChunks plan') d = (if known_in (knownChunks plan) d
      \<and> d \<in> digest_of_chunk ` set objs then Some True else map_of (existingChunks plan) d)"
  using assms
proof (induction objs arbitrary: plan)
  case (Cons obj objs)
  from Cons.prems obtain e where e: "digest_of_chunk obj = e"
    and "scan_chunks now grace objs (scan_chunk now grace obj e plan) = Inr plan'"
    by (rule scan_chunks_ConsE)
  from Cons.IH [OF this(2)] e show ?case
    by (auto simp: scan_chunk_existing)
qed simp

text \<open>The size kept for a referenced chunk is that of its last listing entry.\<close>

definition listed_size :: "object_info list \<Rightarrow> string \<Rightarrow> u64 option" where
  "listed_size objs d =
     map_of (rev (map (\<lambda>obj. (digest_of_chunk obj, uint64_of (ObjectSize obj))) objs)) d"

lemma scan_chunks_sizes:
  assumes "scan_chunks now grace objs plan = Inr plan'" "known_in (knownChunks plan) d"
  shows "map_of (chunkSizes plan') d =
    (case listed_size objs d of Some n \<Rightarrow> Some n | None \<Rightarrow> map_of (chunkSizes plan) d)"
  using assms
proof (induction objs arbitrary: plan)
  case (Cons obj objs)
  from Cons.prems(1) obtain e where e: "digest_of_chunk obj = e"
    and "scan_chunks now grace objs (scan_chunk now grace obj e plan) = Inr plan'"
    by (rule scan_chunks_ConsE)
  from Cons.IH [OF this(2)] e Cons.prems(2) show ?case
    by (auto simp: listed_size_def known_in_def scan_chunk_def map_of_update map_add_def
        split: option.splits)
qed (simp add: listed_size_def)

section \<open>Lemmas: the whole mark phase\<close>

lemma buildGCPlan_InrE:
  assumes "buildGCPlan snapshots backups indexed chunks now r grace load csum = Inr plan"
  obtains plan1 kh plan2 plan3 where
    "mark_expired now r snapshots = Inr (filter (expires now r) snapshots)"
    "scan_backups load (expired_prefixes now r snapshots) backups
       (empty_plan\<lparr>expiredSnapshots := filter (expires now r) snapshots\<rparr>, []) = Inr (plan1, kh)"
    "scan_indexed csum kh indexed plan1 = Inr plan2"
    "scan_chunks now grace chunks plan2 = Inr plan3" "plan = mark_missing plan3"
proof -
  from assms obtain ex where ex: "mark_expired now r snapshots = Inr ex"
    by (auto simp: buildGCPlan_def split: sum.splits)
  then have "ex = filter (expires now r) snapshots" by (rule mark_expired_Inr)
  with ex assms that show ?thesis
    by (auto simp: buildGCPlan_def expired_prefixes_def split: sum.splits)
qed

lemma mark_missing_frame [simp]:
  "expiredSnapshots (mark_missing p) = expiredSnapshots p"
  "backupObjects (mark_missing p) = backupObjects p"
  "indexedObjects (mark_missing p) = indexedObjects p"
  "chunkObjects (mark_missing p) = chunkObjects p"
  "knownChunks (mark_missing p) = knownChunks p"
  "existingChunks (mark_missing p) = existingChunks p"
  "chunkSizes (mark_missing p) = chunkSizes p"
  "archiveSizes (mark_missing p) = archiveSizes p"
  "protectedByGrace (mark_missing p) = protectedByGrace p"
  by (simp_all add: mark_missing_def)

text \<open>The index objects whose chunks a run with these listings must keep.\<close>

definition kept_indexes ::
    "int \<Rightarrow> u64 \<Rightarrow> Snapshot list \<Rightarrow> object_info list \<Rightarrow> object_info list" where
  "kept_indexes now r snapshots backups = live_indexes (expired_prefixes now r snapshots) backups"

definition is_referenced ::
    "(object_info \<Rightarrow> parsedIndex result) \<Rightarrow> object_info list \<Rightarrow> string \<Rightarrow> bool" where
  "is_referenced load indexes d \<longleftrightarrow> list_ex (\<lambda>obj. d \<in> set (digests (index_of load obj))) indexes"

definition live_checksums ::
    "(object_info \<Rightarrow> parsedIndex result) \<Rightarrow> object_info list \<Rightarrow> string set" where
  "live_checksums load indexes =
     set (map (\<lambda>obj. checksum (index_of load obj)) (filter (\<lambda>obj. HasSuffix (Key obj) ''.fidx'') indexes))"

lemma references_empty_iff: "references load objs d = [] \<longleftrightarrow> \<not> is_referenced load objs d"
  by (induction objs) (auto simp: references_Cons is_referenced_def count_list_0_iff)

lemma empty_plan_simps [simp]:
  "backupObjects empty_plan = []" "indexedObjects empty_plan = []" "chunkObjects empty_plan = []"
  "knownChunks empty_plan = []" "existingChunks empty_plan = []" "chunkSizes empty_plan = []"
  "archiveSizes empty_plan = []" "protectedByGrace empty_plan = 0"
  "missingChunks empty_plan = []" "expiredSnapshots empty_plan = []"
  by (simp_all add: empty_plan_def)

lemma build_known:
  assumes "buildGCPlan snapshots backups indexed chunks now r grace load csum = Inr plan"
  shows "refs_wf (knownChunks plan)"
    and "refs_at (knownChunks plan) d = references load (kept_indexes now r snapshots backups) d"
    and "known_in (knownChunks plan) = is_referenced load (kept_indexes now r snapshots backups)"
proof -
  from assms obtain plan1 kh plan2 plan3 where
    *: "scan_backups load (expired_prefixes now r snapshots) backups
       (empty_plan\<lparr>expiredSnapshots := filter (expires now r) snapshots\<rparr>, []) = Inr (plan1, kh)"
    "scan_indexed csum kh indexed plan1 = Inr plan2"
    "scan_chunks now grace chunks plan2 = Inr plan3" "plan = mark_missing plan3"
    by (rule buildGCPlan_InrE)
  have eq: "knownChunks plan = knownChunks plan1"
    using scan_indexed_Inr [OF *(2)] scan_chunks_frame [OF *(3)] *(4) by simp
  show wf: "refs_wf (knownChunks plan)"
    unfolding eq by (rule scan_backups_wf [OF *(1)]) (simp add: refs_wf_def)
  show refs: "refs_at (knownChunks plan) d = references load (kept_indexes now r snapshots backups) d" for d
    using scan_backups_refs [OF *(1), of d] by (simp add: eq kept_indexes_def refs_at_def)
  show "known_in (knownChunks plan) = is_referenced load (kept_indexes now r snapshots backups)"
    by (rule ext) (simp add: known_in_def refs_wf_map_of [OF wf] refs references_empty_iff)
qed

lemma build_deletes:
  assumes "buildGCPlan snapshots backups indexed chunks now r grace load csum = Inr plan"
  defines "kept \<equiv> kept_indexes now r snapshots backups"
  shows "expiredSnapshots plan = filter (expires now r) snapshots"
    and "backupObjects plan = filter (in_prefixes (expired_prefixes now r snapshots)) backups"
    and "indexedObjects plan = filter (orphaned_index csum (live_checksums load kept)) indexed"
    and "chunkObjects plan = filter (swept (is_referenced load kept) now grace) chunks"
    and "protectedByGrace plan
      = of_nat (length (filter (spared (is_referenced load kept) now grace) chunks))"
proof -
  from assms(1) obtain plan1 kh plan2 plan3 where
    *: "scan_backups load (expired_prefixes now r snapshots) backups
       (empty_plan\<lparr>expiredSnapshots := filter (expires now r) snapshots\<rparr>, []) = Inr (plan1, kh)"
    "scan_indexed csum kh indexed plan1 = Inr plan2"
    "scan_chunks now grace chunks plan2 = Inr plan3" "plan = mark_missing plan3"
    by (rule buildGCPlan_InrE)
  note frame = scan_backups_frame [OF *(1)] conjunct1 [OF scan_indexed_Inr [OF *(2)]]
    scan_chunks_frame [OF *(3)]
  have kh: "set kh = live_checksums load kept"
    using scan_backups_hashes [OF *(1)]
    by (simp add: live_checksums_def kept_def kept_indexes_def)
  have known: "known_in (knownChunks plan1) = is_referenced load kept"
    using build_known(3) [OF assms(1)] frame *(4) by (simp add: kept_def)
  show "expiredSnapshots plan = filter (expires now r) snapshots" using frame *(4) by simp
  show "backupObjects plan = filter (in_prefixes (expired_prefixes now r snapshots)) backups"
    using scan_backups_objects [OF *(1)] frame *(4) by simp
  show "indexedObjects plan = filter (orphaned_index csum (live_checksums load kept)) indexed"
    using frame *(4) by (simp add: kh)
  show "chunkObjects plan = filter (swept (is_referenced load kept) now grace) chunks"
    and "protectedByGrace plan
      = of_nat (length (filter (spared (is_referenced load kept) now grace) chunks))"
    using scan_chunks_swept [OF *(3)] frame *(4) by (simp_all add: known)
qed

lemma build_existing:
  assumes "buildGCPlan snapshots backups indexed chunks now r grace load csum = Inr plan"
  defines "kept \<equiv> kept_indexes now r snapshots backups"
  shows "map_of (existingChunks plan) d =
      (if is_referenced load kept d \<and> d \<in> digest_of_chunk ` set chunks then Some True else None)"
    and "is_referenced load kept d \<Longrightarrow> map_of (chunkSizes plan) d = listed_size chunks d"
proof -
  from assms(1) obtain plan1 kh plan2 plan3 where
    *: "scan_backups load (expired_prefixes now r snapshots) backups
       (empty_plan\<lparr>expiredSnapshots := filter (expires now r) snapshots\<rparr>, []) = Inr (plan1, kh)"
    "scan_indexed csum kh indexed plan1 = Inr plan2"
    "scan_chunks now grace chunks plan2 = Inr plan3" "plan = mark_missing plan3"
    by (rule buildGCPlan_InrE)
  note frame = scan_backups_frame [OF *(1)] conjunct1 [OF scan_indexed_Inr [OF *(2)]]
    scan_chunks_frame [OF *(3)]
  have known: "known_in (knownChunks plan1) = is_referenced load kept"
    using build_known(3) [OF assms(1)] frame *(4) by (simp add: kept_def)
  show "map_of (existingChunks plan) d =
      (if is_referenced load kept d \<and> d \<in> digest_of_chunk ` set chunks then Some True else None)"
    using scan_chunks_existing [OF *(3), of d] frame *(4) by (simp add: known)
  show "map_of (chunkSizes plan) d = listed_size chunks d" if "is_referenced load kept d"
    using scan_chunks_sizes [OF *(3), of d] that frame *(4)
    by (simp add: known split: option.splits)
qed

lemma map_of_filter_pair:
  "distinct (map fst m) \<Longrightarrow>
   map_of (filter (\<lambda>(k, _). P k) m) k = (if P k then map_of m k else None)"
  by (induction m) auto

lemma build_missing:
  assumes "buildGCPlan snapshots backups indexed chunks now r grace load csum = Inr plan"
  defines "kept \<equiv> kept_indexes now r snapshots backups"
  shows "map_of (missingChunks plan) d =
    (if is_referenced load kept d \<and> d \<notin> digest_of_chunk ` set chunks
     then Some (references load kept d) else None)"
proof -
  have "missingChunks plan = filter (\<lambda>(digest, _). map_of (existingChunks plan) digest \<noteq> Some True)
      (knownChunks plan)"
    using assms(1) by (rule buildGCPlan_InrE) (simp add: mark_missing_def)
  then have "map_of (missingChunks plan) d =
      (if map_of (existingChunks plan) d \<noteq> Some True then map_of (knownChunks plan) d else None)"
    using build_known(1) [OF assms(1)]
      map_of_filter_pair [of "knownChunks plan" "\<lambda>x. map_of (existingChunks plan) x \<noteq> Some True" d]
    unfolding refs_wf_def by simp
  then show ?thesis
    using build_existing(1) [OF assms(1), of d] refs_wf_map_of [OF build_known(1) [OF assms(1)], of d]
      build_known(2) [OF assms(1), of d] references_empty_iff [of load kept d]
    by (auto simp: kept_def)
qed

section \<open>Lemmas: success, prefixes, times\<close>

lemma mark_expired_succeeds:
  "succeeds (mark_expired now r ss) \<longleftrightarrow> list_all (\<lambda>s. succeeds (snapshotExpired s now r)) ss"
  by (induction ss) (auto split: sum.splits)

lemma scan_backups_succeeds:
  "succeeds (scan_backups load ex objs (plan, kh)) \<longleftrightarrow>
     list_all (\<lambda>obj. succeeds (snapshotPrefixForObject (Key obj))) objs
     \<and> list_all (\<lambda>obj. succeeds (load obj)) (live_indexes ex objs)"
  by (induction objs arbitrary: plan kh)
    (auto simp: live_indexes_Cons in_prefixes_def split: sum.splits)

lemma scan_indexed_succeeds:
  "succeeds (scan_indexed load kh objs plan) \<longleftrightarrow> list_all (\<lambda>obj. succeeds (load obj)) objs"
  by (induction objs arbitrary: plan) (auto split: sum.splits)

lemma scan_chunks_succeeds:
  "succeeds (scan_chunks now grace objs plan)
     \<longleftrightarrow> list_all (\<lambda>obj. succeeds (chunkDigestFromKey (Key obj))) objs"
  by (induction objs arbitrary: plan) (auto split: sum.splits)

definition build_inputs_ok ::
    "Snapshot list \<Rightarrow> object_info list \<Rightarrow> object_info list \<Rightarrow> object_info list \<Rightarrow> int \<Rightarrow> u64
      \<Rightarrow> (object_info \<Rightarrow> parsedIndex result) \<Rightarrow> (object_info \<Rightarrow> string result) \<Rightarrow> bool" where
  "build_inputs_ok snapshots backups indexed chunks now r load csum \<longleftrightarrow>
     list_all (\<lambda>s. succeeds (snapshotExpired s now r)) snapshots
     \<and> list_all (\<lambda>obj. succeeds (snapshotPrefixForObject (Key obj))) backups
     \<and> list_all (\<lambda>obj. succeeds (load obj)) (kept_indexes now r snapshots backups)
     \<and> list_all (\<lambda>obj. succeeds (csum obj)) indexed
     \<and> list_all (\<lambda>obj. succeeds (chunkDigestFromKey (Key obj))) chunks"

lemma snapshotPrefixForObject_key:
  assumes "n \<noteq> []" "CHR ''/'' \<notin> set n"
  shows "snapshotPrefixForObject ((''backups/'' @ n) @ ''/'' @ f) = Inr (''backups/'' @ n)"
proof -
  have key: "(''backups/'' @ n) @ ''/'' @ f = ''backups/'' @ (n @ CHR ''/'' # f)" by simp
  have "IndexByte (n @ CHR ''/'' # f) CHR ''/'' = int (length n)"
    using assms(2) by (rule IndexByte_append)
  then show ?thesis
    using assms(1) unfolding snapshotPrefixForObject_def key TrimPrefix_append
    by (simp add: HasPrefix_def)
qed

lemma snapshotPrefixForObject_S3Prefix:
  "wf_identity s \<Longrightarrow> snapshotPrefixForObject (S3Prefix s @ ''/'' @ f) = Inr (S3Prefix s)"
  unfolding S3Prefix_def by (rule snapshotPrefixForObject_key) (auto simp: wf_identity_def)

text \<open>The prefix of an object has exactly two components; its rest is not empty before the slash.\<close>

lemma snapshotPrefixForObject_Inr:
  assumes "snapshotPrefixForObject key = Inr p"
  obtains n f where "p = ''backups/'' @ n" "key = p @ ''/'' @ f" "n \<noteq> []" "CHR ''/'' \<notin> set n"
proof -
  from assms have pre: "HasPrefix key ''backups/''"
    by (auto simp: snapshotPrefixForObject_def split: if_splits)
  then obtain rest where key: "key = ''backups/'' @ rest" by (auto simp: HasPrefix_iff)
  have idx: "0 < IndexByte rest CHR ''/''" and p: "p = ''backups/'' @ take (nat (IndexByte rest CHR ''/'')) rest"
    using assms pre unfolding snapshotPrefixForObject_def key TrimPrefix_append Let_def
    by (auto split: if_splits)
  then have "CHR ''/'' \<in> set rest" by (auto simp: IndexByte_def split: if_splits)
  then obtain n f where rest: "rest = n @ CHR ''/'' # f" and n: "CHR ''/'' \<notin> set n"
    by (meson split_list_first)
  then have "IndexByte rest CHR ''/'' = int (length n)" by (simp add: IndexByte_append)
  with idx p rest n key that show ?thesis by fastforce
qed

text \<open>A chunk key and the digest in it.\<close>

lemma chunkDigestFromKey_key:
  assumes "length d = 64" "hex_DecodeString d = (bs, True)" "CHR ''/'' \<notin> set d"
  shows "chunkDigestFromKey (''chunks/'' @ take 2 d @ ''/'' @ take 2 (drop 2 d) @ ''/'' @ drop 4 d) = Inr d"
proof -
  have sep: "CHR ''/'' \<notin> set (take 2 d)" "CHR ''/'' \<notin> set (take 2 (drop 2 d))"
    "CHR ''/'' \<notin> set (drop 4 d)"
    using assms(3) by (auto dest: in_set_takeD in_set_dropD)
  have "''chunks/'' @ take 2 d @ ''/'' @ take 2 (drop 2 d) @ ''/'' @ drop 4 d
      = ''chunks'' @ CHR ''/'' # take 2 d @ CHR ''/'' # take 2 (drop 2 d) @ CHR ''/'' # drop 4 d"
    by simp
  then have split: "Split (''chunks/'' @ take 2 d @ ''/'' @ take 2 (drop 2 d) @ ''/'' @ drop 4 d) CHR ''/''
      = [''chunks'', take 2 d, take 2 (drop 2 d), drop 4 d]"
    using sep by (simp add: Split_append_sep Split_no_sep)
  have "take 2 d @ take 2 (drop 2 d) @ drop 4 d = d"
    using append_take_drop_id [of 2 "drop 2 d"] by simp
  moreover have "length bs = 32" using hex_Decode_length [OF assms(2)] assms(1) by simp
  ultimately show ?thesis
    using assms(1,2) unfolding chunkDigestFromKey_def split Let_def by simp
qed

lemma hex_Encode_no_slash [simp]: "CHR ''/'' \<notin> set (hex_EncodeToString bs)"
proof (induction bs)
  case (Cons b bs)
  have "unat b div 16 < 16" using unat_byte_lt [of b] by auto
  with Cons show ?case by simp
qed simp

text \<open>The bounds keep every multiplication and subtraction in range.\<close>

lemma snapshotExpired_exact_nat:
  assumes "unix now < 2 ^ 63"
  shows "snapshotExpired s now r =
    (if unat r > (2 ^ 64 - 1) div 86400 then Inl (Error ''retention period overflows seconds'')
     else Inr (int (unat (BackupTime s)) + 86400 * int (unat r) < unix now))"
proof (cases "unat r > (2 ^ 64 - 1) div 86400")
  case True
  then have "r > word_of_int ((2 ^ 64 - 1) div 86400)" by (simp add: word_less_nat_alt)
  with True show ?thesis by (simp add: snapshotExpired_def)
next
  case False
  then have r: "\<not> r > word_of_int ((2 ^ 64 - 1) div 86400)" by (simp add: word_less_nat_alt)
  have mult: "unat (r * 86400) = 86400 * unat r"
    using False by (subst unat_mult_lem [THEN iffD1]) simp_all
  show ?thesis
  proof (cases "unix now < 0")
    case True
    then have "\<not> int (unat (BackupTime s)) + 86400 * int (unat r) < unix now" by linarith
    with True show ?thesis using r False by (simp add: snapshotExpired_def Let_def)
  next
    case nonneg: False
    have nowU: "unat (uint64_of (unix now)) = nat (unix now)"
      using nonneg assms by (simp add: uint64_of_def nat_take_bit_eq take_bit_nat_eq_self_iff
          unsigned_of_int take_bit_int_eq_self_iff)
    show ?thesis
    proof (cases "uint64_of (unix now) < r * 86400")
      case True
      then have "nat (unix now) < 86400 * unat r" by (simp add: word_less_nat_alt nowU mult)
      then have "\<not> int (unat (BackupTime s)) + 86400 * int (unat r) < unix now" by linarith
      with True show ?thesis using r False by (simp add: snapshotExpired_def Let_def)
    next
      case ge: False
      then have ge': "86400 * unat r \<le> nat (unix now)" by (simp add: word_less_nat_alt nowU mult)
      have "unat (uint64_of (unix now) - r * 86400) = nat (unix now) - 86400 * unat r"
        using ge' by (subst unat_sub) (simp_all add: word_le_nat_alt nowU mult)
      then have "BackupTime s < uint64_of (unix now) - r * 86400
          \<longleftrightarrow> int (unat (BackupTime s)) + 86400 * int (unat r) < unix now"
        using ge' nonneg unfolding word_less_nat_alt by linarith
      then show ?thesis using r False ge nonneg by (simp add: snapshotExpired_def Let_def)
    qed
  qed
qed

text \<open>Reading the protection tags keeps everything of a snapshot but that flag.\<close>

definition refreshed ::
    "'s s3_client \<Rightarrow> 's \<Rightarrow> string \<Rightarrow> string list \<Rightarrow> int \<Rightarrow> u64 \<Rightarrow> Snapshot \<Rightarrow> Snapshot" where
  "refreshed c st bucket manifests now r s =
     (if snapshotExpired s now r \<noteq> Inr True \<or> S3Prefix s \<notin> set manifests then s
      else (case GetObjectTagging c st bucket (S3Prefix s @ ''/index.json.blob'') of
              Inl _ \<Rightarrow> s
            | Inr tags \<Rightarrow> s\<lparr>Protected := str_at tags ''protected'' = ''true''\<rparr>))"

lemma refresh_loop_Inr:
  "refresh_loop c st bucket manifests now r ss = Inr ss' \<Longrightarrow>
   ss' = map (refreshed c st bucket manifests now r) ss"
  by (induction ss arbitrary: ss') (auto simp: refreshed_def split: sum.splits if_splits)

lemma refreshed_identity [simp]:
  "S3Prefix (refreshed c st bucket manifests now r s) = S3Prefix s"
  "snapshotExpired (refreshed c st bucket manifests now r s) now' r' = snapshotExpired s now' r'"
proof -
  have "S3Prefix (s\<lparr>Protected := b\<rparr>) = S3Prefix s"
    "snapshotExpired (s\<lparr>Protected := b\<rparr>) now' r' = snapshotExpired s now' r'" for b
    by (simp_all add: S3Prefix_def snapshotExpired_def Let_def)
  then show "S3Prefix (refreshed c st bucket manifests now r s) = S3Prefix s"
    "snapshotExpired (refreshed c st bucket manifests now r s) now' r' = snapshotExpired s now' r'"
    by (simp_all add: refreshed_def split: sum.split)
qed

lemma manifest_prefixes_Inr:
  "manifest_prefixes objs = Inr ps \<Longrightarrow> obj \<in> set objs \<Longrightarrow> HasSuffix (Key obj) ''/index.json.blob'' \<Longrightarrow>
   snapshotPrefixForObject (Key obj) = Inr p \<Longrightarrow> p \<in> set ps"
  by (induction objs arbitrary: ps) (auto split: sum.splits if_splits)

lemma in_expired_prefixes:
  assumes "snapshotPrefixForObject (Key obj) = Inr p"
  shows "in_prefixes (expired_prefixes now r ss) obj
     \<longleftrightarrow> (\<exists>s \<in> set ss. expires now r s \<and> S3Prefix s = p)"
  using assms by (auto simp: in_prefixes_def expired_prefixes_def)

text \<open>What a removal leaves in the store.\<close>

lemma removeObjectsFully_keeps:
  assumes "removes_only c view" "b \<noteq> bucket \<or> k \<notin> Key ` set objs"
  shows "view (snd (removeObjectsFully ctx c st bucket objs)) b k = view st b k"
proof -
  have "b \<noteq> bucket \<or> k \<notin> Key ` set (take n objs)" for n
    using assms(2) by (auto dest: in_set_takeD)
  with assms show ?thesis
    unfolding removes_only_def
    by (auto simp: removeObjectsFully_def Let_def split: prod.splits option.splits)
      (metis snd_conv)+
qed

lemma removeObjectsFully_None:
  assumes "removes_all c view" "removeObjectsFully ctx c st bucket objs = (None, st')"
    and "k \<in> Key ` set objs"
  shows "view st' bucket k = None"
  using assms
  by (auto simp: removes_all_def removeObjectsFully_def errors_Join_def Let_def
      split: prod.splits if_splits option.splits)

lemma executeGCPlan_cases:
  assumes "executeGCPlan ctx c st bucket plan = (err, st')"
  obtains (backups) e where "removeObjectsFully ctx c st bucket (backupObjects plan) = (Some e, st')"
      "err \<noteq> None"
  | (indexed) e st1 where "removeObjectsFully ctx c st bucket (backupObjects plan) = (None, st1)"
      "removeObjectsFully ctx c st1 bucket (indexedObjects plan) = (Some e, st')" "err \<noteq> None"
  | (chunks) e st1 st2 where "removeObjectsFully ctx c st bucket (backupObjects plan) = (None, st1)"
      "removeObjectsFully ctx c st1 bucket (indexedObjects plan) = (None, st2)"
      "removeObjectsFully ctx c st2 bucket (chunkObjects plan) = (e, st')" "err = None \<longleftrightarrow> e = None"
  using assms by (auto simp: executeGCPlan_def split: prod.splits option.splits)

lemma executeGCPlan_keeps:
  assumes "removes_only c view" "b \<noteq> bucket \<or> k \<notin> Key ` set (backupObjects plan @ indexedObjects plan @ chunkObjects plan)"
  shows "view (snd (executeGCPlan ctx c st bucket plan)) b k = view st b k"
proof -
  obtain err st' where ex: "executeGCPlan ctx c st bucket plan = (err, st')" by fastforce
  have keep: "view st2 b k = view st1 b k"
    if "removeObjectsFully ctx c st1 bucket objs = (e, st2)"
      "set objs \<subseteq> set (backupObjects plan @ indexedObjects plan @ chunkObjects plan)" for st1 st2 objs e
    using removeObjectsFully_keeps [OF assms(1), of b bucket k objs ctx st1] assms(2) that by auto
  from ex have "view st' b k = view st b k"
    by (cases rule: executeGCPlan_cases) (auto dest!: keep)
  with ex show ?thesis by simp
qed

lemma failed_first_removal:
  assumes "removes_only c view" "executeGCPlan ctx c st bucket plan = (err, st')"
    and "fst (removeObjectsFully ctx c st bucket (backupObjects plan)) \<noteq> None"
    and "k \<notin> Key ` set (backupObjects plan)"
  shows "view st' bucket k = view st bucket k"
  using assms(2)
proof (cases rule: executeGCPlan_cases)
  case (backups e)
  with removeObjectsFully_keeps [OF assms(1), of bucket bucket k "backupObjects plan" ctx st] assms(4)
  show ?thesis by simp
qed (use assms(3) in simp_all)

lemma executeGCPlan_removes:
  assumes only: "removes_only c view" and all: "removes_all c view"
    and run: "executeGCPlan ctx c st bucket plan = (None, st')"
    and k: "k \<in> Key ` set (backupObjects plan @ indexedObjects plan @ chunkObjects plan)"
  shows "view st' bucket k = None"
proof -
from run obtain s1 s2 where
    steps: "removeObjectsFully ctx c st bucket (backupObjects plan) = (None, s1)"
    "removeObjectsFully ctx c s1 bucket (indexedObjects plan) = (None, s2)"
    "removeObjectsFully ctx c s2 bucket (chunkObjects plan) = (None, st')"
    by (cases rule: executeGCPlan_cases) auto
  note gone = steps [THEN removeObjectsFully_None [OF all]]
  have "view s2 bucket k = view s1 bucket k" if "k \<notin> Key ` set (indexedObjects plan)"
    using removeObjectsFully_keeps [OF only, of bucket bucket k _ ctx s1] steps(2) that by (metis snd_conv)
  moreover have "view st' bucket k = view s2 bucket k" if "k \<notin> Key ` set (chunkObjects plan)"
    using removeObjectsFully_keeps [OF only, of bucket bucket k _ ctx s2] steps(3) that by (metis snd_conv)
  ultimately show "view st' bucket k = None" using gone k by (metis UnE image_Un set_append)
qed

text \<open>After a successful removal of the snapshot objects they stay removed for the rest of the sweep.\<close>

lemma after_first_removal:
  assumes "removes_only c view" "removes_all c view"
    and "executeGCPlan ctx c st bucket plan = (err, st')"
    and "removeObjectsFully ctx c st bucket (backupObjects plan) = (None, s1)"
    and "k \<in> Key ` set (backupObjects plan)" "k \<notin> Key ` set (indexedObjects plan)"
      "k \<notin> Key ` set (chunkObjects plan)"
  shows "view st' bucket k = None"
proof -
  have gone: "view s1 bucket k = None" by (rule removeObjectsFully_None [OF assms(2,4,5)])
  have keep: "view y bucket k = view x bucket k"
    if "removeObjectsFully ctx c x bucket objs = (e, y)" "k \<notin> Key ` set objs" for x y objs e
    using removeObjectsFully_keeps [OF assms(1), of bucket bucket k objs ctx x] that by simp
  from assms(3) show ?thesis
  proof (cases rule: executeGCPlan_cases)
    case (indexed e st1)
    with assms(4) gone keep [OF indexed(2) assms(6)] show ?thesis by simp
  next
    case (chunks e st1 st2)
    with assms(4) gone keep [OF chunks(2) assms(6)] keep [OF chunks(3) assms(7)] show ?thesis by simp
  qed (use assms(4) in simp)
qed

section \<open>Properties\<close>

text \<open>
  C5: The mark phase computes its specification. When it succeeds, the snapshots it expires are the
  unprotected ones past the retention period; the backup objects to delete are those under their
  prefixes; a copied index is deleted when no surviving fixed index has its checksum; a chunk is
  deleted exactly when no index of a surviving snapshot lists its digest and it is not within the
  grace period; and a referenced digest without a chunk object is reported missing, with every
  index that refers to it.
\<close>

theorem buildGCPlan_spec:
  assumes "buildGCPlan snapshots backups indexed chunks now r grace load csum = Inr plan"
  defines "kept \<equiv> kept_indexes now r snapshots backups"
  shows "expiredSnapshots plan = filter (expires now r) snapshots
    \<and> backupObjects plan = filter (in_prefixes (expired_prefixes now r snapshots)) backups
    \<and> indexedObjects plan = filter (orphaned_index csum (live_checksums load kept)) indexed
    \<and> chunkObjects plan = filter (swept (is_referenced load kept) now grace) chunks
    \<and> (\<forall>d. map_of (missingChunks plan) d =
         (if is_referenced load kept d \<and> d \<notin> digest_of_chunk ` set chunks
          then Some (references load kept d) else None))"
  using build_deletes [OF assms(1)] build_missing [OF assms(1)] by (simp add: kept_def)

definition sample_object :: "string \<Rightarrow> object_info" where
  "sample_object k = mem_info k [] []"

definition sample_digest :: "byte \<Rightarrow> string" where
  "sample_digest b = hex_EncodeToString (replicate 32 b)"

definition sample_chunk :: "byte \<Rightarrow> object_info" where
  "sample_chunk b = sample_object
     (''chunks/'' @ take 2 (sample_digest b) @ ''/'' @ take 2 (drop 2 (sample_digest b)) @ ''/''
       @ drop 4 (sample_digest b))"

definition sample_load :: "object_info \<Rightarrow> parsedIndex result" where
  "sample_load obj =
     Inr \<lparr>checksum = ''c'',
          digests = (if HasPrefix (Key obj) ''backups/100|90'' then [sample_digest 1]
                     else [sample_digest 2]),
          logicalSize = 4\<rparr>"

definition sample_snapshots :: "Snapshot list" where
  "sample_snapshots =
     map (\<lambda>t. zero_snapshot\<lparr>BackupID := ''100'', BackupTime := t, BackupType := ''vm''\<rparr>) [5, 90]"

definition old_index :: object_info where
  "old_index = sample_object ''backups/100|5|vm/a.fidx''"

definition new_index :: object_info where
  "new_index = sample_object ''backups/100|90|vm/a.fidx''"

text \<open>The snapshot of second 5 expires, and only the chunk it alone refers to is swept.\<close>

lemma sample_chunk_digest: "chunkDigestFromKey (Key (sample_chunk b)) = Inr (sample_digest b)"
  unfolding sample_chunk_def sample_object_def sample_digest_def mem_info_def object_info.simps
  by (rule chunkDigestFromKey_key) simp_all

lemma sample_digest_eq [simp]: "sample_digest a = sample_digest b \<longleftrightarrow> a = b"
  by (simp add: sample_digest_def)

lemma sample_mark:
  "mark_expired 50000000000 0 sample_snapshots = Inr [hd sample_snapshots]"
  "map S3Prefix [hd sample_snapshots] = [''backups/100|5|vm'']"
  "snapshotPrefixForObject (Key old_index) = Inr ''backups/100|5|vm''"
  "snapshotPrefixForObject (Key new_index) = Inr ''backups/100|90|vm''"
  "is_index_key (Key new_index)" "HasSuffix (Key new_index) ''.fidx''"
  by code_simp+

lemma sample_scan:
  "scan_backups sample_load [''backups/100|5|vm''] [old_index, new_index]
     (empty_plan\<lparr>expiredSnapshots := [hd sample_snapshots]\<rparr>, [])
   = Inr (empty_plan\<lparr>expiredSnapshots := [hd sample_snapshots], backupObjects := [old_index],
            knownChunks := [(sample_digest 1, [Key new_index])],
            archiveSizes := [(Key new_index, 4)]\<rparr>, [''c''])"
  by (simp add: sample_mark sample_load_def record_index_def add_reference_def)
    (simp add: new_index_def sample_object_def mem_info_def HasPrefix_def)

lemma sample_build:
  "buildGCPlan sample_snapshots [old_index, new_index] [] [sample_chunk 1, sample_chunk 2]
     50000000000 0 1000000000 sample_load (\<lambda>_. Inr ''c'')
   = Inr (empty_plan\<lparr>expiredSnapshots := [hd sample_snapshots], backupObjects := [old_index],
            chunkObjects := [sample_chunk 2],
            knownChunks := [(sample_digest 1, [Key new_index])],
            existingChunks := [(sample_digest 1, True)], chunkSizes := [(sample_digest 1, 0)],
            archiveSizes := [(Key new_index, 4)]\<rparr>)"
proof -
  have "LastModified (sample_chunk b) = 0" "ObjectSize (sample_chunk b) = 0" for b
    by (simp_all add: sample_chunk_def sample_object_def mem_info_def)
  then show ?thesis
    unfolding buildGCPlan_def sample_mark(1,2) sum.case sample_scan prod.case
    by (simp add: sample_chunk_digest scan_chunk_def withinGracePeriod_def mark_missing_def
        empty_plan_def uint64_of_def)
qed

theorem buildGCPlan_spec_witness:
  "filter (swept (is_referenced sample_load (kept_indexes 50000000000 0
      sample_snapshots [old_index, new_index])) 50000000000 1000000000)
      [sample_chunk 1, sample_chunk 2] = [sample_chunk 2]"
  using buildGCPlan_spec [OF sample_build] by simp

text \<open>
  C16: The mark phase fails closed, and only then. It yields a plan exactly when the retention
  arithmetic is in range, every backup key and every chunk key parses, every index of a surviving
  snapshot loads and every copied index has a checksum; a single bad object leaves no plan at all.
\<close>

theorem buildGCPlan_fails_closed:
  "succeeds (buildGCPlan snapshots backups indexed chunks now r grace load csum)
     \<longleftrightarrow> build_inputs_ok snapshots backups indexed chunks now r load csum"
proof (cases "mark_expired now r snapshots")
  case (Inl e)
  then show ?thesis
    using mark_expired_succeeds [of now r snapshots] by (simp add: buildGCPlan_def build_inputs_ok_def)
next
  case (Inr ex)
  then have ex: "map S3Prefix ex = expired_prefixes now r snapshots"
    using mark_expired_Inr [OF Inr] by (simp add: expired_prefixes_def)
  let ?scan = "scan_backups load (expired_prefixes now r snapshots) backups
    (empty_plan\<lparr>expiredSnapshots := ex\<rparr>, [])"
  have mark: "list_all (\<lambda>s. succeeds (snapshotExpired s now r)) snapshots"
    using mark_expired_succeeds [of now r snapshots] by (simp add: Inr)
  note scan = scan_backups_succeeds [of load "expired_prefixes now r snapshots" backups
      "empty_plan\<lparr>expiredSnapshots := ex\<rparr>" "[]"]
  show ?thesis
  proof (cases ?scan)
    case Inl
    with scan show ?thesis
      by (auto simp: buildGCPlan_def \<open>mark_expired now r snapshots = Inr ex\<close> ex build_inputs_ok_def
          kept_indexes_def)
  next
    case (Inr x)
    obtain plan1 kh where x: "x = (plan1, kh)" by fastforce
    have "succeeds (buildGCPlan snapshots backups indexed chunks now r grace load csum)
        \<longleftrightarrow> list_all (\<lambda>obj. succeeds (csum obj)) indexed
          \<and> list_all (\<lambda>obj. succeeds (chunkDigestFromKey (Key obj))) chunks"
      using scan_indexed_succeeds [of csum kh indexed plan1] scan_chunks_succeeds [of now grace chunks]
      by (cases "scan_indexed csum kh indexed plan1")
        (simp_all add: buildGCPlan_def \<open>mark_expired now r snapshots = Inr ex\<close> ex Inr x succeeds_case)
    with scan mark show ?thesis by (simp add: Inr build_inputs_ok_def kept_indexes_def)
  qed
qed

text \<open>
  C15: A protected snapshot is never scheduled. Whatever protection flag the listing gave a snapshot,
  when the manifest of the snapshot is listed and its tags say \<open>protected=true\<close>, no object of the
  snapshot is among the backup objects that the following mark phase schedules for deletion.
\<close>

theorem protected_snapshot_not_scheduled:
  assumes refresh: "refreshExpiredSnapshotProtection c st bucket snapshots backups now r = Inr ss"
    and build: "buildGCPlan ss backups indexed chunks now r grace load csum = Inr plan"
    and s: "wf_identity s" "S3Prefix s @ ''/index.json.blob'' \<in> Key ` set backups"
    and tags: "GetObjectTagging c st bucket (S3Prefix s @ ''/index.json.blob'') = Inr tags"
      "str_at tags ''protected'' = ''true''"
    and obj: "Key obj = S3Prefix s @ ''/'' @ f"
  shows "obj \<notin> set (backupObjects plan)"
proof -
  from refresh obtain ms where ms: "manifest_prefixes backups = Inr ms"
    and ss: "ss = map (refreshed c st bucket ms now r) snapshots"
    by (auto simp: refreshExpiredSnapshotProtection_def refresh_loop_Inr split: sum.splits)
  obtain m where m: "m \<in> set backups" "Key m = S3Prefix s @ ''/'' @ ''index.json.blob''"
    using s(2) by auto
  have "HasSuffix (Key m) ''/index.json.blob''" using m(2) by (simp add: HasSuffix_iff)
  then have "S3Prefix s \<in> set ms"
    using manifest_prefixes_Inr [OF ms m(1)] m(2) snapshotPrefixForObject_S3Prefix [OF s(1)] by simp
  then have "Protected (refreshed c st bucket ms now r s')"
    if "S3Prefix s' = S3Prefix s" "snapshotExpired s' now r = Inr True" for s'
    using that tags by (simp add: refreshed_def)
  then have "\<not> in_prefixes (expired_prefixes now r ss) obj"
    using snapshotPrefixForObject_S3Prefix [OF s(1), of f] obj
    by (auto simp: in_expired_prefixes ss expires_def)
  with build_deletes(2) [OF build] show ?thesis by simp
qed

definition tagged_store :: mem_store where
  "tagged_store =
     [((''ds'', ''backups/100|5|vm/index.json.blob''),
       ([], (sample_object ''backups/100|5|vm/index.json.blob'')\<lparr>UserTags := [(''protected'', ''true'')]\<rparr>))]"

theorem protected_snapshot_not_scheduled_witness:
  "old_index \<notin> set (backupObjects (empty_plan\<lparr>knownChunks := [(sample_digest 2, [Key old_index])],
      archiveSizes := [(Key old_index, 4)],
      missingChunks := [(sample_digest 2, [Key old_index])]\<rparr>))"
proof -
  let ?s = "hd sample_snapshots"
  let ?m = "sample_object ''backups/100|5|vm/index.json.blob''"
  have s: "wf_identity ?s" "S3Prefix ?s = ''backups/100|5|vm''" by code_simp+
  have keys: "snapshotPrefixForObject (Key ?m) = Inr ''backups/100|5|vm''"
    "snapshotPrefixForObject (Key old_index) = Inr ''backups/100|5|vm''"
    "HasSuffix (Key ?m) ''/index.json.blob''" "\<not> HasSuffix (Key old_index) ''/index.json.blob''"
    "\<not> is_index_key (Key ?m)" "is_index_key (Key old_index)"
    "\<not> HasPrefix (Key old_index) ''backups/100|90''"
    "snapshotExpired ?s 50000000000 0 = Inr True"
    "snapshotExpired (?s\<lparr>Protected := True\<rparr>) 50000000000 0 = Inr True"
    by code_simp+
  have tags: "GetObjectTagging mem_client tagged_store ''ds'' ''backups/100|5|vm/index.json.blob''
      = Inr [(''protected'', ''true'')]"
    by (simp add: mem_client_def tagged_store_def)
  have 1: "refreshExpiredSnapshotProtection mem_client tagged_store ''ds'' [?s] [?m, old_index]
      50000000000 0 = Inr [?s\<lparr>Protected := True\<rparr>]"
    using tags by (simp add: refreshExpiredSnapshotProtection_def keys s str_at_def)
  have 2: "buildGCPlan [?s\<lparr>Protected := True\<rparr>] [?m, old_index] [] [] 50000000000 0 0
      sample_load (\<lambda>_. Inr ''c'')
    = Inr (empty_plan\<lparr>knownChunks := [(sample_digest 2, [Key old_index])],
        archiveSizes := [(Key old_index, 4)], missingChunks := [(sample_digest 2, [Key old_index])]\<rparr>)"
    by (simp add: buildGCPlan_def keys sample_load_def record_index_def add_reference_def mark_missing_def
        empty_plan_def)
  show ?thesis
    by (rule protected_snapshot_not_scheduled [OF 1 2 s(1), where f = "''a.fidx''"
          and tags = "[(''protected'', ''true'')]"])
      (use tags s in \<open>simp_all add: sample_object_def old_index_def mem_info_def str_at_Cons\<close>)
qed

text \<open>
  The expiry of a snapshot is decided without overflow. For a clock that fits an \<open>int64\<close>, the
  retention check either reports that the period is too long for 64 bits or says exactly whether
  backup time plus retention lies in the past, as unbounded integers.
\<close>

theorem snapshotExpired_exact:
  assumes "unix now < 2 ^ 63"
  shows "snapshotExpired s now r =
    (if unat r > 213503982334601 then Inl (Error ''retention period overflows seconds'')
     else Inr (int (unat (BackupTime s)) + 86400 * int (unat r) < unix now))"
  using snapshotExpired_exact_nat [OF assms] by simp

theorem snapshotExpired_exact_witness:
  "snapshotExpired zero_snapshot 50000000000 0 = Inr True"
  using snapshotExpired_exact [of 50000000000 zero_snapshot 0]
  by (simp add: unix_def zero_snapshot_def)

text \<open>
  The grace period in hours is converted to nanoseconds without overflow: it is refused above
  2562047 hours and exact below.
\<close>

theorem hoursDuration_exact:
  "hoursDuration hours =
     (if unat hours \<le> 2562047 then Inr (int (unat hours) * 3600000000000)
      else Inl (Error ''grace period overflows time.Duration''))"
proof (cases "unat hours \<le> 2562047")
  case True
  then have le: "\<not> hours > word_of_int ((2 ^ 63 - 1) div hour_ns)"
    by (simp add: hour_ns_def word_less_nat_alt)
  have "unat (hours * word_of_int hour_ns) = unat hours * 3600000000000"
    using True unfolding hour_ns_def by (subst unat_mult_lem [THEN iffD1]) simp_all
  from arg_cong [OF this, of int]
  have u: "uint (hours * word_of_int hour_ns) = int (unat hours) * 3600000000000" by simp
  then have "uint (hours * word_of_int hour_ns) \<le> 2562047 * 3600000000000" using True by linarith
  also have "\<dots> < 2 ^ 63" by simp
  finally have "int64_of (hours * word_of_int hour_ns) = int (unat hours) * 3600000000000"
    by (simp add: int64_of_small u)
  with True le show ?thesis by (simp add: hoursDuration_def)
next
  case False
  then have "hours > word_of_int ((2 ^ 63 - 1) div hour_ns)"
    by (simp add: hour_ns_def word_less_nat_alt)
  with False show ?thesis by (simp add: hoursDuration_def)
qed

text \<open>
  C18: The sweep deletes in the order of the plan and stops at the first failure. Nothing outside the
  plan is touched; after a failure to delete snapshot objects no copied index and no chunk is
  removed, and after a failure to delete copied indexes no chunk is removed; and when the sweep
  reports success, everything in the plan is gone.
\<close>

theorem executeGCPlan_order:
  assumes only: "removes_only c view" and all: "removes_all c view"
    and run: "executeGCPlan ctx c st bucket plan = (err, st')"
  shows "(k \<notin> Key ` set (backupObjects plan @ indexedObjects plan @ chunkObjects plan)
      \<longrightarrow> view st' bucket k = view st bucket k)
    \<and> (fst (removeObjectsFully ctx c st bucket (backupObjects plan)) \<noteq> None
        \<longrightarrow> k \<notin> Key ` set (backupObjects plan) \<longrightarrow> err \<noteq> None \<and> view st' bucket k = view st bucket k)
    \<and> (removeObjectsFully ctx c st bucket (backupObjects plan) = (None, st1) \<longrightarrow>
        fst (removeObjectsFully ctx c st1 bucket (indexedObjects plan)) \<noteq> None
        \<longrightarrow> k \<notin> Key ` set (backupObjects plan @ indexedObjects plan)
        \<longrightarrow> err \<noteq> None \<and> view st' bucket k = view st bucket k)
    \<and> (err = None \<longrightarrow> k \<in> Key ` set (backupObjects plan @ indexedObjects plan @ chunkObjects plan)
        \<longrightarrow> view st' bucket k = None)"
proof (intro conjI impI)
  assume "k \<notin> Key ` set (backupObjects plan @ indexedObjects plan @ chunkObjects plan)"
  then show "view st' bucket k = view st bucket k"
    using executeGCPlan_keeps [OF only, of bucket bucket k plan ctx st] run by auto
next
  assume *: "fst (removeObjectsFully ctx c st bucket (backupObjects plan)) \<noteq> None"
    "k \<notin> Key ` set (backupObjects plan)"
  from run * show "err \<noteq> None" by (cases rule: executeGCPlan_cases) auto
  show "view st' bucket k = view st bucket k" by (rule failed_first_removal [OF only run *])
next
  assume *: "removeObjectsFully ctx c st bucket (backupObjects plan) = (None, st1)"
    "fst (removeObjectsFully ctx c st1 bucket (indexedObjects plan)) \<noteq> None"
    "k \<notin> Key ` set (backupObjects plan @ indexedObjects plan)"
  from run * show "err \<noteq> None" by (cases rule: executeGCPlan_cases) auto
  from run * show "view st' bucket k = view st bucket k"
    using removeObjectsFully_keeps [OF only, of bucket bucket k "backupObjects plan" ctx st]
      removeObjectsFully_keeps [OF only, of bucket bucket k "indexedObjects plan" ctx st1]
    by (cases rule: executeGCPlan_cases) (auto simp: image_Un)
next
  assume *: "err = None" "k \<in> Key ` set (backupObjects plan @ indexedObjects plan @ chunkObjects plan)"
  from executeGCPlan_removes [OF only all _ *(2)] run *(1) show "view st' bucket k = None" by simp
qed

theorem executeGCPlan_order_witness:
  "mem_view (snd (executeGCPlan None mem_client tagged_store ''ds''
      (empty_plan\<lparr>backupObjects := [sample_object ''backups/100|5|vm/index.json.blob'']\<rparr>)))
     ''ds'' ''backups/100|5|vm/index.json.blob'' = None"
proof -
  let ?p = "empty_plan\<lparr>backupObjects := [sample_object ''backups/100|5|vm/index.json.blob'']\<rparr>"
  have "executeGCPlan None mem_client tagged_store ''ds'' ?p
      = (None, snd (executeGCPlan None mem_client tagged_store ''ds'' ?p))"
    by (simp add: executeGCPlan_def removeObjectsFully_def mem_client_def errors_Join_def)
  from executeGCPlan_order [OF mem_removes_only mem_removes_all this,
      of "''backups/100|5|vm/index.json.blob''"] show ?thesis
    by (simp add: sample_object_def mem_info_def)
qed

end
