(* ===== verification/UsageStats.thy ===== *)
theory UsageStats
  imports Collector "HOL-Library.List_Lexorder" "HOL-Library.Char_ord" "HOL-Library.Multiset"
begin

text \<open>
  \<open>cmd/garbagecollector/stats.go\<close> and \<open>internal/s3pmoxcommon/usagestats.go\<close>: the deduplication
  report computed from the maps of the mark phase.

  The Go code ranges over three maps and fills a map of per-snapshot figures through pointers. Here
  the maps are association lists and the loops are folds; since Go leaves the order of a map open,
  the report is shown to be the same for every order of the entries. Strings are ordered by their
  bytes (\<open>List_Lexorder\<close> over \<open>Char_ord\<close>), as \<open>sort.Slice\<close> with \<open><\<close> orders them.
\<close>

section \<open>Data\<close>

definition UsageStatsObject :: string where
  "UsageStatsObject = ''usage-stats.json''"

record SnapshotUsage =
  UsageSnapshot :: string
  LogicalBytes :: u64
  ReferencedBytes :: u64
  ExclusiveBytes :: u64
  UsageChunks :: u64

record UsageStats =
  Generated :: int
  TotalChunkBytes :: u64
  TotalChunks :: u64
  TotalLogicalBytes :: u64
  UsageSnapshots :: "SnapshotUsage list"

section \<open>Operations\<close>

definition snapshotOfIndex :: "string \<Rightarrow> string" where
  "snapshotOfIndex indexKey =
     (let parts = Split indexKey CHR ''/'' in
      if length parts < 3 then indexKey else parts ! 0 @ ''/'' @ parts ! 1)"

type_synonym usage_map = "(string, SnapshotUsage) gomap"

text \<open>\<open>get(name)\<close> finds the figures of a snapshot, or starts them at zero.\<close>

definition get_usage :: "usage_map \<Rightarrow> string \<Rightarrow> SnapshotUsage" where
  "get_usage perSnapshot name =
     (case map_of perSnapshot name of
        Some u \<Rightarrow> u
      | None \<Rightarrow> \<lparr>UsageSnapshot = name, LogicalBytes = 0, ReferencedBytes = 0, ExclusiveBytes = 0,
                 UsageChunks = 0\<rparr>)"

definition add_logical :: "usage_map \<Rightarrow> string \<times> u64 \<Rightarrow> usage_map" where
  "add_logical perSnapshot entry =
     (case entry of (indexKey, sz) \<Rightarrow>
        let u = get_usage perSnapshot (snapshotOfIndex indexKey) in
        AList.update (snapshotOfIndex indexKey)
          (u\<lparr>LogicalBytes := LogicalBytes u + sz\<rparr>) perSnapshot)"

definition owners_of :: "string list \<Rightarrow> string list" where
  "owners_of indexes = remdups (map snapshotOfIndex indexes)"

definition charge_owner :: "u64 \<Rightarrow> bool \<Rightarrow> usage_map \<Rightarrow> string \<Rightarrow> usage_map" where
  "charge_owner sz alone perSnapshot owner =
     (let u = get_usage perSnapshot owner;
          u1 = u\<lparr>ReferencedBytes := ReferencedBytes u + sz, UsageChunks := UsageChunks u + 1\<rparr>
      in AList.update owner
           (if alone then u1\<lparr>ExclusiveBytes := ExclusiveBytes u1 + sz\<rparr> else u1) perSnapshot)"

text \<open>One iteration over the known chunks: the totals and the figures of every owner.\<close>

definition charge_chunk ::
    "(string, u64) gomap \<Rightarrow> (u64 \<times> u64) \<times> usage_map \<Rightarrow> string \<times> string list
      \<Rightarrow> (u64 \<times> u64) \<times> usage_map" where
  "charge_chunk sizes acc entry =
     (case acc of ((chunks, bytes), perSnapshot) \<Rightarrow>
      case entry of (digest, indexes) \<Rightarrow>
        let sz = (case map_of sizes digest of None \<Rightarrow> 0 | Some n \<Rightarrow> n);
            owners = owners_of indexes
        in ((chunks + 1, bytes + sz),
            foldl (charge_owner sz (length owners = 1)) perSnapshot owners))"

definition computeUsageStats ::
    "int \<Rightarrow> (string, string list) gomap \<Rightarrow> (string, u64) gomap \<Rightarrow> (string, u64) gomap
      \<Rightarrow> UsageStats" where
  "computeUsageStats now known sizes archives =
     (case foldl (charge_chunk sizes) ((0, 0), foldl add_logical [] archives) known of
        ((chunks, bytes), perSnapshot) \<Rightarrow>
          \<lparr>Generated = unix now, TotalChunkBytes = bytes, TotalChunks = chunks,
           TotalLogicalBytes = foldl (\<lambda>n (_, u). n + LogicalBytes u) 0 perSnapshot,
           UsageSnapshots = sort_key UsageSnapshot (map snd perSnapshot)\<rparr>)"

text \<open>
  The encoder \<open>encoding/json\<close> turns the report into bytes or an error. A failure to encode or to
  store leaves a warning in the log and nothing else.
\<close>

definition writeUsageStats ::
    "(UsageStats \<Rightarrow> bytes result) \<Rightarrow> int \<Rightarrow> 's s3_client \<Rightarrow> 's \<Rightarrow> string
      \<Rightarrow> (string, string list) gomap \<Rightarrow> (string, u64) gomap \<Rightarrow> (string, u64) gomap \<Rightarrow> 's" where
  "writeUsageStats json_Marshal now c st bucket known sizes archives =
     (case json_Marshal (computeUsageStats now known sizes archives) of
        Inl _ \<Rightarrow> st
      | Inr payload \<Rightarrow>
          snd (PutObject c st bucket UsageStatsObject (bytes_NewReader payload)
                 (int (length payload))
                 \<lparr>StorageClass = [], PutMetadata = [], ContentType = ''application/json''\<rparr>))"

section \<open>The declarative reading of the report\<close>

definition size_of_chunk :: "(string, u64) gomap \<Rightarrow> string \<Rightarrow> u64" where
  "size_of_chunk sizes digest = (case map_of sizes digest of None \<Rightarrow> 0 | Some n \<Rightarrow> n)"

definition usage_of ::
    "(string, string list) gomap \<Rightarrow> (string, u64) gomap \<Rightarrow> (string, u64) gomap \<Rightarrow> string
      \<Rightarrow> SnapshotUsage" where
  "usage_of known sizes archives name =
     \<lparr>UsageSnapshot = name,
      LogicalBytes = (\<Sum>(k, n) \<leftarrow> archives. if snapshotOfIndex k = name then n else 0),
      ReferencedBytes = (\<Sum>(d, is) \<leftarrow> known.
        if name \<in> set (owners_of is) then size_of_chunk sizes d else 0),
      ExclusiveBytes = (\<Sum>(d, is) \<leftarrow> known.
        if owners_of is = [name] then size_of_chunk sizes d else 0),
      UsageChunks = (\<Sum>(d, is) \<leftarrow> known. if name \<in> set (owners_of is) then 1 else 0)\<rparr>"

definition usage_names ::
    "(string, string list) gomap \<Rightarrow> (string, u64) gomap \<Rightarrow> string set" where
  "usage_names known archives =
     snapshotOfIndex ` fst ` set archives \<union> (\<Union>(d, is) \<in> set known. snapshotOfIndex ` set is)"

section \<open>Lemmas\<close>

text \<open>
  The figures of a name as the loops fill them: an invariant of both folds, with what the folds
  have consumed so far as its parameters.
\<close>

definition usage_inv ::
    "(string, u64) gomap \<Rightarrow> (string, string list) gomap \<Rightarrow> (string, u64) gomap \<Rightarrow> usage_map \<Rightarrow> bool" where
  "usage_inv sizes known archives m \<longleftrightarrow>
     distinct (map fst m) \<and> fst ` set m = usage_names known archives
     \<and> (\<forall>name. get_usage m name = usage_of known sizes archives name)"

lemma get_usage_update:
  "get_usage (AList.update k u m) name = (if name = k then u else get_usage m name)"
  by (simp add: get_usage_def map_of_update)

lemma usage_inv_Nil: "usage_inv sizes [] [] []"
  by (simp add: usage_inv_def usage_names_def get_usage_def usage_of_def)

lemma usage_inv_logical:
  assumes "usage_inv sizes [] archives m"
  shows "usage_inv sizes [] (archives @ [entry]) (add_logical m entry)"
proof -
  obtain k n where e: "entry = (k, n)" by fastforce
  have "fst ` set (add_logical m entry) = usage_names [] (archives @ [entry])"
    using assms by (simp add: e add_logical_def Let_def usage_inv_def keys_update usage_names_def)
  moreover have "distinct (map fst (add_logical m entry))"
    using assms by (simp add: e add_logical_def Let_def usage_inv_def distinct_keys_update)
  moreover have "get_usage (add_logical m entry) name = usage_of [] sizes (archives @ [entry]) name" for name
    using assms by (simp add: e add_logical_def Let_def usage_inv_def get_usage_update usage_of_def)
  ultimately show ?thesis by (simp add: usage_inv_def)
qed

lemma usage_inv_logicals: "usage_inv sizes [] archives (foldl add_logical [] archives)"
  by (induction archives rule: rev_induct) (simp_all add: usage_inv_Nil usage_inv_logical)

definition charged :: "u64 \<Rightarrow> bool \<Rightarrow> SnapshotUsage \<Rightarrow> SnapshotUsage" where
  "charged sz alone u =
     u\<lparr>ReferencedBytes := ReferencedBytes u + sz, UsageChunks := UsageChunks u + 1,
       ExclusiveBytes := ExclusiveBytes u + (if alone then sz else 0)\<rparr>"

lemma charge_owner_charged:
  "charge_owner sz alone m owner = AList.update owner (charged sz alone (get_usage m owner)) m"
  by (simp add: charge_owner_def charged_def Let_def)

lemma charge_owners:
  assumes "distinct owners" "distinct (map fst m)"
  shows "distinct (map fst (foldl (charge_owner sz alone) m owners))
    \<and> fst ` set (foldl (charge_owner sz alone) m owners) = fst ` set m \<union> set owners
    \<and> (\<forall>name. get_usage (foldl (charge_owner sz alone) m owners) name
         = (if name \<in> set owners then charged sz alone (get_usage m name) else get_usage m name))"
  using assms
proof (induction owners arbitrary: m)
  case (Cons x xs)
  then have "distinct (map fst (charge_owner sz alone m x))"
    by (simp add: charge_owner_charged distinct_keys_update)
  with Cons.IH [OF _ this] Cons.prems show ?case
    by (auto simp: charge_owner_charged keys_update get_usage_update)
qed simp

lemma owners_of_singleton:
  "owners_of is = [name] \<longleftrightarrow> name \<in> set (owners_of is) \<and> length (owners_of is) = 1"
  by (auto simp: length_Suc_conv)

lemma usage_inv_chunk:
  assumes "usage_inv sizes known archives m"
  shows "usage_inv sizes (known @ [entry]) archives (snd (charge_chunk sizes (tot, m) entry))"
proof -
  obtain d "is" where e: "entry = (d, is)" by fastforce
  obtain a b where t: "tot = (a, b)" by fastforce
  let ?m = "foldl (charge_owner (size_of_chunk sizes d) (length (owners_of is) = 1)) m (owners_of is)"
  have m: "snd (charge_chunk sizes (tot, m) entry) = ?m"
    by (simp add: charge_chunk_def e t Let_def size_of_chunk_def)
  note owners = charge_owners [of "owners_of is" m "size_of_chunk sizes d" "length (owners_of is) = 1"]
  have pre: "distinct (owners_of is)" "distinct (map fst m)"
    using assms by (simp_all add: owners_of_def usage_inv_def)
  have set_owners: "set (owners_of is) = snapshotOfIndex ` set is" by (simp add: owners_of_def)
  have "get_usage ?m name = usage_of (known @ [entry]) sizes archives name" for name
    using owners pre assms
    by (cases "name \<in> set (owners_of is)")
      (simp_all add: usage_inv_def usage_of_def e charged_def owners_of_singleton)
  moreover have "fst ` set ?m = usage_names (known @ [entry]) archives"
    using owners pre assms by (auto simp: usage_inv_def usage_names_def e set_owners)
  ultimately show ?thesis
    unfolding m usage_inv_def using owners pre by simp
qed

lemma usage_inv_chunks:
  assumes "usage_inv sizes [] archives m"
  shows "usage_inv sizes known archives (snd (foldl (charge_chunk sizes) (tot, m) known))"
proof (induction known rule: rev_induct)
  case (snoc entry known)
  from usage_inv_chunk [OF snoc, of entry "fst (foldl (charge_chunk sizes) (tot, m) known)"]
  show ?case by simp
qed (simp add: assms)

lemma fst_charge_chunks:
  "fst (foldl (charge_chunk sizes) ((a, b), m) known)
     = (a + of_nat (length known), b + (\<Sum>(d, is) \<leftarrow> known. size_of_chunk sizes d))"
proof (induction known arbitrary: a b m)
  case (Cons entry known)
  obtain d "is" where e: "entry = (d, is)" by fastforce
  have "fst (foldl (charge_chunk sizes) ((a, b), m) (entry # known))
      = fst (foldl (charge_chunk sizes) ((a + 1, b + size_of_chunk sizes d),
          snd (charge_chunk sizes ((a, b), m) entry)) known)"
    by (simp add: charge_chunk_def e Let_def size_of_chunk_def)
  then show ?case by (simp add: Cons.IH e algebra_simps)
qed simp

lemma map_snd_keys:
  assumes "distinct (map fst m)" "\<forall>name. get_usage m name = f name"
  shows "map snd m = map (\<lambda>(k, _). f k) m"
proof -
  have "u = f k" if "(k, u) \<in> set m" for k u
    using map_of_is_SomeI [OF assms(1) that] assms(2) by (auto simp: get_usage_def split: option.splits)
  then show ?thesis by auto
qed

text \<open>Sorting figures by name is listing the names in order.\<close>

lemma filter_eq_distinct: "distinct xs \<Longrightarrow> filter ((=) k) xs = (if k \<in> set xs then [k] else [])"
  by (induction xs) auto

lemma sort_key_names:
  assumes "distinct ks" "\<forall>k. UsageSnapshot (f k) = k"
  shows "sort_key UsageSnapshot (map f ks) = map f (sorted_list_of_set (set ks))"
proof (rule properties_for_sort_key)
  have eq: "sorted_list_of_set (set ks) = sort ks"
    using assms(1) by (simp add: sorted_list_of_set_sort_remdups distinct_remdups_id)
  show "mset (map f (sorted_list_of_set (set ks))) = mset (map f ks)" by (simp add: eq)
  show "sorted (map UsageSnapshot (map f (sorted_list_of_set (set ks))))"
    using assms(2) by (simp add: comp_def)
  show "filter (\<lambda>x. UsageSnapshot k = UsageSnapshot x) (map f (sorted_list_of_set (set ks)))
      = filter (\<lambda>x. UsageSnapshot k = UsageSnapshot x) (map f ks)" for k
    using assms filter_eq_distinct [of ks "UsageSnapshot k"]
      filter_eq_distinct [of "sorted_list_of_set (set ks)" "UsageSnapshot k"]
    by (simp add: filter_map comp_def)
qed

text \<open>The logical bytes of the snapshots add up to those of the archives.\<close>

lemma sum_logical:
  assumes "finite N" "\<forall>(k, n) \<in> set archives. snapshotOfIndex k \<in> N"
  shows "(\<Sum>name \<in> N. LogicalBytes (usage_of known sizes archives name)) = (\<Sum>(k, n) \<leftarrow> archives. n)"
  using assms(2)
proof (induction archives)
  case (Cons e archives)
  obtain k n where e: "e = (k, n)" by fastforce
  have "(\<Sum>name \<in> N. LogicalBytes (usage_of known sizes (e # archives) name))
      = (\<Sum>name \<in> N. if snapshotOfIndex k = name then n else 0)
        + (\<Sum>name \<in> N. LogicalBytes (usage_of known sizes archives name))"
    by (simp add: e usage_of_def flip: sum.distrib)
  with Cons e assms(1) show ?case by simp
qed (simp add: usage_of_def)

lemma foldl_sum: "foldl (\<lambda>n (_, u). n + g u) a m = a + (\<Sum>(_, u) \<leftarrow> m. g u)"
  for a :: u64
  by (induction m arbitrary: a) (auto simp: algebra_simps)

text \<open>The report, field by field.\<close>

lemma computeUsageStats_fields:
  "UsageSnapshots (computeUsageStats now known sizes archives)
     = map (usage_of known sizes archives) (sorted_list_of_set (usage_names known archives))"
  "TotalChunks (computeUsageStats now known sizes archives) = of_nat (length known)"
  "TotalChunkBytes (computeUsageStats now known sizes archives)
     = (\<Sum>(d, is) \<leftarrow> known. size_of_chunk sizes d)"
  "TotalLogicalBytes (computeUsageStats now known sizes archives) = (\<Sum>(k, n) \<leftarrow> archives. n)"
proof -
  obtain tot m where fold: "foldl (charge_chunk sizes) ((0, 0), foldl add_logical [] archives) known = (tot, m)"
    by fastforce
  then have inv: "usage_inv sizes known archives m"
    using usage_inv_chunks [OF usage_inv_logicals, where known = known and tot = "(0, 0)"
        and sizes = sizes and archives = archives] by simp
  have tot: "tot = (of_nat (length known), \<Sum>(d, is) \<leftarrow> known. size_of_chunk sizes d)"
    using fst_charge_chunks [of sizes 0 0 "foldl add_logical [] archives" known] fold by simp
  have snds: "map snd m = map (\<lambda>(k, _). usage_of known sizes archives k) m"
    using inv by (intro map_snd_keys) (auto simp: usage_inv_def)
  then have snds': "map snd m = map (usage_of known sizes archives) (map fst m)"
    by (simp add: case_prod_unfold)
  have "distinct (map fst m)" "\<forall>k. UsageSnapshot (usage_of known sizes archives k) = k"
    using inv by (simp_all add: usage_inv_def usage_of_def)
  from sort_key_names [OF this] have "sort_key UsageSnapshot (map snd m)
      = map (usage_of known sizes archives) (sorted_list_of_set (set (map fst m)))"
    by (simp only: snds')
  with inv fold show "UsageSnapshots (computeUsageStats now known sizes archives)
     = map (usage_of known sizes archives) (sorted_list_of_set (usage_names known archives))"
    by (simp add: computeUsageStats_def usage_inv_def split: prod.splits)
  show "TotalChunks (computeUsageStats now known sizes archives) = of_nat (length known)"
    "TotalChunkBytes (computeUsageStats now known sizes archives)
     = (\<Sum>(d, is) \<leftarrow> known. size_of_chunk sizes d)"
    using fold tot by (simp_all add: computeUsageStats_def)
  have "(\<Sum>(_, u) \<leftarrow> m. LogicalBytes u) = (\<Sum>u \<leftarrow> map snd m. LogicalBytes u)"
    by (simp add: case_prod_unfold comp_def)
  also have "\<dots> = (\<Sum>k \<leftarrow> map fst m. LogicalBytes (usage_of known sizes archives k))"
    by (simp add: snds case_prod_unfold comp_def)
  also have "\<dots> = (\<Sum>k \<in> set (map fst m). LogicalBytes (usage_of known sizes archives k))"
    using inv by (intro sum_list_distinct_conv_sum_set) (simp add: usage_inv_def)
  also have "\<dots> = (\<Sum>(k, n) \<leftarrow> archives. n)"
    using inv by (intro sum_logical) (auto simp: usage_inv_def usage_names_def rev_image_eqI)
  finally show "TotalLogicalBytes (computeUsageStats now known sizes archives) = (\<Sum>(k, n) \<leftarrow> archives. n)"
    using fold by (simp add: computeUsageStats_def foldl_sum split: prod.splits)
qed

text \<open>Two orders of the entries of a map.\<close>

lemma sum_list_mset_cong: "mset xs = mset ys \<Longrightarrow> sum_list (map f xs) = sum_list (map f ys)"
  for f :: "'a \<Rightarrow> u64"
  by (metis mset_map sum_mset_sum_list)

lemma map_of_mset_cong:
  "mset xs = mset ys \<Longrightarrow> distinct (map fst xs) \<Longrightarrow> map_of xs = map_of ys"
  by (metis map_of_inject_set mset_eq_imp_distinct_iff mset_eq_setD mset_map)

lemma usage_of_mset_cong:
  assumes "mset known = mset known'" "mset archives = mset archives'" "map_of sizes = map_of sizes'"
  shows "usage_of known sizes archives = usage_of known' sizes' archives'"
proof -
  have eq: "size_of_chunk sizes = size_of_chunk sizes'"
    by (intro ext) (simp add: size_of_chunk_def assms(3))
  have "usage_of known sizes archives = usage_of known sizes' archives"
    unfolding usage_of_def eq ..
  also have "\<dots> = usage_of known' sizes' archives'"
    using assms(1,2) [THEN sum_list_mset_cong] by (intro ext) (simp add: usage_of_def)
  finally show ?thesis .
qed

section \<open>Properties\<close>

text \<open>
  C30: The usage report is what its documentation promises. Per snapshot, in the order of the names:
  the logical bytes of its archives, the bytes and number of the chunks it refers to, each chunk
  counted once however often it is referred to, and the bytes of the chunks no other snapshot refers
  to; in total, the number and bytes of all known chunks and the logical bytes of all archives. All
  sums are modulo 2 to the 64.
\<close>

theorem computeUsageStats_spec:
  "computeUsageStats now known sizes archives =
     \<lparr>Generated = unix now,
      TotalChunkBytes = (\<Sum>(d, is) \<leftarrow> known. size_of_chunk sizes d),
      TotalChunks = of_nat (length known),
      TotalLogicalBytes = (\<Sum>(k, n) \<leftarrow> archives. n),
      UsageSnapshots = map (usage_of known sizes archives)
        (sorted_list_of_set (usage_names known archives))\<rparr>"
  by (rule UsageStats.equality)
    (simp_all add: computeUsageStats_fields, simp add: computeUsageStats_def split: prod.split)

text \<open>
  The report does not depend on the order in which Go visits its maps: it is the same for every
  reordering of the entries of the three maps the collector hands over.
\<close>

theorem computeUsageStats_order_independent:
  assumes "mset known = mset known'" "mset archives = mset archives'" "mset sizes = mset sizes'"
    and "distinct (map fst sizes)"
  shows "computeUsageStats now known sizes archives = computeUsageStats now known' sizes' archives'"
proof -
  have names: "usage_names known archives = usage_names known' archives'"
    unfolding usage_names_def mset_eq_setD [OF assms(1)] mset_eq_setD [OF assms(2)] ..
  have len: "length known = length known'" using assms(1) by (rule mset_eq_length)
  have sizes: "size_of_chunk sizes = size_of_chunk sizes'"
    by (intro ext) (simp add: size_of_chunk_def map_of_mset_cong [OF assms(3,4)])
  note sums = sum_list_mset_cong [OF assms(1)] sum_list_mset_cong [OF assms(2)]
  show ?thesis
    unfolding computeUsageStats_spec names len sizes sums
      usage_of_mset_cong [OF assms(1,2) map_of_mset_cong [OF assms(3,4)]] ..
qed

theorem computeUsageStats_order_independent_witness:
  "computeUsageStats 0 [(''d1'', [''backups/a|1|vm/x.fidx'']), (''d2'', [''backups/b|1|vm/x.fidx''])]
     [(''d1'', 4), (''d2'', 6)] [(''backups/a|1|vm/x.fidx'', 4)]
   = computeUsageStats 0 [(''d2'', [''backups/b|1|vm/x.fidx'']), (''d1'', [''backups/a|1|vm/x.fidx''])]
     [(''d2'', 6), (''d1'', 4)] [(''backups/a|1|vm/x.fidx'', 4)]"
  by (rule computeUsageStats_order_independent) simp_all

lemma set_references:
  "set (references load objs d) = Key ` {obj \<in> set objs. d \<in> set (digests (index_of load obj))}"
  by (induction objs) (auto simp: references_Cons set_replicate_conv_if count_list_0_iff)

lemma owners_of_eq_singleton:
  "owners_of is = [n] \<longleftrightarrow> is \<noteq> [] \<and> (\<forall>k \<in> set is. snapshotOfIndex k = n)"
proof
  assume "owners_of is = [n]"
  then have "set (owners_of is) = {n}" by simp
  then show "is \<noteq> [] \<and> (\<forall>k \<in> set is. snapshotOfIndex k = n)" by (auto simp: owners_of_def)
next
  assume *: "is \<noteq> [] \<and> (\<forall>k \<in> set is. snapshotOfIndex k = n)"
  then have "snapshotOfIndex ` set is = {n}" by (cases "is") auto
  then have "set (owners_of is) = {n}" "distinct (owners_of is)" by (simp_all add: owners_of_def)
  then have "length (owners_of is) = 1" by (metis card.empty card.insert distinct_card
        empty_iff finite.emptyI One_nat_def)
  with \<open>set (owners_of is) = {n}\<close> show "owners_of is = [n]" by (cases "owners_of is") auto
qed

lemma known_entry:
  assumes "buildGCPlan snapshots backups indexed chunks now r grace load csum = Inr plan"
    and "(d, is) \<in> set (knownChunks plan)"
  shows "is = references load (kept_indexes now r snapshots backups) d" and "is \<noteq> []"
proof -
  have wf: "refs_wf (knownChunks plan)" using assms(1) by (rule build_known)
  then have "map_of (knownChunks plan) d = Some is"
    using assms(2) unfolding refs_wf_def by (intro map_of_is_SomeI) simp_all
  then have refs: "refs_at (knownChunks plan) d = is" by (simp add: refs_at_def)
  show "is = references load (kept_indexes now r snapshots backups) d"
    unfolding refs [symmetric] by (rule build_known(2) [OF assms(1)])
  show "is \<noteq> []"
    using refs_wf_map_of [OF wf, of d] \<open>map_of (knownChunks plan) d = Some is\<close> refs by force
qed

text \<open>
  C31: The exclusive bytes of a snapshot are what deleting it frees. In a report computed from a plan
  of the mark phase, the exclusive bytes of a snapshot are the sizes of exactly those known chunks
  that no index of the remaining snapshots refers to, i.e. that a mark phase without the indexes of
  this snapshot would no longer know.
\<close>

theorem exclusive_bytes_are_freed:
  assumes build: "buildGCPlan snapshots backups indexed chunks now r grace load csum = Inr plan"
    and u: "u \<in> set (UsageSnapshots
      (computeUsageStats t (knownChunks plan) (chunkSizes plan) (archiveSizes plan)))"
  defines "rest \<equiv> filter (\<lambda>obj. snapshotOfIndex (Key obj) \<noteq> UsageSnapshot u)
    (kept_indexes now r snapshots backups)"
  shows "ExclusiveBytes u = (\<Sum>(d, is) \<leftarrow> knownChunks plan.
    if is_referenced load rest d then 0 else size_of_chunk (chunkSizes plan) d)"
proof -
  let ?kept = "kept_indexes now r snapshots backups"
  obtain n where n: "u = usage_of (knownChunks plan) (chunkSizes plan) (archiveSizes plan) n"
    using u by (auto simp: computeUsageStats_spec)
  have "owners_of is = [n] \<longleftrightarrow> \<not> is_referenced load rest d"
    if "(d, is) \<in> set (knownChunks plan)" for d "is"
    using known_entry [OF build that] n
    by (auto simp: owners_of_eq_singleton set_references is_referenced_def list_ex_iff rest_def usage_of_def)
  then show ?thesis
    unfolding n usage_of_def by (auto intro!: arg_cong [where f = sum_list])
qed

theorem exclusive_bytes_are_freed_witness:
  "ExclusiveBytes (usage_of [(sample_digest 1, [Key new_index])] [(sample_digest 1, 0)]
      [(Key new_index, 4)] ''backups/100|90|vm'') = 0"
proof -
  let ?plan = "empty_plan\<lparr>expiredSnapshots := [hd sample_snapshots], backupObjects := [old_index],
            chunkObjects := [sample_chunk 2],
            knownChunks := [(sample_digest 1, [Key new_index])],
            existingChunks := [(sample_digest 1, True)], chunkSizes := [(sample_digest 1, 0)],
            archiveSizes := [(Key new_index, 4)]\<rparr>"
  have n: "snapshotOfIndex (Key new_index) = ''backups/100|90|vm''" by code_simp
  have "usage_of (knownChunks ?plan) (chunkSizes ?plan) (archiveSizes ?plan) ''backups/100|90|vm''
      \<in> set (UsageSnapshots (computeUsageStats 0 (knownChunks ?plan) (chunkSizes ?plan) (archiveSizes ?plan)))"
    by (simp add: computeUsageStats_spec usage_names_def n)
  from exclusive_bytes_are_freed [OF sample_build this] show ?thesis
    by (simp add: size_of_chunk_def split: if_splits)
qed

end
