(* ===== verification/TtlCache.thy ===== *)
theory TtlCache
  imports Prelude
begin

text \<open>
  \<open>cmd/pmoxs3backuproxy/cache.go\<close>: the cache in front of the object store. Its operations are
  functions on the map of entries. A lookup holds the lock of its entry while it calls upstream, so
  it is one step; a background refresh is two, its start inside \<open>GetAsync\<close> and its completion later,
  and everything else may happen in between.

  The second half is the cache as a state machine over those steps, with the version of the upstream
  state as a ghost: it shows that there is at most one background refresh per key (single flight)
  and that a value read before an invalidation is never served after it, although the refresh that
  read it may finish later.

  Times are nanoseconds since the Unix epoch.
\<close>

section \<open>Entries\<close>

record 'a ttlCacheEntry =
  cvalue :: 'a
  fetched :: int
  valid :: bool
  refreshing :: bool
  generation :: u64

text \<open>The field \<open>zeroT\<close> is the zero value of the element type.\<close>

record 'a ttlCache =
  ttl :: int
  entries :: "(string, 'a ttlCacheEntry) gomap"
  zeroT :: 'a

text \<open>\<open>time.Time{}\<close> is the first of January of year 1; \<open>time.Since\<close> saturates.\<close>

definition zero_time :: int where "zero_time = -62135596800 * 1000000000"

definition time_Since :: "int \<Rightarrow> int \<Rightarrow> int" where
  "time_Since now t = max (- (2 ^ 63)) (min (2 ^ 63 - 1) (now - t))"

definition newTTLCache :: "'a \<Rightarrow> int \<Rightarrow> 'a ttlCache" where
  "newTTLCache zero t = \<lparr>ttl = t, entries = [], zeroT = zero\<rparr>"

definition new_entry :: "'a \<Rightarrow> 'a ttlCacheEntry" where
  "new_entry zero =
     \<lparr>cvalue = zero, fetched = zero_time, valid = False, refreshing = False, generation = 0\<rparr>"

text \<open>The pointer to an entry: what is stored for the key, or a new entry stored for it.\<close>

definition entry :: "string \<Rightarrow> 'a ttlCache \<Rightarrow> 'a ttlCacheEntry" where
  "entry key c = (case map_of (entries c) key of Some e \<Rightarrow> e | None \<Rightarrow> new_entry (zeroT c))"

definition set_entry :: "string \<Rightarrow> 'a ttlCacheEntry \<Rightarrow> 'a ttlCache \<Rightarrow> 'a ttlCache" where
  "set_entry key e c = c\<lparr>entries := AList.update key e (entries c)\<rparr>"

section \<open>Operations\<close>

definition is_fresh :: "int \<Rightarrow> int \<Rightarrow> 'a ttlCacheEntry \<Rightarrow> bool" where
  "is_fresh t now e \<longleftrightarrow> valid e \<and> time_Since now (fetched e) < t"

text \<open>
  \<open>Get\<close> at time \<open>now\<close>. What \<open>fetch\<close> would return is an argument, used only when the code calls it,
  and \<open>later\<close> is the time at which it has returned.
\<close>

definition Get ::
    "int \<Rightarrow> int \<Rightarrow> string \<Rightarrow> 'a result \<Rightarrow> 'a ttlCache \<Rightarrow> ('a \<times> bool) result \<times> 'a ttlCache" where
  "Get now later key fetch c =
     (let e = entry key c in
      if is_fresh (ttl c) now e then (Inr (cvalue e, False), set_entry key e c)
      else
        (case fetch of
           Inl err \<Rightarrow>
             if valid e then (Inr (cvalue e, False), set_entry key e c)
             else (Inl err, set_entry key e c)
         | Inr v \<Rightarrow>
             (Inr (v, True), set_entry key (e\<lparr>cvalue := v, fetched := later, valid := True\<rparr>) c)))"

text \<open>
  \<open>GetAsync\<close> returns what is cached; when it starts a refresh, the goroutine keeps the generation
  it was started under.
\<close>

definition GetAsync ::
    "int \<Rightarrow> string \<Rightarrow> 'a ttlCache \<Rightarrow> ('a \<times> bool) \<times> u64 option \<times> 'a ttlCache" where
  "GetAsync now key c =
     (let e = entry key c in
      if is_fresh (ttl c) now e then ((cvalue e, True), None, set_entry key e c)
      else if refreshing e then ((cvalue e, valid e), None, set_entry key e c)
      else ((cvalue e, valid e), Some (generation e), set_entry key (e\<lparr>refreshing := True\<rparr>) c))"

text \<open>The end of the goroutine of a refresh that was started under a generation.\<close>

definition finish_refresh ::
    "int \<Rightarrow> string \<Rightarrow> u64 \<Rightarrow> 'a result \<Rightarrow> 'a ttlCache \<Rightarrow> 'a ttlCache" where
  "finish_refresh now key started fetch c =
     (let e = (entry key c)\<lparr>refreshing := False\<rparr> in
      if generation e \<noteq> started then set_entry key e c
      else
        (case fetch of
           Inl err \<Rightarrow> set_entry key e c
         | Inr v \<Rightarrow> set_entry key (e\<lparr>cvalue := v, fetched := now, valid := True\<rparr>) c))"

definition Peek :: "string \<Rightarrow> 'a ttlCache \<Rightarrow> ('a \<times> bool) \<times> 'a ttlCache" where
  "Peek key c = (let e = entry key c in ((cvalue e, valid e), set_entry key e c))"

definition Store :: "int \<Rightarrow> string \<Rightarrow> 'a \<Rightarrow> 'a ttlCache \<Rightarrow> 'a ttlCache" where
  "Store now key v c =
     (let e = entry key c in
      set_entry key (e\<lparr>cvalue := v, fetched := now, valid := True,
                       generation := generation e + 1\<rparr>) c)"

definition Invalidate :: "string \<Rightarrow> 'a ttlCache \<Rightarrow> 'a ttlCache" where
  "Invalidate key c =
     (let e = entry key c in
      set_entry key (e\<lparr>valid := False, generation := generation e + 1\<rparr>) c)"

definition InvalidatePrefix :: "string \<Rightarrow> 'a ttlCache \<Rightarrow> 'a ttlCache" where
  "InvalidatePrefix prefix c =
     c\<lparr>entries := map (\<lambda>(key, e). (key,
          if HasPrefix key prefix then e\<lparr>valid := False, generation := generation e + 1\<rparr> else e))
        (entries c)\<rparr>"

definition Expire :: "string \<Rightarrow> 'a ttlCache \<Rightarrow> 'a ttlCache" where
  "Expire key c =
     (let e = entry key c in
      set_entry key ((if valid e then e\<lparr>fetched := zero_time\<rparr> else e)
                       \<lparr>generation := generation e + 1\<rparr>) c)"

section \<open>Lemmas: what each operation does to each entry\<close>

lemma entry_set [simp]: "entry k (set_entry key e c) = (if k = key then e else entry k c)"
  by (auto simp: entry_def set_entry_def map_of_update split: option.split)

lemma set_entry_keeps [simp]: "ttl (set_entry key e c) = ttl c" "zeroT (set_entry key e c) = zeroT c"
  by (simp_all add: set_entry_def)

lemma entry_new [simp]: "entry k (newTTLCache zero t) = new_entry zero"
  by (simp add: entry_def newTTLCache_def)

lemma entry_Get:
  "entry k (snd (Get now later key fetch c)) =
     (if k = key \<and> \<not> is_fresh (ttl c) now (entry key c)
      then (case fetch of
              Inl _ \<Rightarrow> entry key c
            | Inr v \<Rightarrow> (entry key c)\<lparr>cvalue := v, fetched := later, valid := True\<rparr>)
      else entry k c)"
  by (auto simp: Get_def Let_def split: sum.splits)

lemma entry_GetAsync:
  "entry k (snd (snd (GetAsync now key c))) =
     (if k = key \<and> fst (snd (GetAsync now key c)) \<noteq> None then (entry key c)\<lparr>refreshing := True\<rparr>
      else entry k c)"
  by (auto simp: GetAsync_def Let_def)

lemma entry_finish:
  "entry k (finish_refresh now key started fetch c) =
     (if k = key
      then (case fetch of
              Inr v \<Rightarrow> if generation (entry key c) = started
                then (entry key c)\<lparr>refreshing := False, cvalue := v, fetched := now, valid := True\<rparr>
                else (entry key c)\<lparr>refreshing := False\<rparr>
            | Inl _ \<Rightarrow> (entry key c)\<lparr>refreshing := False\<rparr>)
      else entry k c)"
  by (auto simp: finish_refresh_def Let_def split: sum.splits)

lemma entry_Peek [simp]: "entry k (snd (Peek key c)) = entry k c"
  by (simp add: Peek_def Let_def)

lemma entry_Store:
  "entry k (Store now key v c) =
     (if k = key then (entry key c)\<lparr>cvalue := v, fetched := now, valid := True,
        generation := generation (entry key c) + 1\<rparr> else entry k c)"
  by (simp add: Store_def Let_def)

lemma entry_Invalidate:
  "entry k (Invalidate key c) =
     (if k = key then (entry key c)\<lparr>valid := False, generation := generation (entry key c) + 1\<rparr>
      else entry k c)"
  by (simp add: Invalidate_def Let_def)

lemma entry_Expire:
  "entry k (Expire key c) =
     (if k = key then (if valid (entry key c) then (entry key c)\<lparr>fetched := zero_time\<rparr> else entry key c)
        \<lparr>generation := generation (entry key c) + 1\<rparr>
      else entry k c)"
  by (simp add: Expire_def Let_def)

lemma map_of_map_entries:
  "map_of (map (\<lambda>(k, e). (k, f k e)) m) key = map_option (f key) (map_of m key)"
  by (induction m) auto

definition has_entry :: "string \<Rightarrow> 'a ttlCache \<Rightarrow> bool" where
  "has_entry k c \<longleftrightarrow> map_of (entries c) k \<noteq> None"

lemma entry_InvalidatePrefix:
  "entry k (InvalidatePrefix prefix c) =
     (if HasPrefix k prefix \<and> has_entry k c
      then (entry k c)\<lparr>valid := False, generation := generation (entry k c) + 1\<rparr> else entry k c)"
  by (auto simp: entry_def InvalidatePrefix_def map_of_map_entries has_entry_def split: option.splits)

lemma no_entry: "\<not> has_entry k c \<Longrightarrow> entry k c = new_entry (zeroT c)"
  by (simp add: has_entry_def entry_def)

lemmas entry_simps = entry_Get entry_GetAsync entry_finish entry_Store entry_Invalidate entry_Expire
  entry_InvalidatePrefix

section \<open>The cache as a map from keys to values\<close>

text \<open>
  What a client of a cache relies on: a partial map with an assignment, a removal of one key and a
  removal of all keys with a prefix.
\<close>

locale value_cache =
  fixes look :: "'c \<Rightarrow> string \<Rightarrow> 'v option"
    and put :: "string \<Rightarrow> 'v \<Rightarrow> 'c \<Rightarrow> 'c"
    and drop_key :: "string \<Rightarrow> 'c \<Rightarrow> 'c"
    and drop_prefix :: "string \<Rightarrow> 'c \<Rightarrow> 'c"
  assumes look_put: "look (put k v c) x = (if x = k then Some v else look c x)"
    and look_drop_key: "look (drop_key k c) x = (if x = k then None else look c x)"
    and look_drop_prefix: "look (drop_prefix p c) x = (if HasPrefix x p then None else look c x)"
begin

lemma look_drop_keys:
  "look (foldl (\<lambda>c k. drop_key k c) c ks) x = (if x \<in> set ks then None else look c x)"
  by (induction ks arbitrary: c) (auto simp: look_drop_key)

lemma dropped_until_put:
  "\<forall>(k, v) \<in> set kvs. \<not> HasPrefix k p \<Longrightarrow> HasPrefix x p \<Longrightarrow>
   look (foldl (\<lambda>c (k, v). put k v c) (drop_prefix p c) kvs) x = None"
proof (induction kvs rule: rev_induct)
  case (snoc kv kvs)
  then show ?case by (cases kv) (auto simp: look_put)
qed (simp add: look_drop_prefix)

end

definition cached :: "'a ttlCache \<Rightarrow> string \<Rightarrow> 'a option" where
  "cached c k = (if valid (entry k c) then Some (cvalue (entry k c)) else None)"

interpretation ttl_map: value_cache cached "Store now" Invalidate InvalidatePrefix for now
proof
  fix k v and c :: "'a ttlCache" and x p
  show "cached (Store now k v c) x = (if x = k then Some v else cached c x)"
    by (simp add: cached_def entry_Store)
  show "cached (Invalidate k c) x = (if x = k then None else cached c x)"
    by (simp add: cached_def entry_Invalidate)
  show "cached (InvalidatePrefix p c) x = (if HasPrefix x p then None else cached c x)"
    by (auto simp: cached_def entry_InvalidatePrefix no_entry new_entry_def)
qed

lemma cached_Expire [simp]: "cached (Expire k c) = cached c"
  by (rule ext) (simp add: cached_def entry_Expire)

section \<open>Sequences of operations\<close>

datatype 'a cache_op =
    OpGet int int string "'a result"
  | OpGetAsync int string
  | OpFinish int string u64 "'a result"
  | OpPeek string
  | OpStore int string 'a
  | OpInvalidate string
  | OpInvalidatePrefix string
  | OpExpire string

fun run_op :: "'a ttlCache \<Rightarrow> 'a cache_op \<Rightarrow> 'a ttlCache" where
  "run_op c (OpGet now later key fetch) = snd (Get now later key fetch c)"
| "run_op c (OpGetAsync now key) = snd (snd (GetAsync now key c))"
| "run_op c (OpFinish now key g fetch) = finish_refresh now key g fetch c"
| "run_op c (OpPeek key) = snd (Peek key c)"
| "run_op c (OpStore now key v) = Store now key v c"
| "run_op c (OpInvalidate key) = Invalidate key c"
| "run_op c (OpInvalidatePrefix prefix) = InvalidatePrefix prefix c"
| "run_op c (OpExpire key) = Expire key c"

fun drops :: "string \<Rightarrow> 'a cache_op \<Rightarrow> bool" where
  "drops k (OpInvalidate key) \<longleftrightarrow> k = key"
| "drops k (OpInvalidatePrefix prefix) \<longleftrightarrow> HasPrefix k prefix"
| "drops k _ \<longleftrightarrow> False"

lemma run_op_valid:
  "valid (entry k c) \<Longrightarrow> \<not> drops k op \<Longrightarrow> valid (entry k (run_op c op))"
  by (cases op) (auto simp: entry_simps split: sum.splits)

lemma run_ops_valid:
  "valid (entry k c) \<Longrightarrow> list_all (\<lambda>op. \<not> drops k op) ops \<Longrightarrow> valid (entry k (foldl run_op c ops))"
  by (induction ops arbitrary: c) (auto simp: run_op_valid)

lemma Get_valid: "valid (entry key c) \<Longrightarrow> succeeds (fst (Get now later key fetch c))"
  by (auto simp: Get_def Let_def split: sum.splits)

section \<open>The cache as a state machine\<close>

text \<open>
  The upstream state has a version, a ghost that every change of the bucket increases. A call
  upstream observes a version between the one at its start and the one at its end, which the
  function \<open>ver\<close> reads off the value it returned. A lookup that calls upstream holds the lock of
  its entry, so it is split in two steps with the lock in between; a background refresh is an
  element of \<open>flights\<close>. For each key the machine records the version at its last invalidation
  (\<open>floor_inv\<close>), at its last invalidation or expiry (\<open>floor_exp\<close>), and the number of changes of its
  generation, as a number and not as a machine word.

  \<open>InvalidatePrefix\<close> takes the locks of the matching entries one after another, so it is a sequence
  of invalidations here (\<open>InvalidatePrefix_fold\<close> below).

  A stored value is one obtained since the last invalidation or expiry of its key. \<open>Store\<close> itself does not check it;
  the program calls it on the list of buckets only, whose cache it never invalidates or expires.
\<close>

record flight =
  f_key :: string
  f_gen :: u64
  f_start :: nat
  f_count :: nat

record 'a cache_sys =
  sys_cache :: "'a ttlCache"
  flights :: "flight list"
  locked :: "string \<Rightarrow> (nat \<times> int) option"
  upstream :: nat
  floor_inv :: "string \<Rightarrow> nat"
  floor_exp :: "string \<Rightarrow> nat"
  bump :: "string \<Rightarrow> nat"

definition observed :: "('a \<Rightarrow> nat) \<Rightarrow> nat \<Rightarrow> nat \<Rightarrow> 'a result \<Rightarrow> bool" where
  "observed ver lo hi fetch = (case fetch of Inl _ \<Rightarrow> True | Inr v \<Rightarrow> lo \<le> ver v \<and> ver v \<le> hi)"

definition cache_start :: "'a cache_sys \<Rightarrow> bool" where
  "cache_start s \<longleftrightarrow>
     (\<exists>zero t. sys_cache s = newTTLCache zero t) \<and> flights s = [] \<and> locked s = (\<lambda>_. None)
     \<and> floor_inv s = (\<lambda>_. 0) \<and> floor_exp s = (\<lambda>_. 0) \<and> bump s = (\<lambda>_. 0)"

inductive cache_step :: "('a \<Rightarrow> nat) \<Rightarrow> 'a cache_sys \<Rightarrow> 'a cache_sys \<Rightarrow> bool" for ver where
  mutate: "cache_step ver s (s\<lparr>upstream := Suc (upstream s)\<rparr>)"
| get_hit:
    "locked s k = None \<Longrightarrow> is_fresh (ttl (sys_cache s)) now (entry k (sys_cache s)) \<Longrightarrow>
     cache_step ver s (s\<lparr>sys_cache := snd (Get now later k fetch (sys_cache s))\<rparr>)"
| get_begin:
    "locked s k = None \<Longrightarrow> \<not> is_fresh (ttl (sys_cache s)) now (entry k (sys_cache s)) \<Longrightarrow>
     cache_step ver s (s\<lparr>locked := (locked s)(k := Some (upstream s, now))\<rparr>)"
| get_end:
    "locked s k = Some (u, now) \<Longrightarrow> observed ver u (upstream s) fetch \<Longrightarrow>
     cache_step ver s (s\<lparr>sys_cache := snd (Get now later k fetch (sys_cache s)),
                        locked := (locked s)(k := None)\<rparr>)"
| get_async:
    "locked s k = None \<Longrightarrow> GetAsync now k (sys_cache s) = (r, None, c') \<Longrightarrow>
     cache_step ver s (s\<lparr>sys_cache := c'\<rparr>)"
| refresh_begin:
    "locked s k = None \<Longrightarrow> GetAsync now k (sys_cache s) = (r, Some g, c') \<Longrightarrow>
     cache_step ver s (s\<lparr>sys_cache := c',
       flights := \<lparr>f_key = k, f_gen = g, f_start = upstream s, f_count = bump s k\<rparr> # flights s\<rparr>)"
| refresh_end:
    "f \<in> set (flights s) \<Longrightarrow> locked s (f_key f) = None \<Longrightarrow>
     observed ver (f_start f) (upstream s) fetch \<Longrightarrow>
     cache_step ver s (s\<lparr>sys_cache := finish_refresh now (f_key f) (f_gen f) fetch (sys_cache s),
                        flights := remove1 f (flights s)\<rparr>)"
| store:
    "locked s k = None \<Longrightarrow> Suc (bump s k) < 2 ^ 64 \<Longrightarrow> floor_exp s k \<le> ver v \<Longrightarrow>
     cache_step ver s (s\<lparr>sys_cache := Store now k v (sys_cache s),
                        bump := (bump s)(k := Suc (bump s k))\<rparr>)"
| invalidate:
    "locked s k = None \<Longrightarrow> Suc (bump s k) < 2 ^ 64 \<Longrightarrow>
     cache_step ver s (s\<lparr>sys_cache := Invalidate k (sys_cache s),
                        bump := (bump s)(k := Suc (bump s k)),
                        floor_inv := (floor_inv s)(k := upstream s),
                        floor_exp := (floor_exp s)(k := upstream s)\<rparr>)"
| expire:
    "locked s k = None \<Longrightarrow> Suc (bump s k) < 2 ^ 64 \<Longrightarrow>
     cache_step ver s (s\<lparr>sys_cache := Expire k (sys_cache s),
                        bump := (bump s)(k := Suc (bump s k)),
                        floor_exp := (floor_exp s)(k := upstream s)\<rparr>)"

text \<open>The invariant, for one key and for one flight.\<close>

definition key_inv :: "('a \<Rightarrow> nat) \<Rightarrow> 'a cache_sys \<Rightarrow> string \<Rightarrow> bool" where
  "key_inv ver s k \<longleftrightarrow>
     (let e = entry k (sys_cache s) in
      generation e = of_nat (bump s k) \<and> bump s k < 2 ^ 64
      \<and> floor_inv s k \<le> floor_exp s k \<and> floor_exp s k \<le> upstream s
      \<and> (valid e \<longrightarrow> floor_inv s k \<le> ver (cvalue e))
      \<and> (valid e \<longrightarrow> fetched e \<noteq> zero_time \<longrightarrow> floor_exp s k \<le> ver (cvalue e))
      \<and> (\<forall>u now. locked s k = Some (u, now) \<longrightarrow> floor_exp s k \<le> u \<and> u \<le> upstream s)
      \<and> length (filter (\<lambda>f. f_key f = k) (flights s)) = (if refreshing e then 1 else 0))"

definition flight_inv :: "'a cache_sys \<Rightarrow> flight \<Rightarrow> bool" where
  "flight_inv s f \<longleftrightarrow>
     f_gen f = of_nat (f_count f) \<and> f_count f \<le> bump s (f_key f) \<and> f_start f \<le> upstream s
     \<and> (f_count f = bump s (f_key f) \<longrightarrow> floor_exp s (f_key f) \<le> f_start f)"

definition cache_inv :: "('a \<Rightarrow> nat) \<Rightarrow> 'a cache_sys \<Rightarrow> bool" where
  "cache_inv ver s \<longleftrightarrow> (\<forall>k. key_inv ver s k) \<and> (\<forall>f \<in> set (flights s). flight_inv s f)"

lemma cache_start_inv: "cache_start s \<Longrightarrow> cache_inv ver s"
  by (auto simp: cache_start_def cache_inv_def key_inv_def new_entry_def)

lemma of_nat_u64_inject:
  "(of_nat a :: u64) = of_nat b \<Longrightarrow> a < 2 ^ 64 \<Longrightarrow> b < 2 ^ 64 \<Longrightarrow> a = b"
  by (drule arg_cong [of _ _ unat]) (simp add: unat_of_nat)

lemma length_filter_remove1:
  "f \<in> set fs \<Longrightarrow> length (filter P (remove1 f fs)) = length (filter P fs) - (if P f then 1 else 0)"
proof (induction fs)
  case (Cons a fs)
  have "P f \<Longrightarrow> f \<in> set fs \<Longrightarrow> 0 < length (filter P fs)" by (auto simp: filter_empty_conv)
  with Cons show ?case by auto
qed simp

lemma inv_refresh_end:
  assumes inv: "cache_inv ver s" and f: "f \<in> set (flights s)" and seen: "observed ver (f_start f) (upstream s) fetch"
  shows "cache_inv ver (s\<lparr>sys_cache := finish_refresh now (f_key f) (f_gen f) fetch (sys_cache s),
    flights := remove1 f (flights s)\<rparr>)" (is "cache_inv ver ?t")
proof -
  let ?e = "entry (f_key f) (sys_cache s)"
  have flight: "flight_inv s f" and key: "key_inv ver s (f_key f)" using inv f by (auto simp: cache_inv_def)
  have one: "refreshing ?e" using key f by (auto simp: key_inv_def Let_def filter_empty_conv split: if_splits)
  have floor: "floor_exp s (f_key f) \<le> f_start f" if "generation ?e = f_gen f"
    using flight key that of_nat_u64_inject [of "f_count f" "bump s (f_key f)"]
    by (simp add: flight_inv_def key_inv_def Let_def)
  have "key_inv ver ?t (f_key f)"
    using key f seen floor one
    by (auto simp: key_inv_def Let_def entry_finish observed_def length_filter_remove1 split: sum.splits)
  moreover have "key_inv ver ?t x" if "x \<noteq> f_key f" for x
    using inv f that by (auto simp: cache_inv_def key_inv_def Let_def entry_finish length_filter_remove1)
  ultimately have "key_inv ver ?t x" for x by (cases "x = f_key f") auto
  moreover have "flight_inv ?t g" if "g \<in> set (flights ?t)" for g
    using inv that set_remove1_subset [of f "flights s"] by (auto simp: cache_inv_def flight_inv_def)
  ultimately show ?thesis by (simp add: cache_inv_def)
qed

text \<open>A step that starts a new generation of one key leaves the flights behind it.\<close>

lemma flights_left_behind:
  assumes "cache_inv ver s" "flights t = flights s" "upstream t = upstream s" "bump t = (bump s)(k := Suc (bump s k))"
    and "floor_exp t = floor_exp s \<or> floor_exp t = (floor_exp s)(k := upstream s)"
  shows "\<forall>g \<in> set (flights t). flight_inv t g"
  using assms by (auto simp: cache_inv_def flight_inv_def)

lemma floors_ordered:
  assumes "cache_inv ver s"
  shows "floor_inv s k \<le> floor_exp s k" "floor_inv s k \<le> upstream s"
proof -
  have "floor_inv s k \<le> floor_exp s k" "floor_exp s k \<le> upstream s"
    using assms by (simp_all add: cache_inv_def key_inv_def Let_def)
  then show "floor_inv s k \<le> floor_exp s k" "floor_inv s k \<le> upstream s" by simp_all
qed

lemma cache_step_inv:
  assumes "cache_step ver s t" "cache_inv ver s"
  shows "cache_inv ver t"
  using assms
proof (cases rule: cache_step.cases)
  case mutate
  with assms(2) show ?thesis by (auto simp: cache_inv_def key_inv_def flight_inv_def Let_def le_SucI)
next
  case (get_hit k now later fetch)
  with assms(2) show ?thesis by (simp add: cache_inv_def key_inv_def flight_inv_def entry_Get)
next
  case (get_begin k now)
  with assms(2) show ?thesis by (auto simp: cache_inv_def key_inv_def flight_inv_def Let_def)
next
  case (get_end k u now fetch later)
  have "key_inv ver t x" for x
    using assms(2) get_end
    by (auto simp: cache_inv_def key_inv_def Let_def entry_Get observed_def split: sum.splits
        dest: spec [of _ k])
  with assms(2) get_end(1) show ?thesis by (simp add: cache_inv_def flight_inv_def)
next
  case (get_async k now r c')
  then have "entry x c' = entry x (sys_cache s)" for x
    using entry_GetAsync [of x now k "sys_cache s"] by simp
  with assms(2) get_async(1) show ?thesis by (simp add: cache_inv_def key_inv_def flight_inv_def)
next
  case (refresh_begin k now r g c')
  then have "entry x c' = (if x = k then (entry k (sys_cache s))\<lparr>refreshing := True\<rparr> else entry x (sys_cache s))" for x
    using entry_GetAsync [of x now k "sys_cache s"] by simp
  moreover have "g = generation (entry k (sys_cache s)) \<and> \<not> refreshing (entry k (sys_cache s))"
    using refresh_begin(3) by (auto simp: GetAsync_def Let_def split: if_splits)
  ultimately show ?thesis
    using assms(2) refresh_begin(1) by (simp add: cache_inv_def key_inv_def flight_inv_def Let_def)
next
  case (refresh_end f fetch now)
  with inv_refresh_end [OF assms(2)] show ?thesis by simp
next
  case (store k v now)
  then have "floor_inv s k \<le> ver v" using floors_ordered(1) [OF assms(2), of k] by simp
  with store have "key_inv ver t x" for x
    using assms(2) by (cases "x = k") (auto simp: cache_inv_def key_inv_def Let_def entry_Store)
  with flights_left_behind [OF assms(2), of t k] store(1) show ?thesis by (simp add: cache_inv_def)
next
  case (invalidate k)
  then have "key_inv ver t x" for x
    using assms(2) by (cases "x = k") (auto simp: cache_inv_def key_inv_def Let_def entry_Invalidate)
  with flights_left_behind [OF assms(2), of t k] invalidate(1) show ?thesis by (simp add: cache_inv_def)
next
  case (expire k)
  then have "key_inv ver t x" for x
    using assms(2) floors_ordered(2) [OF assms(2), of k]
    by (cases "x = k") (auto simp: cache_inv_def key_inv_def Let_def entry_Expire)
  with flights_left_behind [OF assms(2), of t k] expire(1) show ?thesis by (simp add: cache_inv_def)
qed

interpretation cache_machine: stepper cache_start "cache_step ver" "cache_inv ver" for ver
  by unfold_locales (auto intro: cache_start_inv cache_step_inv)

text \<open>Taking the locks of the matching entries in turn is the same as dropping them at once.\<close>

definition prefix_keys :: "string \<Rightarrow> 'a ttlCache \<Rightarrow> string list" where
  "prefix_keys prefix c = filter (\<lambda>k. HasPrefix k prefix) (map fst (entries c))"

lemma entry_fold_Invalidate:
  "distinct ks \<Longrightarrow> entry k (foldl (\<lambda>c k. Invalidate k c) c ks) =
     (if k \<in> set ks then (entry k c)\<lparr>valid := False, generation := generation (entry k c) + 1\<rparr>
      else entry k c)"
  by (induction ks arbitrary: c) (auto simp: entry_Invalidate)

lemma InvalidatePrefix_fold:
  assumes "distinct (map fst (entries c))"
  shows "entry k (foldl (\<lambda>c k. Invalidate k c) c (prefix_keys prefix c)) = entry k (InvalidatePrefix prefix c)"
proof -
  have "distinct (prefix_keys prefix c)" using assms by (simp add: prefix_keys_def)
  moreover have "k \<in> set (prefix_keys prefix c) \<longleftrightarrow> HasPrefix k prefix \<and> has_entry k c"
    by (force simp: prefix_keys_def has_entry_def map_of_eq_None_iff)
  ultimately show ?thesis by (simp add: entry_fold_Invalidate entry_InvalidatePrefix)
qed

text \<open>An expired value is never fresh: its age saturates at the largest duration.\<close>

lemma zero_time_not_fresh:
  assumes "0 \<le> now" "t < 2 ^ 63" "fetched e = zero_time"
  shows "\<not> is_fresh t now e"
proof -
  have "time_Since now zero_time = 2 ^ 63 - 1" using assms(1) by (simp add: time_Since_def zero_time_def)
  with assms show ?thesis by (simp add: is_fresh_def)
qed

section \<open>Properties\<close>

text \<open>
  C7: Nothing read before an invalidation is served after it. In every reachable state, with
  background refreshes, lookups under the entry lock, stores, expiries and invalidations of any
  keys interleaved in any way, the value that \<open>Get\<close> or \<open>GetAsync\<close> serves from the cache was read
  no earlier than the last invalidation of its key; and one served as fresh was read no earlier
  than its last expiry either. In particular a refresh that started before an invalidation and
  finishes after it does not bring the old value back.
\<close>

theorem cache_no_resurrection:
  assumes "cache_start s0" "(cache_step ver)\<^sup>*\<^sup>* s0 s" "0 \<le> now" "ttl (sys_cache s) < 2 ^ 63"
  shows "(\<forall>v c'. Get now later k fetch (sys_cache s) = (Inr (v, False), c') \<longrightarrow> floor_inv s k \<le> ver v)
    \<and> (\<forall>v st c'. GetAsync now k (sys_cache s) = ((v, True), st, c') \<longrightarrow> floor_inv s k \<le> ver v)
    \<and> (is_fresh (ttl (sys_cache s)) now (entry k (sys_cache s))
        \<longrightarrow> floor_exp s k \<le> ver (cvalue (entry k (sys_cache s))))"
proof -
  let ?e = "entry k (sys_cache s)"
  have "cache_inv ver s" using assms(1,2) by (rule cache_machine.reachable_inv)
  then have inv: "valid ?e \<longrightarrow> floor_inv s k \<le> ver (cvalue ?e)"
    "valid ?e \<longrightarrow> fetched ?e \<noteq> zero_time \<longrightarrow> floor_exp s k \<le> ver (cvalue ?e)"
    by (simp_all add: cache_inv_def key_inv_def Let_def)
  have "is_fresh (ttl (sys_cache s)) now ?e \<longrightarrow> fetched ?e \<noteq> zero_time"
    using zero_time_not_fresh [OF assms(3,4)] by blast
  with inv show ?thesis
    by (auto simp: Get_def GetAsync_def Let_def is_fresh_def split: if_splits sum.splits)
qed

text \<open>
  Single flight. In every reachable state there is at most one background refresh per key, and
  there is one exactly when the entry is marked as refreshing, so a burst of \<open>GetAsync\<close> calls on a
  stale entry makes one call upstream.
\<close>

theorem cache_single_flight:
  assumes "cache_start s0" "(cache_step ver)\<^sup>*\<^sup>* s0 s"
  shows "length (filter (\<lambda>f. f_key f = k) (flights s))
    = (if refreshing (entry k (sys_cache s)) then 1 else 0)"
proof -
  have "cache_inv ver s" using assms by (rule cache_machine.reachable_inv)
  then show ?thesis by (simp add: cache_inv_def key_inv_def Let_def)
qed

text \<open>
  Serve stale on error. Once a value is cached for a key, every later lookup succeeds, whatever
  upstream answers, as long as the key is not invalidated: other lookups, refreshes that fail,
  stores and expiries in between do not take the value away.
\<close>

theorem cache_serves_stale:
  assumes "valid (entry k c)" "list_all (\<lambda>op. \<not> drops k op) ops"
  shows "succeeds (fst (Get now later k fetch (foldl run_op c ops)))"
  using run_ops_valid [OF assms] by (rule Get_valid)

theorem cache_serves_stale_witness:
  "succeeds (fst (Get 100 100 ''a'' (Inl (Error ''timeout''))
     (foldl run_op (Store 0 ''a'' (7::nat) (newTTLCache 0 10)) [OpExpire ''a'', OpInvalidate ''b''])))"
  by (rule cache_serves_stale) (simp_all add: entry_Store)

text \<open>A run with one refresh that is overtaken by an invalidation.\<close>

definition sample_sys :: "nat cache_sys" where
  "sample_sys = \<lparr>sys_cache = newTTLCache 0 10, flights = [], locked = (\<lambda>_. None), upstream = 5,
     floor_inv = (\<lambda>_. 0), floor_exp = (\<lambda>_. 0), bump = (\<lambda>_. 0)\<rparr>"

definition overtaken_sys :: "nat cache_sys" where
  "overtaken_sys =
     (let s1 = sample_sys\<lparr>sys_cache := snd (snd (GetAsync 0 ''a'' (sys_cache sample_sys))),
                 flights := [\<lparr>f_key = ''a'', f_gen = 0, f_start = 5, f_count = 0\<rparr>]\<rparr>;
          s2 = s1\<lparr>upstream := 6\<rparr>;
          s3 = s2\<lparr>sys_cache := Invalidate ''a'' (sys_cache s2), bump := (\<lambda>_. 0)(''a'' := 1),
                 floor_inv := (\<lambda>_. 0)(''a'' := 6), floor_exp := (\<lambda>_. 0)(''a'' := 6)\<rparr>
      in s3\<lparr>sys_cache := finish_refresh 3 ''a'' 0 (Inr 5) (sys_cache s3), flights := []\<rparr>)"

lemma overtaken_reachable: "cache_start sample_sys" "(cache_step (\<lambda>v. v))\<^sup>*\<^sup>* sample_sys overtaken_sys"
proof -
  show "cache_start sample_sys" by (auto simp: cache_start_def sample_sys_def)
  let ?step = "cache_step (\<lambda>v :: nat. v)"
  define s1 where "s1 = sample_sys\<lparr>sys_cache := snd (snd (GetAsync 0 ''a'' (sys_cache sample_sys))),
    flights := [\<lparr>f_key = ''a'', f_gen = 0, f_start = 5, f_count = 0\<rparr>]\<rparr>"
  define s2 where "s2 = s1\<lparr>upstream := 6\<rparr>"
  define s3 where "s3 = s2\<lparr>sys_cache := Invalidate ''a'' (sys_cache s2), bump := (\<lambda>_. 0)(''a'' := 1),
    floor_inv := (\<lambda>_. 0)(''a'' := 6), floor_exp := (\<lambda>_. 0)(''a'' := 6)\<rparr>"
  have "GetAsync 0 ''a'' (sys_cache sample_sys)
      = ((0, False), Some 0, snd (snd (GetAsync 0 ''a'' (sys_cache sample_sys))))"
    by (simp add: GetAsync_def sample_sys_def is_fresh_def new_entry_def)
  with cache_step.refresh_begin [of sample_sys "''a''" 0 "(0, False)" 0]
  have 1: "?step sample_sys s1" by (simp add: s1_def sample_sys_def)
  have 2: "?step s1 s2"
    using cache_step.mutate [of _ s1] by (simp add: s1_def s2_def sample_sys_def)
  have 3: "?step s2 s3"
    using cache_step.invalidate [of s2 "''a''"] by (simp add: s1_def s2_def s3_def sample_sys_def)
  have 4: "?step s3 overtaken_sys"
    using cache_step.refresh_end [of "\<lparr>f_key = ''a'', f_gen = 0, f_start = 5, f_count = 0\<rparr>" s3 _ "Inr 5" 3]
    by (simp add: s1_def s2_def s3_def overtaken_sys_def sample_sys_def observed_def Let_def)
  from 1 2 3 4 show "?step\<^sup>*\<^sup>* sample_sys overtaken_sys"
    by (meson converse_rtranclp_into_rtranclp rtranclp.rtrancl_refl)
qed

theorem cache_no_resurrection_witness:
  "\<not> is_fresh 10 4 (entry ''a'' (sys_cache overtaken_sys))"
proof -
  have "ttl (sys_cache overtaken_sys) = 10"
    by (simp add: overtaken_sys_def sample_sys_def Let_def finish_refresh_def Invalidate_def
        GetAsync_def newTTLCache_def)
  moreover have "floor_exp overtaken_sys ''a'' = 6"
    by (simp add: overtaken_sys_def Let_def)
  moreover have "cvalue (entry ''a'' (sys_cache overtaken_sys)) = 0"
    by (simp add: overtaken_sys_def sample_sys_def Let_def entry_finish entry_Invalidate entry_GetAsync
        new_entry_def)
  moreover note cache_no_resurrection [OF overtaken_reachable, of 4 0 "''a''" "Inr 0"]
  ultimately show ?thesis by simp
qed

theorem cache_single_flight_witness:
  "length (filter (\<lambda>f. f_key f = ''a'') (flights overtaken_sys))
    = (if refreshing (entry ''a'' (sys_cache overtaken_sys)) then 1 else 0)"
  by (rule cache_single_flight [OF overtaken_reachable])

end
