(* ===== verification/Invalidation.thy ===== *)
theory Invalidation
  imports TtlCache Snapshots
begin

text \<open>
  \<open>internal/s3pmoxcommon/cache_invalidation.go\<close> and \<open>cmd/pmoxs3backuproxy/cache_invalidation.go\<close>:
  how a change of a datastore reaches the caches of the proxy, in the process that made it and,
  through a token file in a shared directory, in every other process.

  The file system is a map from paths to contents. Each system call can fail, and which ones do is
  an argument.
\<close>

section \<open>The token file\<close>

type_synonym fs = "(string, string) gomap"

definition fs_remove :: "string \<Rightarrow> fs \<Rightarrow> fs" where
  "fs_remove path f = filter (\<lambda>(p, _). p \<noteq> path) f"

text \<open>How the system calls of one publication end; \<open>CreateTemp\<close> chooses the temporary name.\<close>

record fs_calls =
  mkdir_err :: "goerr option"
  create_temp :: "string result"
  chmod_err :: "goerr option"
  write_err :: "goerr option"
  close_err :: "goerr option"
  rename_err :: "goerr option"

definition CacheInvalidationTokenPath :: "string \<Rightarrow> string \<Rightarrow> string \<Rightarrow> string" where
  "CacheInvalidationTokenPath directory endpoint datastore =
     filepath_Join directory (DataStoreLockName endpoint datastore @ ''.invalidate'')"

definition invalidation_token :: "int \<Rightarrow> nat \<Rightarrow> u64 \<Rightarrow> string" where
  "invalidation_token now pid sequence =
     format_int now @ ''-'' @ format_nat pid @ ''-'' @ format_nat (unat sequence)"

text \<open>
  The result, the file system and the sequence number of the process. The deferred removal of the
  temporary file runs on every path after its creation; after a successful rename there is nothing
  left under that name.
\<close>

definition PublishCacheInvalidation ::
    "fs_calls \<Rightarrow> int \<Rightarrow> nat \<Rightarrow> string \<Rightarrow> string \<Rightarrow> string \<Rightarrow> fs \<Rightarrow> u64
      \<Rightarrow> string result \<times> fs \<times> u64" where
  "PublishCacheInvalidation calls now pid directory endpoint datastore f sequence =
     (if directory = [] then (Inr [], f, sequence)
      else
        (case mkdir_err calls of
           Some e \<Rightarrow> (Inl (Wrap ''create cache invalidation directory'' e), f, sequence)
         | None \<Rightarrow>
             let sequence = sequence + 1;
                 token = invalidation_token now pid sequence
             in (case create_temp calls of
                   Inl e \<Rightarrow> (Inl (Wrap ''create cache invalidation token'' e), f, sequence)
                 | Inr temporary \<Rightarrow>
                     let f1 = AList.update temporary [] f;
                         f2 = AList.update temporary token f1
                     in (case chmod_err calls of
                           Some e \<Rightarrow> (Inl (Wrap ''secure cache invalidation token'' e),
                                      fs_remove temporary f1, sequence)
                         | None \<Rightarrow>
                             (case write_err calls of
                                Some e \<Rightarrow> (Inl (Wrap ''write cache invalidation token'' e),
                                           fs_remove temporary f1, sequence)
                              | None \<Rightarrow>
                                  (case close_err calls of
                                     Some e \<Rightarrow> (Inl (Wrap ''close cache invalidation token'' e),
                                                fs_remove temporary f2, sequence)
                                   | None \<Rightarrow>
                                       (case rename_err calls of
                                          Some e \<Rightarrow> (Inl (Wrap ''publish cache invalidation token'' e),
                                                     fs_remove temporary f2, sequence)
                                        | None \<Rightarrow>
                                            (Inr token,
                                             AList.update
                                               (CacheInvalidationTokenPath directory endpoint datastore)
                                               token (fs_remove temporary f2),
                                             sequence))))))))"

definition ReadCacheInvalidation ::
    "goerr option \<Rightarrow> string \<Rightarrow> string \<Rightarrow> string \<Rightarrow> fs \<Rightarrow> string result" where
  "ReadCacheInvalidation read_err directory endpoint datastore f =
     (if directory = [] then Inr []
      else
        (case map_of f (CacheInvalidationTokenPath directory endpoint datastore) of
           None \<Rightarrow> Inr []
         | Some data \<Rightarrow>
             (case read_err of
                Some e \<Rightarrow> Inl (Wrap ''read cache invalidation token'' e)
              | None \<Rightarrow> Inr data)))"

section \<open>The caches of the proxy\<close>

record DataStoreUsage =
  UsageBytes :: u64
  UsageChunkBytes :: u64
  UsageObjects :: u64
  UsageSnapshotCount :: u64

record proxy_caches =
  bucketListCache :: "string list ttlCache"
  snapshotListCache :: "Snapshot list ttlCache"
  datastoreUsageCache :: "DataStoreUsage ttlCache"
  usageStatsCache :: "bytes ttlCache"
  archiveSizeCache :: "u64 ttlCache"
  manifestCryptModeCache :: "(string, string) gomap ttlCache"

record cacheInvalidations =
  ci_directory :: string
  ci_endpoint :: string
  ci_seen :: "(string, string) gomap"

definition configureCacheInvalidations ::
    "string \<Rightarrow> string \<Rightarrow> cacheInvalidations \<Rightarrow> cacheInvalidations" where
  "configureCacheInvalidations directory endpoint ci =
     ci\<lparr>ci_directory := directory, ci_endpoint := endpoint\<rparr>"

definition invalidateDataStoreCachesLocal :: "string \<Rightarrow> proxy_caches \<Rightarrow> proxy_caches" where
  "invalidateDataStoreCachesLocal datastore pc =
     pc\<lparr>snapshotListCache := Invalidate datastore (snapshotListCache pc),
        datastoreUsageCache := Expire datastore (datastoreUsageCache pc),
        usageStatsCache := Invalidate datastore (usageStatsCache pc),
        archiveSizeCache := InvalidatePrefix (datastore @ ''/'') (archiveSizeCache pc),
        manifestCryptModeCache := InvalidatePrefix (datastore @ ''/'') (manifestCryptModeCache pc)\<rparr>"

text \<open>A proxy process: its caches, what it knows of the tokens, and its sequence number.\<close>

record proxy_process =
  pp_caches :: proxy_caches
  pp_invalidations :: cacheInvalidations
  pp_pid :: nat
  pp_sequence :: u64

definition publishDataStoreCacheInvalidation ::
    "fs_calls \<Rightarrow> int \<Rightarrow> string \<Rightarrow> proxy_process \<Rightarrow> fs \<Rightarrow> proxy_process \<times> fs" where
  "publishDataStoreCacheInvalidation calls now datastore p f =
     (let p = p\<lparr>pp_caches := invalidateDataStoreCachesLocal datastore (pp_caches p)\<rparr>;
          ci = pp_invalidations p
      in case PublishCacheInvalidation calls now (pp_pid p) (ci_directory ci) (ci_endpoint ci)
                datastore f (pp_sequence p) of
           (r, f', sequence) \<Rightarrow>
             let p = p\<lparr>pp_sequence := sequence\<rparr> in
             (case r of
                Inl e \<Rightarrow> (p, f')
              | Inr token \<Rightarrow>
                  if token \<noteq> []
                  then (p\<lparr>pp_invalidations := ci\<lparr>ci_seen := AList.update datastore token (ci_seen ci)\<rparr>\<rparr>, f')
                  else (p, f')))"

definition syncDataStoreCacheInvalidation ::
    "goerr option \<Rightarrow> string \<Rightarrow> fs \<Rightarrow> proxy_process \<Rightarrow> proxy_process" where
  "syncDataStoreCacheInvalidation read_err datastore f p =
     (let ci = pp_invalidations p;
          seen = str_at (ci_seen ci) datastore
      in case ReadCacheInvalidation read_err (ci_directory ci) (ci_endpoint ci) datastore f of
           Inl e \<Rightarrow> p
         | Inr token \<Rightarrow>
             if token = [] \<or> token = seen then p
             else p\<lparr>pp_invalidations := ci\<lparr>ci_seen := AList.update datastore token (ci_seen ci)\<rparr>,
                    pp_caches := invalidateDataStoreCachesLocal datastore (pp_caches p)\<rparr>)"

section \<open>Lemmas\<close>

text \<open>No answer derived from the datastore is left in a cache, and no usage figure counts as fresh.\<close>

definition caches_dropped :: "string \<Rightarrow> proxy_caches \<Rightarrow> bool" where
  "caches_dropped datastore pc \<longleftrightarrow>
     cached (snapshotListCache pc) datastore = None
     \<and> cached (usageStatsCache pc) datastore = None
     \<and> (\<forall>key. cached (archiveSizeCache pc) (datastore @ ''/'' @ key) = None)
     \<and> (\<forall>key. cached (manifestCryptModeCache pc) (datastore @ ''/'' @ key) = None)
     \<and> (\<forall>now t. 0 \<le> now \<longrightarrow> t < 2 ^ 63 \<longrightarrow> \<not> is_fresh t now (entry datastore (datastoreUsageCache pc)))"

lemma HasPrefix_datastore: "HasPrefix (datastore @ CHR ''/'' # key) (datastore @ ''/'')"
  using HasPrefix_append [of "datastore @ ''/''" key] by simp

lemma Expire_not_fresh: "0 \<le> now \<Longrightarrow> t < 2 ^ 63 \<Longrightarrow> \<not> is_fresh t now (entry k (Expire k c))"
  by (cases "valid (entry k c)") (auto simp: entry_Expire zero_time_not_fresh, simp add: is_fresh_def)

lemma invalidate_local_drops: "caches_dropped datastore (invalidateDataStoreCachesLocal datastore pc)"
  by (simp add: caches_dropped_def invalidateDataStoreCachesLocal_def ttl_map.look_drop_key
      ttl_map.look_drop_prefix HasPrefix_datastore Expire_not_fresh)

text \<open>Other datastores are untouched when neither name is a path prefix of the other.\<close>

lemma HasPrefix_other:
  "CHR ''/'' \<notin> set ds \<Longrightarrow> CHR ''/'' \<notin> set other \<Longrightarrow> ds \<noteq> other \<Longrightarrow>
   \<not> HasPrefix (other @ CHR ''/'' # key) (ds @ ''/'')"
proof
  assume *: "CHR ''/'' \<notin> set ds" "CHR ''/'' \<notin> set other" "ds \<noteq> other"
    "HasPrefix (other @ CHR ''/'' # key) (ds @ ''/'')"
  then obtain t where "other @ CHR ''/'' # key = ds @ CHR ''/'' # t" by (auto simp: HasPrefix_iff)
  then have "takeWhile (\<lambda>c. c \<noteq> CHR ''/'') (other @ CHR ''/'' # key)
      = takeWhile (\<lambda>c. c \<noteq> CHR ''/'') (ds @ CHR ''/'' # t)" by simp
  with * show False by (simp add: takeWhile_sep)
qed

lemma token_not_empty [simp]:
  "invalidation_token now pid s \<noteq> []" "[] \<noteq> invalidation_token now pid s"
  by (simp_all add: invalidation_token_def)

lemma no_dash: "CHR ''-'' \<notin> set (format_nat n)"
proof
  assume "CHR ''-'' \<in> set (format_nat n)"
  then obtain d where "d < 10" "CHR ''-'' = digit_char d" using format_nat_digits by blast
  then have "digit_val CHR ''-'' = Some d" by simp
  then show False by (simp add: digit_val_def)
qed

lemma format_nat_inject: "format_nat a = format_nat b \<Longrightarrow> a = b"
proof -
  assume eq: "format_nat a = format_nat b"
  have "a < 2 ^ (a + b)" by (rule less_le_trans [OF less_exp]) simp
  moreover have "b < 2 ^ (a + b)" by (rule less_le_trans [OF less_exp]) simp
  ultimately show "a = b"
    using eq ParseUint_format [of a "a + b"] ParseUint_format [of b "a + b"] by (metis fst_conv)
qed

text \<open>Two tokens with different processes or different sequence numbers differ.\<close>

lemma append_sep_last:
  assumes "c \<notin> set y" "c \<notin> set y'" "x @ c # y = x' @ c # y'"
  shows "x = x' \<and> y = y'"
proof -
  from arg_cong [OF assms(3), of rev] have "rev y @ c # rev x = rev y' @ c # rev x'" by simp
  then have "takeWhile (\<lambda>d. d \<noteq> c) (rev y @ c # rev x) = takeWhile (\<lambda>d. d \<noteq> c) (rev y' @ c # rev x')"
    by simp
  with assms(1,2) have "rev y = rev y'" by (simp add: takeWhile_sep)
  with assms(3) show ?thesis by simp
qed

lemma token_inject:
  assumes "invalidation_token now pid s = invalidation_token now' pid' s'"
  shows "pid = pid' \<and> s = s'"
proof -
  have eq: "(format_int now @ ''-'' @ format_nat pid) @ CHR ''-'' # format_nat (unat s)
      = (format_int now' @ ''-'' @ format_nat pid') @ CHR ''-'' # format_nat (unat s')"
    using assms by (simp add: invalidation_token_def)
  from append_sep_last [OF no_dash no_dash eq]
  have "format_int now @ CHR ''-'' # format_nat pid = format_int now' @ CHR ''-'' # format_nat pid'"
    and "format_nat (unat s) = format_nat (unat s')" by simp_all
  moreover from append_sep_last [OF no_dash no_dash this(1)]
  have "format_nat pid = format_nat pid'" by simp
  ultimately show ?thesis using format_nat_inject by (metis unsigned_word_eqI)
qed

lemma publish_Inr:
  assumes "PublishCacheInvalidation calls now pid dir endpoint ds f n = (Inr token, f', n')" "dir \<noteq> []"
  shows "token = invalidation_token now pid (n + 1)" "n' = n + 1"
    "map_of f' (CacheInvalidationTokenPath dir endpoint ds) = Some token"
  using assms
  by (auto simp: PublishCacheInvalidation_def Let_def map_of_update
      split: option.splits sum.splits if_splits)

text \<open>A failed publication leaves every file but the temporary one as it was.\<close>

lemma map_of_fs_remove: "map_of (fs_remove path f) x = (if x = path then None else map_of f x)"
  by (induction f) (auto simp: fs_remove_def)

lemma publish_Inl:
  assumes "PublishCacheInvalidation calls now pid dir endpoint ds f n = (Inl e, f', n')"
    and "\<And>temporary. create_temp calls = Inr temporary \<Longrightarrow> map_of f temporary = None"
  shows "map_of f' = map_of f"
  using assms
  by (auto simp: PublishCacheInvalidation_def Let_def map_of_fs_remove map_of_update fun_eq_iff
      split: option.splits sum.splits if_splits)

lemma sync_idle:
  assumes "syncDataStoreCacheInvalidation None ds f p = p"
  shows "\<forall>token. ReadCacheInvalidation None (ci_directory (pp_invalidations p))
      (ci_endpoint (pp_invalidations p)) ds f = Inr token
    \<longrightarrow> token = [] \<or> token = str_at (ci_seen (pp_invalidations p)) ds"
proof (intro allI impI)
  fix token
  assume "ReadCacheInvalidation None (ci_directory (pp_invalidations p))
      (ci_endpoint (pp_invalidations p)) ds f = Inr token"
  then have "str_at (ci_seen (pp_invalidations (syncDataStoreCacheInvalidation None ds f p))) ds = token"
    if "token \<noteq> []" using that by (simp add: syncDataStoreCacheInvalidation_def Let_def str_at_update)
  with assms show "token = [] \<or> token = str_at (ci_seen (pp_invalidations p)) ds" by auto
qed

section \<open>Properties\<close>

text \<open>
  A publication reaches every process that shares the directory. After another process, the
  collector or a second proxy, has published an invalidation of a datastore, the next request of
  this proxy on it drops all it had cached of the datastore, whatever it had seen before from other
  processes or from earlier publications of the same one; and a second request drops nothing again.
\<close>

theorem publication_reaches_other_process:
  assumes publish: "PublishCacheInvalidation calls now pid (ci_directory (pp_invalidations p))
      (ci_endpoint (pp_invalidations p)) ds f n = (Inr token, f', n')"
    and dir: "ci_directory (pp_invalidations p) \<noteq> []"
    and seen: "str_at (ci_seen (pp_invalidations p)) ds \<noteq> token"
  defines "p' \<equiv> syncDataStoreCacheInvalidation None ds f' p"
  shows "caches_dropped ds (pp_caches p') \<and> syncDataStoreCacheInvalidation None ds f' p' = p'"
proof -
  have token: "token \<noteq> []" and stored: "map_of f' (CacheInvalidationTokenPath
      (ci_directory (pp_invalidations p)) (ci_endpoint (pp_invalidations p)) ds) = Some token"
    using publish_Inr [OF publish dir] by simp_all
  then have "p' = p\<lparr>pp_invalidations := (pp_invalidations p)\<lparr>ci_seen := AList.update ds token
        (ci_seen (pp_invalidations p))\<rparr>,
      pp_caches := invalidateDataStoreCachesLocal ds (pp_caches p)\<rparr>"
    using dir seen
    by (simp add: p'_def syncDataStoreCacheInvalidation_def ReadCacheInvalidation_def Let_def)
  then show ?thesis
    using stored dir
    by (simp add: invalidate_local_drops syncDataStoreCacheInvalidation_def ReadCacheInvalidation_def
        Let_def str_at_update)
qed

text \<open>
  Tokens do not repeat. Two successful publications, by different processes or by the same
  process with fewer than 2 to the 64 publications in between, write different tokens, so that the
  comparison with the token last seen never misses one.
\<close>

theorem published_tokens_differ:
  assumes "PublishCacheInvalidation calls now pid dir endpoint ds f n = (Inr token, f', n')"
    and "PublishCacheInvalidation calls2 now2 pid2 dir endpoint2 ds2 f2 n2 = (Inr token2, f2', n2')"
    and "dir \<noteq> []" "(pid, n) \<noteq> (pid2, n2)"
  shows "token \<noteq> token2"
  using publish_Inr(1) [OF assms(1,3)] publish_Inr(1) [OF assms(2,3)] assms(4) token_inject
  by fastforce

text \<open>
  In the process that makes a change the caches are dropped at once, whether or not the token
  could be published; and the published token is remembered, so that the process does not react to
  its own publication.
\<close>

theorem publication_is_local_first:
  assumes "publishDataStoreCacheInvalidation calls now ds p f = (p', f')"
    and fresh: "\<And>temporary. create_temp calls = Inr temporary \<Longrightarrow> map_of f temporary = None"
    and synced: "syncDataStoreCacheInvalidation None ds f p = p"
  shows "caches_dropped ds (pp_caches p')
    \<and> pp_caches (syncDataStoreCacheInvalidation None ds f' p') = pp_caches p'"
proof -
  define ci where "ci = pp_invalidations p"
  obtain r f1 n1 where r: "PublishCacheInvalidation calls now (pp_pid p) (ci_directory ci) (ci_endpoint ci)
      ds f (pp_sequence p) = (r, f1, n1)" by (metis prod_cases3)
  have "caches_dropped ds (pp_caches p')"
    using assms(1) r
    by (auto simp: publishDataStoreCacheInvalidation_def Let_def ci_def invalidate_local_drops
        split: sum.splits if_splits)
  moreover have "pp_caches (syncDataStoreCacheInvalidation None ds f' p') = pp_caches p'"
  proof (cases "ci_directory ci = []")
    case True
    then have "ci_directory (pp_invalidations p') = []"
      using assms(1) r
      by (auto simp: publishDataStoreCacheInvalidation_def Let_def ci_def split: sum.splits if_splits)
    then show ?thesis by (simp add: syncDataStoreCacheInvalidation_def ReadCacheInvalidation_def Let_def)
  next
    case dir: False
    show ?thesis
    proof (cases r)
      case (Inr token)
      note pub = publish_Inr [OF r [unfolded Inr] dir]
      then have "p' = p\<lparr>pp_caches := invalidateDataStoreCachesLocal ds (pp_caches p), pp_sequence := n1,
            pp_invalidations := ci\<lparr>ci_seen := AList.update ds token (ci_seen ci)\<rparr>\<rparr>" "f' = f1"
        using assms(1) r Inr
        by (simp_all add: publishDataStoreCacheInvalidation_def Let_def ci_def)
      with pub show ?thesis
        by (simp add: syncDataStoreCacheInvalidation_def ReadCacheInvalidation_def Let_def str_at_update)
    next
      case (Inl e)
      have "map_of f1 = map_of f" using publish_Inl [OF r [unfolded Inl] fresh] by simp
      moreover have "pp_invalidations p' = ci" "f' = f1"
        using assms(1) r Inl by (auto simp: publishDataStoreCacheInvalidation_def Let_def ci_def)
      ultimately show ?thesis
        using sync_idle [OF synced]
        by (auto simp: syncDataStoreCacheInvalidation_def ReadCacheInvalidation_def Let_def ci_def
            split: option.splits)
    qed
  qed
  ultimately show ?thesis ..
qed

section \<open>Concrete publications\<close>

definition good_calls :: fs_calls where
  "good_calls = \<lparr>mkdir_err = None, create_temp = Inr ''/run/x/.invalidate-1'', chmod_err = None,
     write_err = None, close_err = None, rename_err = None\<rparr>"

definition sample_process :: proxy_process where
  "sample_process =
     \<lparr>pp_caches = \<lparr>bucketListCache = newTTLCache [] 60, snapshotListCache = newTTLCache [] 60,
        datastoreUsageCache = newTTLCache \<lparr>UsageBytes = 0, UsageChunkBytes = 0, UsageObjects = 0,
          UsageSnapshotCount = 0\<rparr> 60, usageStatsCache = newTTLCache [] 60,
        archiveSizeCache = newTTLCache 0 60, manifestCryptModeCache = newTTLCache [] 60\<rparr>,
      pp_invalidations = \<lparr>ci_directory = ''/run/x'', ci_endpoint = ''s3'', ci_seen = []\<rparr>,
      pp_pid = 7, pp_sequence = 0\<rparr>"

lemma good_publish:
  "dir \<noteq> [] \<Longrightarrow> PublishCacheInvalidation good_calls now pid dir endpoint ds f n =
     (Inr (invalidation_token now pid (n + 1)),
      AList.update (CacheInvalidationTokenPath dir endpoint ds) (invalidation_token now pid (n + 1))
        (fs_remove ''/run/x/.invalidate-1'' (AList.update ''/run/x/.invalidate-1''
          (invalidation_token now pid (n + 1)) (AList.update ''/run/x/.invalidate-1'' [] f))),
      n + 1)"
  by (simp add: PublishCacheInvalidation_def good_calls_def Let_def)

theorem publication_reaches_other_process_witness:
  "caches_dropped ''ds'' (pp_caches (syncDataStoreCacheInvalidation None ''ds''
     (fst (snd (PublishCacheInvalidation good_calls 5 9 ''/run/x'' ''s3'' ''ds'' [] 0))) sample_process))"
  using publication_reaches_other_process [of good_calls 5 9 sample_process "''ds''" "[]" 0]
    good_publish [of "''/run/x''" 5 9 "''s3''" "''ds''" "[]" 0]
  by (simp add: sample_process_def)

theorem published_tokens_differ_witness:
  "invalidation_token 5 9 (0 + 1) \<noteq> invalidation_token 5 7 (0 + 1)"
  by (rule published_tokens_differ [OF good_publish good_publish, of "''/run/x''"]) simp_all

theorem publication_is_local_first_witness:
  "caches_dropped ''ds'' (pp_caches (fst (publishDataStoreCacheInvalidation good_calls 5 ''ds''
     sample_process [])))"
proof -
  have "publishDataStoreCacheInvalidation good_calls 5 ''ds'' sample_process []
      = (fst (publishDataStoreCacheInvalidation good_calls 5 ''ds'' sample_process []),
         snd (publishDataStoreCacheInvalidation good_calls 5 ''ds'' sample_process []))" by simp
  from publication_is_local_first [OF this] show ?thesis
    by (simp add: syncDataStoreCacheInvalidation_def ReadCacheInvalidation_def Let_def)
qed

end
