(* ===== verification/Reports.thy ===== *)
theory Reports
  imports Manifest UsageStats Invalidation
begin

text \<open>
  The figures the proxy reports: \<open>cmd/pmoxs3backuproxy/sizes.go\<close> and the functions of \<open>main.go\<close> that use
  it. Sizes and encryption modes of a listing are looked up by workers in parallel, through the caches;
  here the order in which the workers take the jobs is an argument, and so are the times of the
  lookups. The signed HEAD request for the accounting headers of a bucket, the zstd and the JSON
  decoders are parameters.
\<close>

section \<open>Archive sizes\<close>

record size_job =
  job_snapshot :: nat
  job_key :: string
  job_objSize :: int

definition archive_jobs :: "Snapshot list \<Rightarrow> size_job list" where
  "archive_jobs snapshots =
     concat (map (\<lambda>i. map (\<lambda>f. \<lparr>job_snapshot = i, job_key = S3Prefix (snapshots ! i) @ ''/'' @ Filename f,
                              job_objSize = int64_of (FileSize f)\<rparr>)
                       (filter (\<lambda>f. IsIndex (Filename f)) (Files (snapshots ! i))))
                [0..<length snapshots])"

text \<open>
  The time of a lookup and the time at which its fetch has returned, by cache key. The times are given, so
  that schedules are compared in which every lookup happens at the same times.
\<close>

type_synonym clock = "string \<Rightarrow> int \<times> int"

definition lookup_size ::
    "clock \<Rightarrow> 's s3_client \<Rightarrow> 's \<Rightarrow> Snapshot list \<Rightarrow> size_job \<Rightarrow> u64 ttlCache
      \<Rightarrow> (u64 \<times> bool) result \<times> u64 ttlCache" where
  "lookup_size clock c st snapshots j cache =
     (let ds = Datastore (snapshots ! job_snapshot j); key = ds @ ''/'' @ job_key j
      in case clock key of (now, later) \<Rightarrow>
           Get now later key (ArchiveSize c st ds (job_key j) (job_objSize j)) cache)"

fun run_size_jobs ::
    "clock \<Rightarrow> 's s3_client \<Rightarrow> 's \<Rightarrow> Snapshot list \<Rightarrow> size_job list \<Rightarrow> nat list \<Rightarrow> u64 list \<Rightarrow> u64 ttlCache
      \<Rightarrow> u64 list \<times> u64 ttlCache" where
  "run_size_jobs clock c st snapshots jobs [] sizes cache = (sizes, cache)"
| "run_size_jobs clock c st snapshots jobs (idx # order) sizes cache =
     (case lookup_size clock c st snapshots (jobs ! idx) cache of
        (Inl e, cache') \<Rightarrow> run_size_jobs clock c st snapshots jobs order sizes cache'
      | (Inr (n, fresh), cache') \<Rightarrow> run_size_jobs clock c st snapshots jobs order (sizes[idx := n]) cache')"

definition add_size :: "Snapshot list \<Rightarrow> size_job \<times> u64 \<Rightarrow> Snapshot list" where
  "add_size snapshots jn =
     (case jn of (j, n) \<Rightarrow>
        let i = job_snapshot j in
        snapshots[i := (snapshots ! i)\<lparr>Size := Size (snapshots ! i) + n\<rparr>])"

definition FillArchiveSizes ::
    "clock \<Rightarrow> nat list \<Rightarrow> 's s3_client \<Rightarrow> 's \<Rightarrow> Snapshot list \<Rightarrow> u64 ttlCache
      \<Rightarrow> Snapshot list \<times> u64 ttlCache" where
  "FillArchiveSizes clock order c st snapshots cache =
     (let jobs = archive_jobs snapshots in
      if jobs = [] then (snapshots, cache)
      else
        (case run_size_jobs clock c st snapshots jobs order (replicate (length jobs) 0) cache of
           (sizes, cache') \<Rightarrow> (foldl add_size snapshots (zip jobs sizes), cache')))"

section \<open>Encryption modes\<close>

fun run_mode_jobs ::
    "clock \<Rightarrow> (bytes \<Rightarrow> reader result) \<Rightarrow> (bytes \<Rightarrow> backupManifest result) \<Rightarrow> 's s3_client \<Rightarrow> 's \<Rightarrow> nat list
      \<Rightarrow> Snapshot list \<Rightarrow> (string, string) gomap ttlCache \<Rightarrow> Snapshot list \<times> (string, string) gomap ttlCache" where
  "run_mode_jobs clock zstd json c st [] snapshots cache = (snapshots, cache)"
| "run_mode_jobs clock zstd json c st (i # order) snapshots cache =
     (let S = snapshots ! i; key = Datastore S @ ''/'' @ S3Prefix S @ ''/index.json.blob''
      in case clock key of (now, later) \<Rightarrow>
         (case Get now later key (ReadSnapshotCryptModes zstd json c st S) cache of
            (Inl e, cache') \<Rightarrow> run_mode_jobs clock zstd json c st order snapshots cache'
          | (Inr (modes, fresh), cache') \<Rightarrow>
              run_mode_jobs clock zstd json c st order (snapshots[i := ApplySnapshotCryptModes S modes]) cache'))"

definition FillSnapshotCryptModes ::
    "clock \<Rightarrow> nat list \<Rightarrow> (bytes \<Rightarrow> reader result) \<Rightarrow> (bytes \<Rightarrow> backupManifest result) \<Rightarrow> 's s3_client \<Rightarrow> 's
      \<Rightarrow> Snapshot list \<Rightarrow> (string, string) gomap ttlCache \<Rightarrow> Snapshot list \<times> (string, string) gomap ttlCache" where
  "FillSnapshotCryptModes clock order zstd json c st snapshots cache =
     run_mode_jobs clock zstd json c st order snapshots cache"

section \<open>Sizes from the report of the collector\<close>

definition SnapshotSizeLogical :: string where "SnapshotSizeLogical = ''logical''"
definition SnapshotSizeReferenced :: string where "SnapshotSizeReferenced = ''referenced''"
definition SnapshotSizeExclusive :: string where "SnapshotSizeExclusive = ''exclusive''"

definition ValidSnapshotSizeMode :: "string \<Rightarrow> bool" where
  "ValidSnapshotSizeMode mode \<longleftrightarrow>
     mode = SnapshotSizeLogical \<or> mode = SnapshotSizeReferenced \<or> mode = SnapshotSizeExclusive"

definition ApplySnapshotSizeMode :: "string \<Rightarrow> Snapshot list \<Rightarrow> UsageStats option \<Rightarrow> Snapshot list" where
  "ApplySnapshotSizeMode mode snapshots stats =
     (case stats of
        None \<Rightarrow> snapshots
      | Some stats \<Rightarrow>
          if mode = SnapshotSizeLogical then snapshots
          else
            let byPrefix = foldl (\<lambda>m u. AList.update (UsageSnapshot u) u m) [] (UsageSnapshots stats)
            in map (\<lambda>S. case map_of byPrefix (S3Prefix S) of
                          None \<Rightarrow> S
                        | Some u \<Rightarrow>
                            if mode = SnapshotSizeReferenced then S\<lparr>Size := ReferencedBytes u\<rparr>
                            else if mode = SnapshotSizeExclusive then S\<lparr>Size := ExclusiveBytes u\<rparr>
                            else S) snapshots)"

section \<open>Usage of a datastore\<close>

record 's TicketEntry =
  AccessKeyID :: string
  SecretAccessKey :: string
  Endpoint :: string
  Client :: "'s s3_client option"
  ExpireAt :: u64

text \<open>
  The probe: the region of the bucket, then the answer to the signed HEAD request, its status and
  headers. Building the request can fail too.
\<close>

record bucket_probe =
  bp_location :: "string result"
  bp_request :: "unit result"
  bp_response :: "(nat \<times> (string, string) gomap) result"

definition zero_usage :: DataStoreUsage where
  "zero_usage = \<lparr>UsageBytes = 0, UsageChunkBytes = 0, UsageObjects = 0, UsageSnapshotCount = 0\<rparr>"

definition usageFromBucketHeaders ::
    "bucket_probe \<Rightarrow> 's TicketEntry \<Rightarrow> DataStoreUsage \<times> bool" where
  "usageFromBucketHeaders probe C =
     (if Client C = None \<or> AccessKeyID C = [] then (zero_usage, False)
      else
        (case bp_location probe of
           Inl e \<Rightarrow> (zero_usage, False)
         | Inr location \<Rightarrow>
             (case bp_request probe of
                Inl e \<Rightarrow> (zero_usage, False)
              | Inr _ \<Rightarrow>
                  (case bp_response probe of
                     Inl e \<Rightarrow> (zero_usage, False)
                   | Inr (status, headers) \<Rightarrow>
                       if status \<noteq> 200 then (zero_usage, False)
                       else
                         (case ParseUint64 (str_at headers ''x-ovh-bucket-size'') of
                            (n, Some e) \<Rightarrow> (zero_usage, False)
                          | (n, None) \<Rightarrow>
                              let usage = zero_usage\<lparr>UsageBytes := n\<rparr> in
                              (case ParseUint64 (str_at headers ''x-ovh-bucket-object-count'') of
                                 (cnt, None) \<Rightarrow> (usage\<lparr>UsageObjects := cnt\<rparr>, True)
                               | (cnt, Some e) \<Rightarrow> (usage, True)))))))"

text \<open>The loop that finds the end of the snapshot's name: nothing is counted without a slash.\<close>

function count_prefix :: "string \<Rightarrow> nat \<Rightarrow> (string, bool) gomap \<Rightarrow> (string, bool) gomap" where
  "count_prefix rest i prefixes =
     (if i < length rest then
        (if rest ! i = CHR ''/'' then AList.update (take i rest) True prefixes
         else count_prefix rest (Suc i) prefixes)
      else prefixes)"
  by pat_completeness auto
termination
  by (relation "measure (\<lambda>(rest, i, _). length rest - i)") auto

declare count_prefix.simps [simp del]

fun walk_loop ::
    "object_info list \<Rightarrow> DataStoreUsage \<Rightarrow> (string, bool) gomap
      \<Rightarrow> (DataStoreUsage \<times> (string, bool) gomap) result" where
  "walk_loop [] usage prefixes = Inr (usage, prefixes)"
| "walk_loop (obj # objects) usage prefixes =
     (case ListErr obj of
        Some e \<Rightarrow> Inl e
      | None \<Rightarrow>
          let usage = usage\<lparr>UsageObjects := UsageObjects usage + 1,
                            UsageBytes := UsageBytes usage + uint64_of (ObjectSize obj)\<rparr>
          in if length (Key obj) > 7 \<and> take 7 (Key obj) = ''chunks/''
             then walk_loop objects
                    (usage\<lparr>UsageChunkBytes := UsageChunkBytes usage + uint64_of (ObjectSize obj)\<rparr>) prefixes
             else if length (Key obj) > 8 \<and> take 8 (Key obj) = ''backups/''
             then walk_loop objects usage (count_prefix (drop 8 (Key obj)) 0 prefixes)
             else walk_loop objects usage prefixes)"

definition walkDataStoreUsage :: "'s s3_client \<Rightarrow> 's \<Rightarrow> string \<Rightarrow> DataStoreUsage result" where
  "walkDataStoreUsage c st datastore =
     (case walk_loop (ListObjects c st datastore []) zero_usage [] of
        Inl e \<Rightarrow> Inl e
      | Inr (usage, prefixes) \<Rightarrow> Inr (usage\<lparr>UsageSnapshotCount := word_of_nat (length prefixes)\<rparr>))"

text \<open>Without a client the walk dereferences a nil pointer.\<close>

definition ComputeDataStoreUsage ::
    "bucket_probe \<Rightarrow> 's TicketEntry \<Rightarrow> 's \<Rightarrow> string \<Rightarrow> DataStoreUsage result outcome" where
  "ComputeDataStoreUsage probe C st datastore =
     (case usageFromBucketHeaders probe C of
        (usage, True) \<Rightarrow> Returns (Inr usage)
      | (_, False) \<Rightarrow>
          (case Client C of
             None \<Rightarrow> Panics ''nil pointer dereference''
           | Some c \<Rightarrow> Returns (walkDataStoreUsage c st datastore)))"

text \<open>The ticks before the deadline, each with the cache as it is then.\<close>

fun waitForDataStoreUsage :: "string \<Rightarrow> DataStoreUsage ttlCache list \<Rightarrow> DataStoreUsage \<times> bool" where
  "waitForDataStoreUsage key [] = (zero_usage, False)"
| "waitForDataStoreUsage key (cache # ticks) =
     (case fst (Peek key cache) of
        (usage, True) \<Rightarrow> (usage, True)
      | (_, False) \<Rightarrow> waitForDataStoreUsage key ticks)"

section \<open>Reports in a listing\<close>

record report_flags =
  reportDataStoreUsage :: bool
  reportArchiveSize :: bool
  reportEncryption :: bool
  reportGCStats :: bool
  snapshotSizeMode :: string
  datastoreCapacity :: u64

text \<open>
  The decoders, the times and schedules of the lookups, and the time of the report and the listing
  lookups themselves.
\<close>

record report_env =
  re_clock :: clock
  re_size_order :: "nat list"
  re_mode_order :: "nat list"
  re_zstd :: "bytes \<Rightarrow> reader result"
  re_manifest :: "bytes \<Rightarrow> backupManifest result"
  re_stats :: "bytes \<Rightarrow> UsageStats result"

text \<open>The object store is asked only when the cached report is not fresh.\<close>

definition read_report :: "'s s3_client \<Rightarrow> 's \<Rightarrow> string \<Rightarrow> bytes result" where
  "read_report c st datastore =
     (case GetObject c st datastore UsageStatsObject of
        Inl e \<Rightarrow> Inl e
      | Inr obj \<Rightarrow> io_ReadAll (oh_body obj))"

definition readUsageStats ::
    "report_flags \<Rightarrow> report_env \<Rightarrow> 's s3_client \<Rightarrow> 's \<Rightarrow> string \<Rightarrow> proxy_caches
      \<Rightarrow> UsageStats option \<times> proxy_caches" where
  "readUsageStats fl env c st datastore pc =
     (if snapshotSizeMode fl = SnapshotSizeLogical then (None, pc)
      else
        (case re_clock env datastore of (now, later) \<Rightarrow>
         (case Get now later datastore (read_report c st datastore) (usageStatsCache pc) of
            (Inl e, cache') \<Rightarrow> (None, pc\<lparr>usageStatsCache := cache'\<rparr>)
          | (Inr (raw, fresh), cache') \<Rightarrow>
              (case re_stats env raw of
                 Inl e \<Rightarrow> (None, pc\<lparr>usageStatsCache := cache'\<rparr>)
               | Inr stats \<Rightarrow> (Some stats, pc\<lparr>usageStatsCache := cache'\<rparr>)))))"

definition applyOptionalSnapshotReports ::
    "report_flags \<Rightarrow> report_env \<Rightarrow> 's s3_client \<Rightarrow> 's \<Rightarrow> string \<Rightarrow> Snapshot list \<Rightarrow> proxy_caches
      \<Rightarrow> Snapshot list \<times> proxy_caches" where
  "applyOptionalSnapshotReports fl env c st datastore snapshots pc =
     (let (snapshots, pc) =
            (if reportEncryption fl then
               (case FillSnapshotCryptModes (re_clock env) (re_mode_order env) (re_zstd env) (re_manifest env) c st
                       snapshots (manifestCryptModeCache pc) of
                  (ss, cache') \<Rightarrow> (ss, pc\<lparr>manifestCryptModeCache := cache'\<rparr>))
             else (snapshots, pc));
          (snapshots, pc) =
            (if reportArchiveSize fl then
               (case FillArchiveSizes (re_clock env) (re_size_order env) c st snapshots (archiveSizeCache pc) of
                  (ss, cache') \<Rightarrow> (ss, pc\<lparr>archiveSizeCache := cache'\<rparr>))
             else (snapshots, pc))
      in if reportGCStats fl then
           (case readUsageStats fl env c st datastore pc of
              (stats, pc) \<Rightarrow> (ApplySnapshotSizeMode (snapshotSizeMode fl) snapshots stats, pc))
         else (snapshots, pc))"

definition fetch_snapshots ::
    "report_flags \<Rightarrow> report_env \<Rightarrow> 's s3_client \<Rightarrow> 's \<Rightarrow> string \<Rightarrow> proxy_caches
      \<Rightarrow> Snapshot list result \<times> proxy_caches" where
  "fetch_snapshots fl env c st datastore pc =
     (case ListSnapshots c st datastore False of
        Inl e \<Rightarrow> (Inl e, pc)
      | Inr s \<Rightarrow> (case applyOptionalSnapshotReports fl env c st datastore s pc of (s', pc') \<Rightarrow> (Inr s', pc')))"

text \<open>The fetch, with its effects on the other caches, runs only when the listing is not fresh.\<close>

definition listSnapshotsCached ::
    "report_flags \<Rightarrow> report_env \<Rightarrow> 's s3_client \<Rightarrow> 's \<Rightarrow> string \<Rightarrow> proxy_caches
      \<Rightarrow> Snapshot list result \<times> proxy_caches" where
  "listSnapshotsCached fl env c st datastore pc =
     (case re_clock env datastore of (now, later) \<Rightarrow>
      (case fetch_snapshots fl env c st datastore pc of (listing, pc') \<Rightarrow>
        let cache = snapshotListCache pc;
            pc = (if is_fresh (ttl cache) now (entry datastore cache) then pc else pc')
        in (case Get now later datastore listing cache of
              (Inl e, cache') \<Rightarrow> (Inl e, pc\<lparr>snapshotListCache := cache'\<rparr>)
            | (Inr (snapshots, fresh), cache') \<Rightarrow> (Inr snapshots, pc\<lparr>snapshotListCache := cache'\<rparr>))))"

section \<open>The status of a datastore and its groups\<close>

record DataStoreStatus =
  Avail :: int
  Total :: int
  Used :: int
  Counts :: int
  GCState :: bool

definition unknownDataStoreCapacity :: u64 where
  "unknownDataStoreCapacity = 1125899906842624"

definition readDataStoreUsageForStatus ::
    "report_flags \<Rightarrow> int \<Rightarrow> string \<Rightarrow> DataStoreUsage ttlCache list \<Rightarrow> proxy_caches
      \<Rightarrow> (DataStoreUsage \<times> bool) \<times> u64 option \<times> proxy_caches" where
  "readDataStoreUsageForStatus fl now datastore ticks pc =
     (if \<not> reportDataStoreUsage fl then ((zero_usage, False), None, pc)
      else
        (case GetAsync now datastore (datastoreUsageCache pc) of
           ((usage, known), started, cache') \<Rightarrow>
             (if known then (usage, True) else waitForDataStoreUsage datastore ticks,
              started, pc\<lparr>datastoreUsageCache := cache'\<rparr>)))"

definition datastore_status :: "report_flags \<Rightarrow> DataStoreUsage \<Rightarrow> bool \<Rightarrow> Snapshot list option \<Rightarrow> DataStoreStatus" where
  "datastore_status fl usage known cached_listing =
     (if \<not> known
      then \<lparr>Avail = 10000000, Total = 10000 + 10000000, Used = 10000, Counts = 0, GCState = True\<rparr>
      else
        let usage = (if UsageSnapshotCount usage = 0 then
                       (case cached_listing of
                          Some snapshots \<Rightarrow> usage\<lparr>UsageSnapshotCount := word_of_nat (length snapshots)\<rparr>
                        | None \<Rightarrow> usage)
                     else usage);
            avail = (if datastoreCapacity fl > UsageBytes usage then datastoreCapacity fl - UsageBytes usage
                     else if datastoreCapacity fl > 0 then 0
                     else unknownDataStoreCapacity)
        in \<lparr>Avail = int64_of avail, Total = int64_of (UsageBytes usage + avail), Used = int64_of (UsageBytes usage),
            Counts = int64_of (UsageSnapshotCount usage), GCState = True\<rparr>)"

text \<open>\<open>Peek\<close> of the listing creates an empty entry when there is none.\<close>

definition status_handler ::
    "report_flags \<Rightarrow> int \<Rightarrow> string \<Rightarrow> DataStoreUsage ttlCache list \<Rightarrow> proxy_caches
      \<Rightarrow> DataStoreStatus \<times> u64 option \<times> proxy_caches" where
  "status_handler fl now ds ticks pc =
     (case readDataStoreUsageForStatus fl now ds ticks pc of
        ((usage, known), started, pc) \<Rightarrow>
          if known \<and> UsageSnapshotCount usage = 0 then
            (case Peek ds (snapshotListCache pc) of
               ((snapshots, ok), cache') \<Rightarrow>
                 (datastore_status fl usage known (if ok then Some snapshots else None), started,
                  pc\<lparr>snapshotListCache := cache'\<rparr>))
          else (datastore_status fl usage known None, started, pc))"

record Group =
  Count :: u64
  GroupID :: string
  GroupType :: string
  GroupFiles :: "string list"
  LastBackup :: u64
  GroupSize :: u64
  Owner :: string

definition groupSize :: "u64 \<Rightarrow> u64" where
  "groupSize n = (if n = 0 then 200 else n)"

definition add_group :: "string \<Rightarrow> Group list \<Rightarrow> Snapshot \<Rightarrow> Group list" where
  "add_group accessKey groups snap =
     (let g = \<lparr>Count = 1, GroupID = BackupID snap, GroupType = BackupType snap,
               GroupFiles = map Filename (Files snap), LastBackup = BackupTime snap,
               GroupSize = groupSize (Size snap), Owner = accessKey @ ''@pbs''\<rparr>;
          same = (\<lambda>h. GroupType h = GroupType g \<and> GroupID h = GroupID g)
      in if list_ex same groups
         then map (\<lambda>h. if same h then h\<lparr>Count := Count h + 1, LastBackup := LastBackup g\<rparr> else h) groups
         else groups @ [g])"

text \<open>An error of the listing is ignored; the list is then empty.\<close>

definition groups_handler :: "string \<Rightarrow> Snapshot list result \<Rightarrow> Group list" where
  "groups_handler accessKey listing =
     foldl (add_group accessKey) [] (case listing of Inl e \<Rightarrow> [] | Inr snapshots \<Rightarrow> snapshots)"

section \<open>Lemmas: the walk\<close>

definition is_chunk_key :: "string \<Rightarrow> bool" where
  "is_chunk_key k \<longleftrightarrow> HasPrefix k ''chunks/'' \<and> k \<noteq> ''chunks/''"

text \<open>The name of the snapshot in a key under \<open>backups/\<close> that goes on after it.\<close>

definition snapshot_dir :: "string \<Rightarrow> string option" where
  "snapshot_dir k =
     (if HasPrefix k ''backups/'' \<and> CHR ''/'' \<in> set (drop 8 k)
      then Some (takeWhile (\<lambda>x. x \<noteq> CHR ''/'') (drop 8 k)) else None)"

lemma count_prefix_from:
  "(\<forall>j < i. rest ! j \<noteq> CHR ''/'') \<Longrightarrow> i \<le> length rest \<Longrightarrow>
   count_prefix rest i m =
     (if CHR ''/'' \<in> set rest then AList.update (takeWhile (\<lambda>x. x \<noteq> CHR ''/'') rest) True m else m)"
proof (induction rest i m rule: count_prefix.induct)
  case (1 rest i m)
  show ?case
  proof (cases "i < length rest")
    case True
    show ?thesis
    proof (cases "rest ! i = CHR ''/''")
      case slash: True
      then have "takeWhile (\<lambda>x. x \<noteq> CHR ''/'') rest = take i rest"
        using "1.prems" True by (intro takeWhile_eq_take_P_nth) auto
      moreover have "CHR ''/'' \<in> set rest" using True slash by (metis nth_mem)
      ultimately show ?thesis using True slash by (simp add: count_prefix.simps [of rest i])
    next
      case False
      then have "\<forall>j < Suc i. rest ! j \<noteq> CHR ''/''" using "1.prems"(1) less_Suc_eq by auto
      with "1.IH" [OF True False] True False show ?thesis by (simp add: count_prefix.simps [of rest i])
    qed
  next
    case False
    then have "CHR ''/'' \<notin> set rest" using "1.prems" by (auto simp: in_set_conv_nth)
    with False show ?thesis by (simp add: count_prefix.simps [of rest i])
  qed
qed

text \<open>What the walk adds up, by its objects.\<close>

definition usage_sum :: "object_info list \<Rightarrow> DataStoreUsage \<Rightarrow> DataStoreUsage" where
  "usage_sum objects u = u\<lparr>
     UsageObjects := UsageObjects u + word_of_nat (length objects),
     UsageBytes := UsageBytes u + (\<Sum>obj \<leftarrow> objects. uint64_of (ObjectSize obj)),
     UsageChunkBytes := UsageChunkBytes u
       + (\<Sum>obj \<leftarrow> filter (\<lambda>obj. is_chunk_key (Key obj)) objects. uint64_of (ObjectSize obj))\<rparr>"

definition snapshot_dirs :: "object_info list \<Rightarrow> string set" where
  "snapshot_dirs objects = {d. \<exists>obj \<in> set objects. snapshot_dir (Key obj) = Some d}"

lemma proper_prefix: "(length p < length k \<and> take (length p) k = p) = (HasPrefix k p \<and> k \<noteq> p)"
proof -
  have "length p < length k" if "take (length p) k = p" "k \<noteq> p"
    using that by (metis linorder_not_le take_all)
  then show ?thesis by (auto simp: HasPrefix_def)
qed

lemma walk_step_conditions:
  "(length k > 7 \<and> take 7 k = ''chunks/'') = is_chunk_key k"
  "(length k > 8 \<and> take 8 k = ''backups/'') = (HasPrefix k ''backups/'' \<and> k \<noteq> ''backups/'')"
  "is_chunk_key k \<Longrightarrow> snapshot_dir k = None"
proof -
  have lens: "length ''chunks/'' = 7" "length ''backups/'' = 8" by simp_all
  show "(length k > 7 \<and> take 7 k = ''chunks/'') = is_chunk_key k"
    unfolding is_chunk_key_def by (rule proper_prefix [of "''chunks/''" k, unfolded lens])
  show "(length k > 8 \<and> take 8 k = ''backups/'') = (HasPrefix k ''backups/'' \<and> k \<noteq> ''backups/'')"
    by (rule proper_prefix [of "''backups/''" k, unfolded lens])
  show "is_chunk_key k \<Longrightarrow> snapshot_dir k = None"
    by (auto simp: is_chunk_key_def snapshot_dir_def HasPrefix_iff)
qed

lemma walk_loop_spec:
  "walk_loop objects u m =
     (case find (\<lambda>obj. ListErr obj \<noteq> None) objects of
        Some obj \<Rightarrow> Inl (the (ListErr obj))
      | None \<Rightarrow> Inr (usage_sum objects u,
          foldl (\<lambda>m obj. case snapshot_dir (Key obj) of Some d \<Rightarrow> AList.update d True m | None \<Rightarrow> m) m objects))"
proof (induction objects arbitrary: u m)
  case (Cons obj objects)
  have dir: "count_prefix (drop 8 (Key obj)) 0 m
      = (case snapshot_dir (Key obj) of Some d \<Rightarrow> AList.update d True m | None \<Rightarrow> m)"
    if "HasPrefix (Key obj) ''backups/''" for m
    using that by (subst count_prefix_from) (auto simp: snapshot_dir_def)
  have "snapshot_dir (Key obj) = None" if "\<not> HasPrefix (Key obj) ''backups/'' \<or> Key obj = ''backups/''"
    using that by (auto simp: snapshot_dir_def)
  with dir walk_step_conditions [of "Key obj"] Cons.IH show ?case
    by (auto simp: usage_sum_def Let_def algebra_simps split: option.splits)
qed (simp add: usage_sum_def)

lemma foldl_dirs:
  assumes "distinct (map fst m)"
  shows "fst ` set (foldl (\<lambda>m obj. case f obj of Some d \<Rightarrow> AList.update d True m | None \<Rightarrow> m) m objects)
      = fst ` set m \<union> {d. \<exists>obj \<in> set objects. f obj = Some d}"
    and "distinct (map fst (foldl (\<lambda>m obj. case f obj of Some d \<Rightarrow> AList.update d True m | None \<Rightarrow> m) m objects))"
  using assms
  by (induction objects arbitrary: m) (auto simp: keys_update distinct_keys_update split: option.splits)

section \<open>Lemmas: parallel lookups\<close>

text \<open>The size a lookup finds: the cached one while it is fresh or the store cannot be read.\<close>

definition size_key :: "Snapshot list \<Rightarrow> size_job \<Rightarrow> string" where
  "size_key snapshots j = Datastore (snapshots ! job_snapshot j) @ ''/'' @ job_key j"

definition found_size ::
    "clock \<Rightarrow> 's s3_client \<Rightarrow> 's \<Rightarrow> Snapshot list \<Rightarrow> u64 ttlCache \<Rightarrow> size_job \<Rightarrow> u64" where
  "found_size clock c st snapshots cache j =
     (case fst (lookup_size clock c st snapshots j cache) of Inr (n, fresh) \<Rightarrow> n | Inl e \<Rightarrow> 0)"

lemma Get_other:
  assumes "k \<noteq> k'"
  shows "fst (Get now later k' f (snd (Get now' later' k g cache))) = fst (Get now later k' f cache)"
proof -
  let ?c = "snd (Get now' later' k g cache)"
  have "ttl ?c = ttl cache" by (simp add: Get_def Let_def split: sum.split)
  moreover have "entry k' ?c = entry k' cache" using assms by (simp add: entry_Get)
  ultimately show ?thesis by (simp add: Get_def [of now later k' f] Let_def split: sum.split)
qed

lemma lookup_size_other:
  assumes "size_key snapshots j \<noteq> size_key snapshots j'"
  shows "fst (lookup_size clock c st snapshots j' (snd (lookup_size clock c st snapshots j cache)))
    = fst (lookup_size clock c st snapshots j' cache)"
  using assms Get_other unfolding lookup_size_def size_key_def Let_def case_prod_unfold by blast

lemma run_size_jobs_sizes:
  assumes "distinct order" "set order \<subseteq> {..<length jobs}" "inj_on (\<lambda>i. size_key snapshots (jobs ! i)) (set order)"
    and "length sizes = length jobs" "\<forall>i \<in> set order. sizes ! i = 0" "i < length jobs"
  shows "fst (run_size_jobs clock c st snapshots jobs order sizes cache) ! i =
    (if i \<in> set order then found_size clock c st snapshots cache (jobs ! i) else sizes ! i)
    \<and> length (fst (run_size_jobs clock c st snapshots jobs order sizes cache)) = length jobs"
  using assms
proof (induction order arbitrary: sizes cache)
  case (Cons idx order)
  obtain r cache' where look: "lookup_size clock c st snapshots (jobs ! idx) cache = (r, cache')" by fastforce
  have same: "found_size clock c st snapshots cache' (jobs ! i) = found_size clock c st snapshots cache (jobs ! i)"
    if "i \<in> set order" for i
  proof -
    have "size_key snapshots (jobs ! idx) \<noteq> size_key snapshots (jobs ! i)"
      using Cons.prems(1,3) that by (auto simp: inj_on_def)
    from lookup_size_other [OF this, of clock c st cache] look show ?thesis by (simp add: found_size_def)
  qed
  define sizes' where "sizes' = (case r of Inl e \<Rightarrow> sizes | Inr (n, fresh) \<Rightarrow> sizes[idx := n])"
  have run: "run_size_jobs clock c st snapshots jobs (idx # order) sizes cache
      = run_size_jobs clock c st snapshots jobs order sizes' cache'"
    using look by (auto simp: sizes'_def split: sum.split)
  have sizes': "length sizes' = length jobs" "\<And>i. i \<noteq> idx \<Longrightarrow> sizes' ! i = sizes ! i"
    "sizes' ! idx = found_size clock c st snapshots cache (jobs ! idx)"
    using Cons.prems(2,4,5) look by (auto simp: sizes'_def found_size_def split: sum.split)
  have IH: "fst (run_size_jobs clock c st snapshots jobs order sizes' cache') ! i =
      (if i \<in> set order then found_size clock c st snapshots cache' (jobs ! i) else sizes' ! i)
      \<and> length (fst (run_size_jobs clock c st snapshots jobs order sizes' cache')) = length jobs"
  proof (rule Cons.IH)
    show "\<forall>i \<in> set order. sizes' ! i = 0"
      using Cons.prems(1,5) sizes'(2) by (metis distinct.simps(2) list.set_intros(2))
  qed (use Cons.prems sizes'(1) in \<open>auto simp: inj_on_def\<close>)
  show ?case
    unfolding run using IH same [of i] sizes' Cons.prems(1) by (cases "i = idx") auto
qed simp

lemma foldl_add_size:
  "(\<forall>(j, n) \<in> set xs. job_snapshot j < length ss) \<Longrightarrow> foldl add_size ss xs =
     map (\<lambda>i. (ss ! i)\<lparr>Size := Size (ss ! i) + (\<Sum>(j, n) \<leftarrow> xs. if job_snapshot j = i then n else 0)\<rparr>) [0..<length ss]"
proof (induction xs rule: rev_induct)
  case Nil
  show ?case by (simp add: map_nth)
next
  case (snoc x xs)
  obtain j n where x: "x = (j, n)" by fastforce
  from snoc x show ?case
    by (auto simp: add_size_def Let_def nth_list_update intro!: nth_equalityI)
qed

lemma job_snapshot_bound: "j \<in> set (archive_jobs snapshots) \<Longrightarrow> job_snapshot j < length snapshots"
  by (auto simp: archive_jobs_def)

lemma sum_list_filter_if:
  "(\<Sum>x \<leftarrow> xs. if P x then f x else 0) = (\<Sum>x \<leftarrow> filter P xs. f x)" for f :: "'a \<Rightarrow> u64"
  by (induction xs) auto

section \<open>Properties\<close>

text \<open>
  C34: The sizes of a listing do not depend on the workers. In whatever order the parallel workers take
  the lookups, each exactly once, every snapshot ends with its former size plus the sizes found for
  its index files, each as if it were looked up alone, and a size that cannot be found adds nothing.
\<close>

theorem FillArchiveSizes_any_schedule:
  assumes "distinct order" "set order = {..<length (archive_jobs snapshots)}"
    and "distinct (map (size_key snapshots) (archive_jobs snapshots))"
  shows "fst (FillArchiveSizes clock order c st snapshots cache) =
    map (\<lambda>i. (snapshots ! i)\<lparr>Size := Size (snapshots ! i) +
        (\<Sum>j \<leftarrow> filter (\<lambda>j. job_snapshot j = i) (archive_jobs snapshots). found_size clock c st snapshots cache j)\<rparr>)
      [0..<length snapshots]"
proof -
  let ?jobs = "archive_jobs snapshots" and ?found = "found_size clock c st snapshots cache"
  let ?sizes = "fst (run_size_jobs clock c st snapshots ?jobs order (replicate (length ?jobs) 0) cache)"
  have inj: "inj_on (\<lambda>i. size_key snapshots (?jobs ! i)) (set order)"
    using assms(2,3) by (auto simp: inj_on_def distinct_conv_nth)
  have "?sizes ! i = ?found (?jobs ! i) \<and> length ?sizes = length ?jobs" if "i < length ?jobs" for i
    using run_size_jobs_sizes [OF assms(1) _ inj, of "replicate (length ?jobs) 0" i] assms(2) that by simp
  note each = this
  have sizes: "?sizes = map ?found ?jobs" if "?jobs \<noteq> []"
  proof (rule nth_equalityI)
    show len: "length ?sizes = length (map ?found ?jobs)" using each [of 0] that by simp
    show "?sizes ! i = map ?found ?jobs ! i" if "i < length ?sizes" for i
      using each [of i] len that by simp
  qed
  have zip: "zip ?jobs (map ?found ?jobs) = map (\<lambda>j. (j, ?found j)) ?jobs"
    by (simp add: zip_map2 zip_same_conv_map)
  have all: "foldl add_size snapshots (zip ?jobs (map ?found ?jobs)) =
      map (\<lambda>i. (snapshots ! i)\<lparr>Size := Size (snapshots ! i) +
        (\<Sum>j \<leftarrow> filter (\<lambda>j. job_snapshot j = i) ?jobs. ?found j)\<rparr>) [0..<length snapshots]"
    unfolding zip by (subst foldl_add_size) (auto simp: job_snapshot_bound comp_def sum_list_filter_if)
  show ?thesis
  proof (cases "?jobs = []")
    case True
    with all show ?thesis by (simp add: FillArchiveSizes_def)
  next
    case False
    with all sizes [OF False] show ?thesis
      by (simp add: FillArchiveSizes_def Let_def case_prod_unfold)
  qed
qed

text \<open>Two snapshots with an index each, looked up in reverse order.\<close>

definition sample_listing :: "Snapshot list" where
  "sample_listing =
     [sample_snapshot\<lparr>Datastore := ''ds'', Files := [\<lparr>Filename = ''a.fidx'', CryptMode = [], FileSize = 9\<rparr>]\<rparr>,
      sample_snapshot\<lparr>Datastore := ''ds'', BackupTime := 5, Files := [\<lparr>Filename = ''b.fidx'', CryptMode = [], FileSize = 9\<rparr>]\<rparr>]"

lemma sample_jobs:
  "map job_key (archive_jobs sample_listing) = map (\<lambda>S. S3Prefix S @ ''/'' @ Filename (hd (Files S))) sample_listing"
  "map job_snapshot (archive_jobs sample_listing) = [0, 1]" "length (archive_jobs sample_listing) = 2"
  by (simp_all add: archive_jobs_def sample_listing_def IsIndex_def HasSuffix_def upt_rec)

theorem FillArchiveSizes_any_schedule_witness:
  "fst (FillArchiveSizes (\<lambda>_. (0, 0)) [1, 0] mem_client [] sample_listing (newTTLCache 0 0)) =
   fst (FillArchiveSizes (\<lambda>_. (0, 0)) [0, 1] mem_client [] sample_listing (newTTLCache 0 0))"
proof -
  have "distinct (map (size_key sample_listing) (archive_jobs sample_listing))"
    by (simp add: archive_jobs_def sample_listing_def IsIndex_def HasSuffix_def upt_rec size_key_def S3Prefix_def)
  moreover have "{..<length (archive_jobs sample_listing)} = {0, 1}" by (auto simp: sample_jobs)
  ultimately show ?thesis
    using FillArchiveSizes_any_schedule [of "[1, 0]" sample_listing "\<lambda>_. (0, 0)" mem_client "[]" "newTTLCache 0 0"]
      FillArchiveSizes_any_schedule [of "[0, 1]" sample_listing "\<lambda>_. (0, 0)" mem_client "[]" "newTTLCache 0 0"]
    by (simp add: insert_commute)
qed

text \<open>
  C35: The usage of a bucket is computed exactly from its listing. A walk that meets an error in the
  listing gives that error and no figure; otherwise it counts every object once, adds every size
  once, adds to the chunks exactly the sizes of the objects under \<open>chunks/\<close>, and counts every
  snapshot once, however many objects it has.
\<close>

theorem walkDataStoreUsage_spec:
  "walkDataStoreUsage c st datastore =
     (let objects = ListObjects c st datastore [] in
      case find (\<lambda>obj. ListErr obj \<noteq> None) objects of
        Some obj \<Rightarrow> Inl (the (ListErr obj))
      | None \<Rightarrow> Inr \<lparr>
          UsageBytes = (\<Sum>obj \<leftarrow> objects. uint64_of (ObjectSize obj)),
          UsageChunkBytes = (\<Sum>obj \<leftarrow> filter (\<lambda>obj. is_chunk_key (Key obj)) objects. uint64_of (ObjectSize obj)),
          UsageObjects = word_of_nat (length objects),
          UsageSnapshotCount = word_of_nat (card (snapshot_dirs objects))\<rparr>)"
proof -
  let ?objects = "ListObjects c st datastore []"
  let ?m = "foldl (\<lambda>m obj. case snapshot_dir (Key obj) of Some d \<Rightarrow> AList.update d True m | None \<Rightarrow> m) [] ?objects"
  have "card (fst ` set ?m) = length ?m"
    using distinct_card [OF foldl_dirs(2) [of "[]" "\<lambda>obj. snapshot_dir (Key obj)" ?objects]] by simp
  then have "length ?m = card (snapshot_dirs ?objects)"
    using foldl_dirs(1) [of "[]" "\<lambda>obj. snapshot_dir (Key obj)" ?objects] by (simp add: snapshot_dirs_def)
  then show ?thesis
    by (simp add: walkDataStoreUsage_def walk_loop_spec usage_sum_def zero_usage_def Let_def split: option.split)
qed

text \<open>
  The figures of a datastore add up. For a usage and a capacity below \<open>2^62\<close> bytes, used and free
  space are never negative and sum up to the total, the total is the configured capacity as long as
  the usage is below it, nothing is free once it is reached, and without a capacity the free space
  is never reported as zero.
\<close>

theorem datastore_status_adds_up:
  assumes "uint (UsageBytes usage) < 2 ^ 62" "uint (datastoreCapacity fl) < 2 ^ 62"
    and "status = datastore_status fl usage True listing"
  shows "0 \<le> Used status \<and> 0 \<le> Avail status \<and> Total status = Used status + Avail status
    \<and> Used status = uint (UsageBytes usage)
    \<and> (uint (UsageBytes usage) < uint (datastoreCapacity fl) \<longrightarrow> Total status = uint (datastoreCapacity fl))
    \<and> (datastoreCapacity fl \<noteq> 0 \<longrightarrow> uint (datastoreCapacity fl) \<le> uint (UsageBytes usage) \<longrightarrow> Avail status = 0)
    \<and> (datastoreCapacity fl = 0 \<longrightarrow> 0 < Avail status)"
proof -
  define bytes where "bytes = UsageBytes usage"
  define avail where "avail = (if datastoreCapacity fl > bytes then datastoreCapacity fl - bytes
    else if datastoreCapacity fl > 0 then 0 else unknownDataStoreCapacity)"
  have cases: "uint avail = (if uint bytes < uint (datastoreCapacity fl) then uint (datastoreCapacity fl) - uint bytes
    else if datastoreCapacity fl \<noteq> 0 then 0 else 2 ^ 50)"
    by (auto simp: avail_def word_less_def unknownDataStoreCapacity_def uint_sub_if' word_neq_0_conv)
  have "uint avail < 2 ^ 62"
  proof (cases "uint bytes < uint (datastoreCapacity fl)")
    case True
    then have "uint avail = uint (datastoreCapacity fl) - uint bytes" using cases by simp
    then show ?thesis using assms(2) uint_ge_0 [of bytes] by linarith
  next
    case False
    then have "uint avail \<le> 2 ^ 50" using cases by simp
    then show ?thesis by simp
  qed
  then have bound: "uint bytes < 2 ^ 62" "uint avail < 2 ^ 62" using assms(1) by (simp_all add: bytes_def)
  have sum: "uint (bytes + avail) = uint bytes + uint avail"
    using bound by (subst uint_add_lem [THEN iffD1]) auto
  have "Used status = int64_of bytes" "Avail status = int64_of avail" "Total status = int64_of (bytes + avail)"
    using assms(3) by (simp_all add: datastore_status_def Let_def bytes_def avail_def split: option.split)
  then have "Used status = uint bytes" "Avail status = uint avail" "Total status = uint (bytes + avail)"
    using int64_of_small [of bytes] int64_of_small [of avail] int64_of_small [of "bytes + avail"] bound sum by simp_all
  with sum cases bound show ?thesis by (auto simp: bytes_def)
qed

theorem datastore_status_adds_up_witness:
  "let fl = \<lparr>reportDataStoreUsage = True, reportArchiveSize = False, reportEncryption = False,
             reportGCStats = False, snapshotSizeMode = ''logical'', datastoreCapacity = 1000\<rparr>
   in Total (datastore_status fl (zero_usage\<lparr>UsageBytes := 300\<rparr>) True None) = 1000"
  using datastore_status_adds_up [of "zero_usage\<lparr>UsageBytes := 300\<rparr>"
      "\<lparr>reportDataStoreUsage = True, reportArchiveSize = False, reportEncryption = False,
        reportGCStats = False, snapshotSizeMode = ''logical'', datastoreCapacity = 1000\<rparr>" _ None, OF _ _ refl]
  by simp

end
