(* ===== verification/ChunkUpload.thy ===== *)
theory ChunkUpload
  imports Collector
begin

text \<open>
  \<open>cmd/pmoxs3backuproxy/chunk_upload.go\<close>: naming, validation and storage of chunks, and the group
  that lets one of several concurrent uploads of the same chunk do the work.

  The naming of a chunk object is an interface between two programs, the proxy that writes it and
  the collector that reads it back; it is stated as a locale and interpreted on the functions of
  both. The flight group is a state machine over the requests that arrive, lead, follow and finish.
\<close>

section \<open>Requests\<close>

record chunkRequest =
  Digest :: string
  EncodedSize :: int
  RequestSize :: u64
  WriterID :: int
  ObjectName :: string

definition chunkObjectName :: "string \<Rightarrow> string result" where
  "chunkObjectName digest =
     (case hex_DecodeString digest of
        (decoded, ok) \<Rightarrow>
          if \<not> ok \<or> length decoded \<noteq> 32 then Inl (Error ''invalid SHA-256 chunk digest'')
          else Inr (''chunks/'' @ slice 0 2 digest @ ''/'' @ slice 2 4 digest @ ''/'' @ drop 4 digest))"

text \<open>The query of the request and its content length, -1 when it has none.\<close>

definition parseChunkRequest :: "(string, string) gomap \<Rightarrow> int \<Rightarrow> chunkRequest result" where
  "parseChunkRequest q contentLength =
     (case chunkObjectName (str_at q ''digest'') of
        Inl e \<Rightarrow> Inl e
      | Inr objectName \<Rightarrow>
          (case ParseInt (str_at q ''encoded-size'') 64 of
             (encodedSize, err) \<Rightarrow>
               if err \<noteq> None \<or> encodedSize \<le> 0 then Inl (Error ''invalid encoded-size'')
               else if contentLength \<ge> 0 \<and> contentLength \<noteq> encodedSize
               then Inl (Error ''encoded-size does not match Content-Length'')
               else
                 (case ParseUint64 (str_at q ''size'') of
                    (sz, err) \<Rightarrow>
                      if err \<noteq> None \<or> sz = 0 \<or> sz > word_of_int (2 ^ 63 - 1)
                      then Inl (Error ''invalid chunk size'')
                      else
                        (case ParseInt (str_at q ''wid'') 32 of
                           (wid, err) \<Rightarrow>
                             if err \<noteq> None \<or> wid < 0 then Inl (Error ''invalid writer id'')
                             else Inr \<lparr>Digest = str_at q ''digest'', EncodedSize = encodedSize,
                                       RequestSize = sz, WriterID = wid, ObjectName = objectName\<rparr>))))"

section \<open>Storing a chunk\<close>

definition drainChunkBody :: "reader \<Rightarrow> int \<Rightarrow> goerr option" where
  "drainChunkBody body expected =
     (case io_Discard body of
        (n, Some err) \<Rightarrow> Some err
      | (n, None) \<Rightarrow> if int n \<noteq> expected then Some (Error ''read encoded bytes, expected'') else None)"

text \<open>\<open>minio.ToErrorResponse\<close> looks at the error itself, not at what it wraps.\<close>

definition isObjectNotFound :: "goerr \<Rightarrow> bool" where
  "isObjectNotFound err =
     (case err of
        S3Error status code \<Rightarrow>
          status = 404 \<or> code = ''NoSuchKey'' \<or> code = ''NoSuchObject'' \<or> code = ''NotFound''
      | _ \<Rightarrow> False)"

definition maxBufferedChunkBytes :: int where
  "maxBufferedChunkBytes = 16777216"

text \<open>Reading what must be the rest of a body: nothing.\<close>

definition no_trailing :: "string \<Rightarrow> reader \<Rightarrow> goerr option" where
  "no_trailing msg body =
     (case io_Discard body of
        (trailing, Some err) \<Rightarrow> Some (Wrap msg err)
      | (trailing, None) \<Rightarrow> if trailing \<noteq> 0 then Some (Error ''trailing encoded bytes'') else None)"

definition storeBufferedChunk ::
    "'s s3_client \<Rightarrow> 's \<Rightarrow> string \<Rightarrow> chunkRequest \<Rightarrow> reader \<Rightarrow> string \<Rightarrow> bool result \<times> 's" where
  "storeBufferedChunk c st bucket request body storageClass =
     (case io_ReadFull body (nat (EncodedSize request)) of
        Inl err \<Rightarrow> (Inl (Wrap ''read chunk'' err), st)
      | Inr (payload, rest) \<Rightarrow>
          (case no_trailing ''drain chunk'' rest of
             Some err \<Rightarrow> (Inl err, st)
           | None \<Rightarrow>
               (case StatObject c st bucket (ObjectName request) of
                  Inr _ \<Rightarrow> (Inr True, st)
                | Inl err \<Rightarrow>
                    if \<not> isObjectNotFound err then (Inl (Wrap ''stat chunk'' err), st)
                    else
                      (case PutObject c st bucket (ObjectName request) (bytes_NewReader payload)
                              (EncodedSize request) (putOptions storageClass []) of
                         ((Inl err, _), st') \<Rightarrow> (Inl (Wrap ''put chunk'' err), st')
                       | ((Inr _, _), st') \<Rightarrow> (Inr False, st')))))"

text \<open>The counting reader counts what the client took from the body.\<close>

definition storeStreamedChunk ::
    "'s s3_client \<Rightarrow> 's \<Rightarrow> string \<Rightarrow> chunkRequest \<Rightarrow> reader \<Rightarrow> string \<Rightarrow> bool result \<times> 's" where
  "storeStreamedChunk c st bucket request body storageClass =
     (case StatObject c st bucket (ObjectName request) of
        Inr _ \<Rightarrow>
          (case drainChunkBody body (EncodedSize request) of
             Some err \<Rightarrow> (Inl (Wrap ''drain known chunk'' err), st)
           | None \<Rightarrow> (Inr True, st))
      | Inl err \<Rightarrow>
          if \<not> isObjectNotFound err then (Inl (Wrap ''stat chunk'' err), st)
          else
            (case PutObject c st bucket (ObjectName request) body (EncodedSize request)
                    (putOptions storageClass []) of
               ((Inl err, _), st') \<Rightarrow> (Inl (Wrap ''put chunk'' err), st')
             | ((Inr _, counted), st') \<Rightarrow>
                 if int counted \<noteq> EncodedSize request
                 then (Inl (Error ''put chunk consumed encoded bytes, expected''), st')
                 else
                   (case no_trailing ''drain chunk after upload''
                           (body\<lparr>rd_data := drop counted (rd_data body)\<rparr>) of
                      Some err \<Rightarrow> (Inl err, st')
                    | None \<Rightarrow> (Inr False, st'))))"

definition storeChunk ::
    "'s s3_client \<Rightarrow> 's \<Rightarrow> string \<Rightarrow> chunkRequest \<Rightarrow> reader \<Rightarrow> string \<Rightarrow> bool result \<times> 's" where
  "storeChunk c st bucket request body storageClass =
     (if EncodedSize request \<le> maxBufferedChunkBytes
      then storeBufferedChunk c st bucket request body storageClass
      else storeStreamedChunk c st bucket request body storageClass)"

section \<open>Lemmas: names\<close>

lemma chunkObjectName_Inr:
  assumes "chunkObjectName d = Inr k"
  obtains bs where "hex_DecodeString d = (bs, True)" "length bs = 32" "length d = 64"
    "k = ''chunks/'' @ take 2 d @ ''/'' @ take 2 (drop 2 d) @ ''/'' @ drop 4 d"
  using assms hex_Decode_length
  by (fastforce simp: chunkObjectName_def slice_def split: prod.splits if_splits)

lemma hex_Decode_no_slash: "hex_DecodeString d = (bs, True) \<Longrightarrow> CHR ''/'' \<notin> set d"
proof (induction d arbitrary: bs rule: hex_DecodeString.induct)
  case (3 a b cs)
  have "hex_val CHR ''/'' = None" by (simp add: hex_val_def)
  with 3 show ?case by (auto split: option.splits prod.splits)
qed auto

text \<open>
  The contract between the program that names an object after a digest and the one that recovers
  the digest from the name.
\<close>

locale chunk_naming =
  fixes name_of :: "string \<Rightarrow> string result"
    and digest_of :: "string \<Rightarrow> string result"
  assumes recovers: "name_of d = Inr k \<Longrightarrow> digest_of k = Inr d"
begin

lemma names_injective: "name_of d = Inr k \<Longrightarrow> name_of e = Inr k \<Longrightarrow> d = e"
  by (metis recovers Inr_inject)

lemma distinct_names: "name_of d = Inr k \<Longrightarrow> name_of e = Inr l \<Longrightarrow> d \<noteq> e \<Longrightarrow> k \<noteq> l"
  using names_injective by blast

end

lemma chunk_name_recovered:
  assumes "chunkObjectName d = Inr k"
  shows "chunkDigestFromKey k = Inr d"
proof -
  obtain bs where "hex_DecodeString d = (bs, True)" "length d = 64"
    "k = ''chunks/'' @ take 2 d @ ''/'' @ take 2 (drop 2 d) @ ''/'' @ drop 4 d"
    using chunkObjectName_Inr [OF assms] .
  with chunkDigestFromKey_key hex_Decode_no_slash show ?thesis by blast
qed

interpretation proxy_collector: chunk_naming chunkObjectName chunkDigestFromKey
  by unfold_locales (rule chunk_name_recovered)

text \<open>A digest in lower case is the text an index stores for its bytes.\<close>

lemma chunkObjectName_lower:
  assumes "chunkObjectName d = Inr k" "lower_hex d"
  obtains bs where "length bs = 32" "d = hex_EncodeToString bs"
  using chunkObjectName_Inr [OF assms(1)] hex_Encode_Decode assms(2) by metis

section \<open>Coalescing concurrent uploads\<close>

text \<open>
  The group maps the key of a chunk to its flight. A flight is referred to by a number, as the code
  refers to it by a pointer; its channel \<open>done\<close> is closed when the flight has an outcome, and the
  outcome is the error the leader ended with, if any.
\<close>

record chunkFlightGroup =
  calls :: "(string, nat) gomap"
  outcomes :: "nat \<Rightarrow> goerr option option"
  next_flight :: nat

datatype flight_role = Lead nat | Follow nat

definition Do_begin :: "string \<Rightarrow> chunkFlightGroup \<Rightarrow> flight_role \<times> chunkFlightGroup" where
  "Do_begin key g =
     (case map_of (calls g) key of
        Some call \<Rightarrow> (Follow call, g)
      | None \<Rightarrow>
          (Lead (next_flight g),
           g\<lparr>calls := AList.update key (next_flight g) (calls g), next_flight := Suc (next_flight g)\<rparr>))"

definition finish :: "string \<Rightarrow> nat \<Rightarrow> goerr option \<Rightarrow> chunkFlightGroup \<Rightarrow> chunkFlightGroup" where
  "finish key call err g =
     g\<lparr>outcomes := (outcomes g)(call := Some err),
       calls := (if map_of (calls g) key = Some call then AList.delete key (calls g) else calls g)\<rparr>"

text \<open>What a follower returns once its flight has an outcome.\<close>

definition follower_result :: "goerr option \<Rightarrow> bool result" where
  "follower_result err = (case err of Some e \<Rightarrow> Inl e | None \<Rightarrow> Inr True)"

text \<open>The deferred function of a leader: its error, or the panic it turns into one.\<close>

definition leader_error :: "bool result outcome \<Rightarrow> goerr option" where
  "leader_error r =
     (case r of
        Panics m \<Rightarrow> Some (Wrap ''chunk upload leader panicked'' (Error m))
      | Returns (Inl e) \<Rightarrow> Some e
      | Returns (Inr _) \<Rightarrow> None)"

text \<open>The requests, each identified by a number, with the flight it leads or follows.\<close>

datatype upload =
    Leading string nat
  | Following string nat
  | Led string nat "bool result outcome"
  | Followed string nat "bool result"

record upload_sys =
  group :: chunkFlightGroup
  uploads :: "nat \<Rightarrow> upload option"

definition upload_start :: "upload_sys \<Rightarrow> bool" where
  "upload_start s \<longleftrightarrow> calls (group s) = [] \<and> outcomes (group s) = (\<lambda>_. None) \<and> uploads s = (\<lambda>_. None)"

inductive upload_step :: "upload_sys \<Rightarrow> upload_sys \<Rightarrow> bool" where
  lead:
    "uploads s r = None \<Longrightarrow> Do_begin key (group s) = (Lead f, g') \<Longrightarrow>
     upload_step s (s\<lparr>group := g', uploads := (uploads s)(r \<mapsto> Leading key f)\<rparr>)"
| follow:
    "uploads s r = None \<Longrightarrow> Do_begin key (group s) = (Follow f, g') \<Longrightarrow>
     upload_step s (s\<lparr>group := g', uploads := (uploads s)(r \<mapsto> Following key f)\<rparr>)"
| lead_end:
    "uploads s r = Some (Leading key f) \<Longrightarrow>
     upload_step s (s\<lparr>group := finish key f (leader_error out) (group s),
                     uploads := (uploads s)(r \<mapsto> Led key f out)\<rparr>)"
| follow_drain_error:
    "uploads s r = Some (Following key f) \<Longrightarrow>
     upload_step s (s\<lparr>uploads := (uploads s)(r \<mapsto> Followed key f
       (Inl (Wrap ''drain duplicate chunk body'' e)))\<rparr>)"
| follow_done:
    "uploads s r = Some (Following key f) \<Longrightarrow> outcomes (group s) f = Some err \<Longrightarrow>
     upload_step s (s\<lparr>uploads := (uploads s)(r \<mapsto> Followed key f (follower_result err))\<rparr>)"
| follow_cancelled:
    "uploads s r = Some (Following key f) \<Longrightarrow>
     upload_step s (s\<lparr>uploads := (uploads s)(r \<mapsto> Followed key f (Inl e))\<rparr>)"

text \<open>The invariant: the calls are exactly the flights in the air, and a landed flight has a leader.\<close>

definition led_ok :: "upload_sys \<Rightarrow> string \<Rightarrow> nat \<Rightarrow> bool" where
  "led_ok s key f \<longleftrightarrow> (\<exists>r known. uploads s r = Some (Led key f (Returns (Inr known))))"

definition flight_landed :: "upload_sys \<Rightarrow> string \<Rightarrow> nat \<Rightarrow> bool" where
  "flight_landed s key f \<longleftrightarrow>
     (case outcomes (group s) f of None \<Rightarrow> False | Some (Some e) \<Rightarrow> True | Some None \<Rightarrow> led_ok s key f)"

definition upload_inv :: "upload_sys \<Rightarrow> bool" where
  "upload_inv s \<longleftrightarrow>
     (\<forall>r key f. uploads s r = Some (Leading key f) \<longrightarrow> map_of (calls (group s)) key = Some f)
     \<and> (\<forall>r key f. uploads s r = Some (Following key f) \<longrightarrow>
          map_of (calls (group s)) key = Some f \<or> flight_landed s key f)
     \<and> (\<forall>r key f b. uploads s r = Some (Followed key f (Inr b)) \<longrightarrow> b \<and> led_ok s key f)
     \<and> (\<forall>key f. map_of (calls (group s)) key = Some f \<longrightarrow>
          f < next_flight (group s) \<and> outcomes (group s) f = None
          \<and> (\<exists>r. uploads s r = Some (Leading key f)))
     \<and> (\<forall>f. outcomes (group s) f \<noteq> None \<longrightarrow> f < next_flight (group s))
     \<and> (\<forall>r r' key key' f. uploads s r = Some (Leading key f) \<longrightarrow>
          uploads s r' = Some (Leading key' f) \<longrightarrow> r = r')"

lemma upload_start_inv: "upload_start s \<Longrightarrow> upload_inv s"
  by (simp add: upload_start_def upload_inv_def)

lemma map_of_delete: "map_of (AList.delete k m) = (map_of m)(k := None)"
  by (rule AList.delete_conv')

lemma upload_invD:
  assumes "upload_inv s"
  shows "uploads s r = Some (Leading key f) \<Longrightarrow> map_of (calls (group s)) key = Some f"
    and "uploads s r = Some (Following key f) \<Longrightarrow>
      map_of (calls (group s)) key = Some f \<or> flight_landed s key f"
    and "uploads s r = Some (Followed key f (Inr b)) \<Longrightarrow> b \<and> led_ok s key f"
    and "map_of (calls (group s)) key = Some f \<Longrightarrow> f < next_flight (group s)"
    and "map_of (calls (group s)) key = Some f \<Longrightarrow> outcomes (group s) f = None"
    and "map_of (calls (group s)) key = Some f \<Longrightarrow> \<exists>r. uploads s r = Some (Leading key f)"
    and "outcomes (group s) f \<noteq> None \<Longrightarrow> f < next_flight (group s)"
    and "uploads s r = Some (Leading key f) \<Longrightarrow> uploads s r' = Some (Leading key' f) \<Longrightarrow> r = r'"
  using assms unfolding upload_inv_def by blast+

lemma upload_invI:
  assumes "\<And>r key f. uploads s r = Some (Leading key f) \<Longrightarrow> map_of (calls (group s)) key = Some f"
    and "\<And>r key f. uploads s r = Some (Following key f) \<Longrightarrow>
      map_of (calls (group s)) key = Some f \<or> flight_landed s key f"
    and "\<And>r key f b. uploads s r = Some (Followed key f (Inr b)) \<Longrightarrow> b \<and> led_ok s key f"
    and "\<And>key f. map_of (calls (group s)) key = Some f \<Longrightarrow>
      f < next_flight (group s) \<and> outcomes (group s) f = None \<and> (\<exists>r. uploads s r = Some (Leading key f))"
    and "\<And>f. outcomes (group s) f \<noteq> None \<Longrightarrow> f < next_flight (group s)"
    and "\<And>r r' key key' f. uploads s r = Some (Leading key f) \<Longrightarrow> uploads s r' = Some (Leading key' f) \<Longrightarrow> r = r'"
  shows "upload_inv s"
  using assms unfolding upload_inv_def by blast

text \<open>A request that ended stays as it is, so what landed stays landed.\<close>

lemma upd_keep: "\<exists>r'. m r' = Some v \<Longrightarrow> m r \<noteq> Some v \<Longrightarrow> \<exists>r'. (m(r \<mapsto> u)) r' = Some v"
  by (metis fun_upd_other)

lemma led_ok_keep:
  assumes "led_ok s key f" "\<And>k g out. uploads s r \<noteq> Some (Led k g out)"
    and "uploads t = (uploads s)(r \<mapsto> u)"
  shows "led_ok t key f"
  using assms upd_keep [of "uploads s"] unfolding led_ok_def by metis

lemma landed_keep:
  assumes "flight_landed s key f" "\<And>k g out. uploads s r \<noteq> Some (Led k g out)"
    and "uploads t = (uploads s)(r \<mapsto> u)" "outcomes (group t) f = outcomes (group s) f"
  shows "flight_landed t key f"
  using assms(1,4) led_ok_keep [OF _ assms(2,3)]
  by (auto simp: flight_landed_def split: option.splits)

lemma inv_lead:
  assumes inv: "upload_inv s" and r: "uploads s r = None"
    and start: "Do_begin key (group s) = (Lead f, g')"
  shows "upload_inv (s\<lparr>group := g', uploads := (uploads s)(r \<mapsto> Leading key f)\<rparr>)"
proof -
  have key: "map_of (calls (group s)) key = None" and f: "f = next_flight (group s)"
    and g: "g' = (group s)\<lparr>calls := AList.update key f (calls (group s)), next_flight := Suc f\<rparr>"
    using start by (auto simp: Do_begin_def split: option.splits)
  have led: "uploads s r \<noteq> Some (Led k h out)" for k h out using r by simp
  have new: "uploads s r' \<noteq> Some (Leading k f)" for r' k
    using upload_invD(1,4) [OF inv] f by blast
  show ?thesis
  proof (rule upload_invI, goal_cases)
    case (1 r' k h)
    with upload_invD(1) [OF inv, of r' k h] key show ?case by (auto simp: g map_of_update split: if_splits)
  next
    case (2 r' k h)
    then have "uploads s r' = Some (Following k h)" by (auto split: if_splits)
    from upload_invD(2) [OF inv this] landed_keep [OF _ led, of k h] key show ?case
      by (auto simp: g map_of_update)
  next
    case (3 r' k h b)
    then have "uploads s r' = Some (Followed k h (Inr b))" by (auto split: if_splits)
    from upload_invD(3) [OF inv this] led_ok_keep [OF _ led, of k h] show ?case by auto
  next
    case (4 k h)
    show ?case
    proof (cases "k = key")
      case True
      with 4 upload_invD(7) [OF inv, of f] f show ?thesis
        by (cases "outcomes (group s) f") (auto simp: g map_of_update)
    next
      case False
      with 4 have "map_of (calls (group s)) k = Some h" by (simp add: g map_of_update)
      from upload_invD(4,5) [OF inv this] upd_keep [OF upload_invD(6) [OF inv this], of r] r f show ?thesis
        by (auto simp: g)
    qed
  next
    case (5 h)
    with upload_invD(7) [OF inv, of h] f show ?case by (simp add: g)
  next
    case (6 r1 r2 k1 k2 h)
    with upload_invD(8) [OF inv, of r1 k1 h r2 k2] new show ?case by (auto split: if_splits)
  qed
qed

lemma inv_follow:
  assumes inv: "upload_inv s" and r: "uploads s r = None"
    and start: "Do_begin key (group s) = (Follow f, g')"
  shows "upload_inv (s\<lparr>group := g', uploads := (uploads s)(r \<mapsto> Following key f)\<rparr>)"
proof -
  have key: "map_of (calls (group s)) key = Some f" and g: "g' = group s"
    using start by (auto simp: Do_begin_def split: option.splits)
  have led: "uploads s r \<noteq> Some (Led k h out)" for k h out using r by simp
  show ?thesis
  proof (rule upload_invI, goal_cases)
    case (1 r' k h)
    with upload_invD(1) [OF inv, of r' k h] show ?case by (auto simp: g split: if_splits)
  next
    case (2 r' k h)
    with upload_invD(2) [OF inv, of r' k h] landed_keep [OF _ led, of k h] key show ?case
      by (auto simp: g split: if_splits)
  next
    case (3 r' k h b)
    then have "uploads s r' = Some (Followed k h (Inr b))" by (auto split: if_splits)
    from upload_invD(3) [OF inv this] led_ok_keep [OF _ led, of k h] show ?case by auto
  next
    case (4 k h)
    with upload_invD(4,5) [OF inv, of k h] upd_keep [OF upload_invD(6) [OF inv, of k h], of r] r show ?case
      by (auto simp: g)
  next
    case (5 h)
    with upload_invD(7) [OF inv, of h] show ?case by (simp add: g)
  next
    case (6 r1 r2 k1 k2 h)
    with upload_invD(8) [OF inv, of r1 k1 h r2 k2] show ?case by (auto split: if_splits)
  qed
qed

lemma inv_lead_end:
  assumes inv: "upload_inv s" and r: "uploads s r = Some (Leading key f)"
  shows "upload_inv (s\<lparr>group := finish key f (leader_error out) (group s),
    uploads := (uploads s)(r \<mapsto> Led key f out)\<rparr>)" (is "upload_inv ?t")
proof -
  have call: "map_of (calls (group s)) key = Some f" using upload_invD(1) [OF inv r] .
  have calls: "map_of (calls (group ?t)) k = (if k = key then None else map_of (calls (group s)) k)" for k
    by (simp add: finish_def call map_of_delete)
  have outs: "outcomes (group ?t) = (outcomes (group s))(f := Some (leader_error out))"
    "next_flight (group ?t) = next_flight (group s)" by (simp_all add: finish_def)
  have led: "uploads s r \<noteq> Some (Led k h o')" for k h o' using r by simp
  have now: "flight_landed ?t key f"
    unfolding flight_landed_def outs
    by (auto simp: leader_error_def led_ok_def split: option.splits outcome.splits sum.splits)
  have other: "h \<noteq> f" if "map_of (calls (group s)) k = Some h" "k \<noteq> key" for k h
    using upload_invD(6) [OF inv that(1)] upload_invD(8) [OF inv r] r that(2) by force
  show ?thesis
  proof (rule upload_invI, goal_cases)
    case (1 r' k h)
    then have u: "uploads s r' = Some (Leading k h)" "r' \<noteq> r" by (auto split: if_splits)
    then have c: "map_of (calls (group s)) k = Some h" using upload_invD(1) [OF inv] by blast
    moreover have "k \<noteq> key" using c call u upload_invD(8) [OF inv r, of r' k] by auto
    ultimately show ?case by (simp only: calls) simp
  next
    case (2 r' k h)
    then have u: "uploads s r' = Some (Following k h)" by (auto split: if_splits)
    show ?case
    proof (cases "map_of (calls (group s)) k = Some h")
      case True
      with now call show ?thesis unfolding calls by (cases "k = key") auto
    next
      case False
      with upload_invD(2) [OF inv u] have l: "flight_landed s k h" by blast
      then have "h \<noteq> f" using upload_invD(5) [OF inv call] by (auto simp: flight_landed_def)
      with landed_keep [OF l led] outs(1) show ?thesis by simp
    qed
  next
    case (3 r' k h b)
    then have "uploads s r' = Some (Followed k h (Inr b))" by (auto split: if_splits)
    from upload_invD(3) [OF inv this] led_ok_keep [OF _ led, of k h] show ?case by auto
  next
    case (4 k h)
    then have c: "map_of (calls (group s)) k = Some h" "k \<noteq> key" unfolding calls by (auto split: if_splits)
    from upload_invD(4,5) [OF inv c(1)] upd_keep [OF upload_invD(6) [OF inv c(1)], of r] other [OF c] c r
    show ?case unfolding outs by auto
  next
    case (5 h)
    with upload_invD(7) [OF inv, of h] upload_invD(4) [OF inv call] show ?case
      unfolding outs by (auto split: if_splits)
  next
    case (6 r1 r2 k1 k2 h)
    with upload_invD(8) [OF inv, of r1 k1 h r2 k2] show ?case by (auto split: if_splits)
  qed
qed

lemma inv_followed:
  assumes inv: "upload_inv s" and r: "uploads s r = Some (Following key f)"
    and ok: "\<And>b. res = Inr b \<Longrightarrow> b \<and> led_ok s key f"
  shows "upload_inv (s\<lparr>uploads := (uploads s)(r \<mapsto> Followed key f res)\<rparr>)"
proof -
  have led: "uploads s r \<noteq> Some (Led k h out)" for k h out using r by simp
  show ?thesis
  proof (rule upload_invI, goal_cases)
    case (1 r' k h)
    with upload_invD(1) [OF inv, of r' k h] show ?case by (auto split: if_splits)
  next
    case (2 r' k h)
    with upload_invD(2) [OF inv, of r' k h] landed_keep [OF _ led, of k h] show ?case
      by (auto split: if_splits)
  next
    case (3 r' k h b)
    with ok upload_invD(3) [OF inv, of r' k h b] led_ok_keep [OF _ led, of k h] show ?case
      by (auto split: if_splits)
  next
    case (4 k h)
    with upload_invD(4,5) [OF inv, of k h] upd_keep [OF upload_invD(6) [OF inv, of k h], of r] r show ?case
      by auto
  next
    case (5 h)
    with upload_invD(7) [OF inv, of h] show ?case by simp
  next
    case (6 r1 r2 k1 k2 h)
    with upload_invD(8) [OF inv, of r1 k1 h r2 k2] show ?case by (auto split: if_splits)
  qed
qed

lemma upload_step_inv:
  assumes "upload_step s t" "upload_inv s"
  shows "upload_inv t"
  using assms
proof (cases rule: upload_step.cases)
  case (follow_done r key f err)
  have "map_of (calls (group s)) key \<noteq> Some f"
    using upload_invD(5) [OF assms(2)] follow_done(3) by auto
  with upload_invD(2) [OF assms(2) follow_done(2)] follow_done(3)
  have "err = None \<Longrightarrow> led_ok s key f" by (auto simp: flight_landed_def)
  then show ?thesis
    unfolding follow_done(1)
    by (intro inv_followed [OF assms(2) follow_done(2)]) (auto simp: follower_result_def split: option.splits)
qed (auto intro: inv_lead inv_follow inv_lead_end inv_followed)

interpretation upload_machine: stepper upload_start upload_step upload_inv
  by unfold_locales (auto intro: upload_start_inv upload_step_inv)

lemma no_trailing_None: "no_trailing msg r = None \<longleftrightarrow> rd_data r = [] \<and> rd_err r = None"
  by (auto simp: no_trailing_def io_Discard_def split: option.splits)

text \<open>Storing a chunk touches its own object only.\<close>

lemma storeChunk_only:
  assumes "puts_only c view" "b \<noteq> bucket \<or> k \<noteq> ObjectName request"
  shows "view (snd (storeChunk c st bucket request body cls)) b k = view st b k"
proof -
  note only = puts_onlyD [OF assms(1) _ assms(2)]
  have "view (snd (storeBufferedChunk c st bucket request body cls)) b k = view st b k"
    unfolding storeBufferedChunk_def by (auto split: sum.split prod.split option.split intro: only)
  moreover have "view (snd (storeStreamedChunk c st bucket request body cls)) b k = view st b k"
    unfolding storeStreamedChunk_def by (auto split: sum.split prod.split option.split intro: only)
  ultimately show ?thesis by (simp add: storeChunk_def)
qed

text \<open>A stat of a stored object does not say that there is none; then a chunk that is stored is never written again.\<close>

definition finds_stored :: "'s s3_client \<Rightarrow> 's view \<Rightarrow> bool" where
  "finds_stored c view \<longleftrightarrow>
     (\<forall>st b k e. view st b k \<noteq> None \<longrightarrow> StatObject c st b k = Inl e \<longrightarrow> \<not> isObjectNotFound e)"

lemma mem_finds_stored: "finds_stored mem_client mem_view"
  by (simp add: finds_stored_def mem_client_def mem_view_def split: option.splits)

lemma storeChunk_known:
  assumes "finds_stored c view" "view st bucket (ObjectName request) \<noteq> None"
  shows "snd (storeChunk c st bucket request body cls) = st"
proof -
  have stat: "\<not> isObjectNotFound e" if "StatObject c st bucket (ObjectName request) = Inl e" for e
    using assms that unfolding finds_stored_def by blast
  have "snd (storeBufferedChunk c st bucket request body cls) = st"
    by (cases "StatObject c st bucket (ObjectName request)")
      (simp_all add: storeBufferedChunk_def stat split: sum.split option.split prod.split)
  moreover have "snd (storeStreamedChunk c st bucket request body cls) = st"
    by (cases "StatObject c st bucket (ObjectName request)")
      (simp_all add: storeStreamedChunk_def stat split: sum.split option.split prod.split)
  ultimately show ?thesis by (simp add: storeChunk_def)
qed

lemma storeBufferedChunk_correct:
  assumes laws: "puts_stored c view" "puts_only c view" "stats_stored c view"
    and run: "storeBufferedChunk c st bucket request body cls = (r, st')" "0 < EncodedSize request"
  shows "r = Inr known \<Longrightarrow> int (length (rd_data body)) = EncodedSize request \<and> rd_err body = None
      \<and> (if known then st' = st \<and> view st bucket (ObjectName request) \<noteq> None
         else view st' bucket (ObjectName request) = Some (rd_data body))"
    and "b \<noteq> bucket \<or> k \<noteq> ObjectName request \<Longrightarrow> view st' b k = view st b k"
proof -
  show "view st' b k = view st b k" if "b \<noteq> bucket \<or> k \<noteq> ObjectName request"
    using run that laws(2) unfolding puts_only_def
    by (auto simp: storeBufferedChunk_def split: sum.splits prod.splits option.splits if_splits)
      (metis snd_conv)+
next
  assume r: "r = Inr known"
  then obtain payload rest where read: "io_ReadFull body (nat (EncodedSize request)) = Inr (payload, rest)"
    and rest: "rd_data rest = []" "rd_err rest = None"
    using run by (auto simp: storeBufferedChunk_def no_trailing_None split: sum.splits option.splits)
  then have body: "int (length (rd_data body)) = EncodedSize request" "rd_err body = None" "payload = rd_data body"
    using run(2) by (auto simp: io_ReadFull_def split: if_splits)
  show "int (length (rd_data body)) = EncodedSize request \<and> rd_err body = None
      \<and> (if known then st' = st \<and> view st bucket (ObjectName request) \<noteq> None
         else view st' bucket (ObjectName request) = Some (rd_data body))"
  proof (cases "StatObject c st bucket (ObjectName request)")
    case (Inr info)
    then have "view st bucket (ObjectName request) \<noteq> None"
      using laws(3) unfolding stats_stored_def by blast
    with Inr run(1) read rest r body show ?thesis
      by (auto simp: storeBufferedChunk_def no_trailing_None split: option.splits)
  next
    case (Inl err)
    obtain pr used st1 where put: "PutObject c st bucket (ObjectName request) (bytes_NewReader payload)
        (EncodedSize request) (putOptions cls []) = ((pr, used), st1)" by (metis surj_pair)
    with Inl run(1) read rest r have "pr = Inr ()" "known = False" "st' = st1"
      by (auto simp: storeBufferedChunk_def no_trailing_None split: option.splits if_splits sum.splits)
    with puts_storedD(1) [OF laws(1)] put body run(2) show ?thesis
      by (fastforce simp: bytes_NewReader_def)
  qed
qed

lemma storeStreamedChunk_correct:
  assumes laws: "puts_stored c view" "puts_only c view" "stats_stored c view"
    and run: "storeStreamedChunk c st bucket request body cls = (r, st')" "0 < EncodedSize request"
  shows "r = Inr known \<Longrightarrow> int (length (rd_data body)) = EncodedSize request \<and> rd_err body = None
      \<and> (if known then st' = st \<and> view st bucket (ObjectName request) \<noteq> None
         else view st' bucket (ObjectName request) = Some (rd_data body))"
    and "b \<noteq> bucket \<or> k \<noteq> ObjectName request \<Longrightarrow> view st' b k = view st b k"
proof -
  show "view st' b k = view st b k" if "b \<noteq> bucket \<or> k \<noteq> ObjectName request"
    using run that laws(2) unfolding puts_only_def
    by (auto simp: storeStreamedChunk_def split: sum.splits prod.splits option.splits if_splits)
      (metis snd_conv)+
next
  assume r: "r = Inr known"
  show "int (length (rd_data body)) = EncodedSize request \<and> rd_err body = None
      \<and> (if known then st' = st \<and> view st bucket (ObjectName request) \<noteq> None
         else view st' bucket (ObjectName request) = Some (rd_data body))"
  proof (cases "StatObject c st bucket (ObjectName request)")
    case (Inr info)
    then have "view st bucket (ObjectName request) \<noteq> None"
      using laws(3) unfolding stats_stored_def by blast
    with Inr run(1) r show ?thesis
      by (auto simp: storeStreamedChunk_def drainChunkBody_def io_Discard_def
          split: option.splits if_splits)
  next
    case (Inl err)
    obtain pr used st1 where put: "PutObject c st bucket (ObjectName request) body
        (EncodedSize request) (putOptions cls []) = ((pr, used), st1)" by (metis surj_pair)
    with Inl run(1) r have ok: "pr = Inr ()" "known = False" "st' = st1" "int used = EncodedSize request"
      "length (rd_data body) \<le> used" "rd_err body = None"
      by (auto simp: storeStreamedChunk_def no_trailing_None split: option.splits if_splits sum.splits)
    have "view st1 bucket (ObjectName request) = Some (take (nat (EncodedSize request)) (rd_data body))"
      "used = min (nat (EncodedSize request)) (length (rd_data body))"
      using puts_storedD [OF laws(1) put [unfolded ok(1)]] run(2) by simp_all
    with ok show ?thesis by auto
  qed
qed

section \<open>Properties\<close>

text \<open>
  C8: An acknowledged chunk is stored. When \<open>storeChunk\<close> reports success, the body was complete and
  exactly as long as announced, and either the object was there already and nothing was written, or
  it now holds exactly the bytes of the body; and whether it succeeds or fails, no other object is
  touched. It assumes that a put reporting success has stored the bytes it took, that a put changes
  its own key only, and that a successful stat was of a stored object.
\<close>

theorem storeChunk_correct:
  assumes "puts_stored c view" "puts_only c view" "stats_stored c view"
    and "storeChunk c st bucket request body cls = (r, st')" "0 < EncodedSize request"
  shows "(\<forall>known. r = Inr known \<longrightarrow>
      int (length (rd_data body)) = EncodedSize request \<and> rd_err body = None
      \<and> (if known then st' = st \<and> view st bucket (ObjectName request) \<noteq> None
         else view st' bucket (ObjectName request) = Some (rd_data body)))
    \<and> (\<forall>b k. b \<noteq> bucket \<or> k \<noteq> ObjectName request \<longrightarrow> view st' b k = view st b k)"
  using storeBufferedChunk_correct [OF assms(1-3) _ assms(5)]
    storeStreamedChunk_correct [OF assms(1-3) _ assms(5)] assms(4)
  unfolding storeChunk_def by (metis (no_types, lifting))

theorem storeChunk_correct_witness:
  "mem_view (snd (storeChunk mem_client [] ''ds''
     \<lparr>Digest = ''d'', EncodedSize = 3, RequestSize = 3, WriterID = 0, ObjectName = ''chunks/x''\<rparr>
     (bytes_NewReader [1, 2, 3]) [])) ''ds'' ''chunks/x'' = Some [1, 2, 3]"
proof -
  let ?q = "\<lparr>Digest = ''d'', EncodedSize = 3, RequestSize = 3, WriterID = 0, ObjectName = ''chunks/x''\<rparr>"
  let ?run = "storeChunk mem_client [] ''ds'' ?q (bytes_NewReader [1, 2, 3]) []"
  have "?run = (Inr False, snd ?run)"
    by (simp add: storeChunk_def maxBufferedChunkBytes_def storeBufferedChunk_def io_ReadFull_def
        bytes_NewReader_def no_trailing_def io_Discard_def mem_client_def isObjectNotFound_def
        no_such_key_def mem_put_def)
  from storeChunk_correct [OF mem_puts_stored mem_puts_only mem_stats_stored this]
  show ?thesis by (auto simp: bytes_NewReader_def)
qed

text \<open>
  A chunk request that is accepted is well formed: the sizes are positive and fit a signed
  64-bit number, the writer id fits a signed 32-bit number and is not negative, a given content
  length is the announced size, and the collector reads back from the object name exactly the
  digest of the request.
\<close>

theorem parseChunkRequest_sound:
  assumes "parseChunkRequest q contentLength = Inr request"
  shows "0 < EncodedSize request \<and> EncodedSize request < 2 ^ 63
    \<and> 0 < unat (RequestSize request) \<and> unat (RequestSize request) < 2 ^ 63
    \<and> 0 \<le> WriterID request \<and> WriterID request < 2 ^ 31
    \<and> contentLength \<in> {EncodedSize request} \<union> {..< 0}
    \<and> chunkDigestFromKey (ObjectName request) = Inr (Digest request)"
proof -
  from assms obtain k where "chunkObjectName (str_at q ''digest'') = Inr k"
    "Digest request = str_at q ''digest''" "ObjectName request = k"
    and sizes: "EncodedSize request = fst (ParseInt (str_at q ''encoded-size'') 64)" "0 < EncodedSize request"
      "RequestSize request \<noteq> 0" "\<not> RequestSize request > word_of_int (2 ^ 63 - 1)"
      "WriterID request = fst (ParseInt (str_at q ''wid'') 32)" "0 \<le> WriterID request"
      "contentLength < 0 \<or> contentLength = EncodedSize request"
    by (auto simp: parseChunkRequest_def split: sum.splits prod.splits if_splits)
  then have "chunkDigestFromKey (ObjectName request) = Inr (Digest request)"
    using proxy_collector.recovers by simp
  moreover have "EncodedSize request < 2 ^ 63" "WriterID request < 2 ^ 31"
    using ParseInt_bounds [of 64 "str_at q ''encoded-size''"] ParseInt_bounds [of 32 "str_at q ''wid''"] sizes
    by simp_all
  moreover have "0 < unat (RequestSize request)" using sizes(3) by (simp add: unat_gt_0)
  moreover have "unat (RequestSize request) < 2 ^ 63" using sizes(4) by (simp add: word_less_nat_alt)
  ultimately show ?thesis using sizes by auto
qed

theorem parseChunkRequest_sound_witness:
  "chunkDigestFromKey (''chunks/'' @ slice 0 2 (sample_digest 1) @ ''/'' @ slice 2 4 (sample_digest 1)
     @ ''/'' @ drop 4 (sample_digest 1)) = Inr (sample_digest 1)"
proof -
  have "parseChunkRequest [(''digest'', sample_digest 1), (''encoded-size'', ''12''), (''size'', ''20''),
      (''wid'', ''1'')] 12 = Inr \<lparr>Digest = sample_digest 1, EncodedSize = 12, RequestSize = 20, WriterID = 1,
      ObjectName = ''chunks/'' @ slice 0 2 (sample_digest 1) @ ''/'' @ slice 2 4 (sample_digest 1)
        @ ''/'' @ drop 4 (sample_digest 1)\<rparr>"
    by (simp add: parseChunkRequest_def str_at_Cons chunkObjectName_def sample_digest_def ParseInt_def
        ParseUint64_def ParseUint_def digit_val_def)
  from parseChunkRequest_sound [OF this] show ?thesis by simp
qed

text \<open>
  Digests are accepted in upper case as well, and then the name keeps the case. An index lists the
  lower-case text of the same bytes, so the collector takes the chunk for an unreferenced one.
\<close>

theorem uppercase_digest_not_referenced:
  "\<exists>d k. chunkObjectName d = Inr k \<and> chunkDigestFromKey k = Inr d
     \<and> hex_EncodeToString (fst (hex_DecodeString d)) \<noteq> d"
proof (intro exI conjI)
  let ?d = "concat (replicate 32 ''AA'')"
  have dec: "hex_DecodeString (concat (replicate n ''AA'')) = (replicate n 170, True)" for n
    by (induction n) (simp_all add: hex_val_def)
  show name: "chunkObjectName ?d = Inr (''chunks/'' @ slice 0 2 ?d @ ''/'' @ slice 2 4 ?d @ ''/'' @ drop 4 ?d)"
    by (simp add: chunkObjectName_def dec)
  show "chunkDigestFromKey (''chunks/'' @ slice 0 2 ?d @ ''/'' @ slice 2 4 ?d @ ''/'' @ drop 4 ?d) = Inr ?d"
    using name by (rule proxy_collector.recovers)
  have "fst (hex_DecodeString ?d) = replicate (Suc 31) 170" by (simp only: dec fst_conv) simp
  moreover have "hex_char 10 = CHR ''a''" by code_simp
  ultimately have "hd (hex_EncodeToString (fst (hex_DecodeString ?d))) = CHR ''a''"
    by (simp only: replicate_Suc hex_EncodeToString.simps list.sel) simp
  moreover have "hd ?d = CHR ''A''" by (simp add: numeral_eq_Suc)
  ultimately show "hex_EncodeToString (fst (hex_DecodeString ?d)) \<noteq> ?d" by auto
qed

text \<open>
  C17: Concurrent uploads of one chunk are coalesced without losing a request. In every reachable
  state at most one request is uploading a given chunk; a request that waits is waiting for an
  upload that is still running or has already ended, so it cannot wait forever on nothing; and a
  waiting request is told that the chunk is known only if the upload it waited for succeeded.
\<close>

theorem upload_coalescing:
  assumes "upload_start s0" "upload_step\<^sup>*\<^sup>* s0 s"
  shows "(uploads s r = Some (Leading key f) \<longrightarrow> uploads s r' = Some (Leading key f') \<longrightarrow> r = r')
    \<and> (uploads s r = Some (Following key f) \<longrightarrow>
        outcomes (group s) f = None \<longrightarrow> (\<exists>r'. uploads s r' = Some (Leading key f)))
    \<and> (uploads s r = Some (Followed key f (Inr b)) \<longrightarrow>
        b \<and> (\<exists>r' known. uploads s r' = Some (Led key f (Returns (Inr known)))))"
proof -
  have inv: "upload_inv s" using assms by (rule upload_machine.reachable_inv)
  show ?thesis
  proof (intro conjI impI)
    assume "uploads s r = Some (Leading key f)" "uploads s r' = Some (Leading key f')"
    with upload_invD(1,8) [OF inv] show "r = r'" by (metis option.inject)
  next
    assume "uploads s r = Some (Following key f)" "outcomes (group s) f = None"
    with upload_invD(2) [OF inv] have "map_of (calls (group s)) key = Some f"
      by (fastforce simp: flight_landed_def)
    then show "\<exists>r'. uploads s r' = Some (Leading key f)" by (rule upload_invD(6) [OF inv])
  qed (use upload_invD(3) [OF inv] in \<open>auto simp: led_ok_def\<close>)
qed

text \<open>Two requests for the same chunk, of which the first finishes.\<close>

definition sample_group :: chunkFlightGroup where
  "sample_group = \<lparr>calls = [], outcomes = (\<lambda>_. None), next_flight = 0\<rparr>"

definition sample_uploads :: upload_sys where
  "sample_uploads =
     \<lparr>group = finish ''k'' 0 None (snd (Do_begin ''k'' sample_group)),
      uploads = (\<lambda>_. None)(1 \<mapsto> Led ''k'' 0 (Returns (Inr False)), 2 \<mapsto> Followed ''k'' 0 (Inr True))\<rparr>"

lemma sample_uploads_reachable:
  "upload_step\<^sup>*\<^sup>* \<lparr>group = sample_group, uploads = (\<lambda>_. None)\<rparr> sample_uploads"
proof -
  let ?g = "snd (Do_begin ''k'' sample_group)"
  have starts: "Do_begin ''k'' sample_group = (Lead 0, ?g)" "Do_begin ''k'' ?g = (Follow 0, ?g)"
    by (simp_all add: Do_begin_def sample_group_def)
  let ?s1 = "\<lparr>group = ?g, uploads = (\<lambda>_. None)(1 \<mapsto> Leading ''k'' 0)\<rparr>"
  let ?s2 = "\<lparr>group = ?g, uploads = (\<lambda>_. None)(1 \<mapsto> Leading ''k'' 0, 2 \<mapsto> Following ''k'' 0)\<rparr>"
  let ?s3 = "\<lparr>group = finish ''k'' 0 None ?g,
    uploads = (\<lambda>_. None)(1 \<mapsto> Led ''k'' 0 (Returns (Inr False)), 2 \<mapsto> Following ''k'' 0)\<rparr>"
  have "upload_step \<lparr>group = sample_group, uploads = (\<lambda>_. None)\<rparr> ?s1"
    using upload_step.lead [of "\<lparr>group = sample_group, uploads = (\<lambda>_. None)\<rparr>" 1 "''k''"] starts by simp
  moreover have "upload_step ?s1 ?s2"
    using upload_step.follow [of ?s1 2 "''k''"] starts by simp
  moreover have "upload_step ?s2 ?s3"
    using upload_step.lead_end [of ?s2 1 "''k''" 0 "Returns (Inr False)"]
    by (simp add: leader_error_def fun_upd_twist)
  moreover have "upload_step ?s3 sample_uploads"
    using upload_step.follow_done [of ?s3 2 "''k''" 0 None]
    by (simp add: sample_uploads_def follower_result_def finish_def)
  ultimately show ?thesis by (meson converse_rtranclp_into_rtranclp rtranclp.rtrancl_refl)
qed

theorem upload_coalescing_witness:
  "\<exists>r' known. uploads sample_uploads r' = Some (Led ''k'' 0 (Returns (Inr known)))"
proof -
  have "upload_start \<lparr>group = sample_group, uploads = (\<lambda>_. None)\<rparr>"
    by (simp add: upload_start_def sample_group_def)
  from upload_coalescing [OF this sample_uploads_reachable, of 2 "''k''" 0 2 0 True]
  show ?thesis by (simp add: sample_uploads_def)
qed

end
