(* ===== verification/IndexWriters.thy ===== *)
theory IndexWriters
  imports ChunkUpload
begin

text \<open>
  The part of \<open>ServeHTTP\<close> (\<open>cmd/pmoxs3backuproxy/main.go\<close>) that a backup session writes its archives
  with: opening an index writer, assigning digests to offsets, uploading chunks, and closing a fixed
  or dynamic index. A writer collects the digests; closing it builds the index file, fresh or on top
  of a previous one, and stores it.

  The requests of a session are handled one at a time here; each handler takes the store and the
  session and returns its reply and the next ones. A handler that panics keeps what it changed before.
  The JSON codec and the generator of UUIDs are parameters. Slicing a Go slice may go past its length,
  up to its capacity; what lies there after a library call is an argument as well.
\<close>

section \<open>State of a session\<close>

type_synonym i32 = "32 word"

record Writer =
  FidxName :: string
  Assignments :: "(int, bytes) gomap"
  DynamicChunkSizes :: "(string, u64) gomap"
  Chunksize :: u64
  WriterSize :: u64
  ReuseCSUM :: string

definition zero_writer :: Writer where
  "zero_writer = \<lparr>FidxName = [], Assignments = [], DynamicChunkSizes = [], Chunksize = 0, WriterSize = 0,
     ReuseCSUM = []\<rparr>"

text \<open>
  The fields of \<open>Server\<close> that a session uses; its ticket and datastore are always set. \<open>Published\<close> counts
  the calls of \<open>publishDataStoreCacheInvalidation\<close> on its datastore, which theory Invalidation models.
\<close>

record session =
  SelectedDataStore :: string
  SessionSnapshot :: Snapshot
  Writers :: "(i32, Writer) gomap"
  CurWriter :: i32
  Finished :: bool
  Published :: nat
  KnownChunksSizes :: "(string, u64) gomap"
  StorageClasses :: storageClassPolicy

record AssignmentRequest =
  DigestList :: "string list"
  OffsetList :: "u64 list"
  Wid :: i32

record ChunkUploadInfo =
  InfoDigest :: string
  InfoOffset :: int
  InfoSize :: int
  InfoKnown :: bool

text \<open>A reply: data with status 200, or a status and the error that is sent.\<close>

datatype 'a reply = Ok 'a | Err nat goerr

definition nil_dereference :: string where
  "nil_dereference = ''nil pointer dereference''"

definition set_writer :: "i32 \<Rightarrow> Writer \<Rightarrow> session \<Rightarrow> session" where
  "set_writer wid w s = s\<lparr>Writers := AList.update wid w (Writers s)\<rparr>"

section \<open>Opening a writer\<close>

definition new_writer :: "Writer \<Rightarrow> session \<Rightarrow> i32 reply \<times> session" where
  "new_writer w s = (let wid = CurWriter s + 1 in (Ok wid, set_writer wid w (s\<lparr>CurWriter := wid\<rparr>)))"

definition fixed_index_post :: "(string, string) gomap \<Rightarrow> session \<Rightarrow> i32 reply \<times> session" where
  "fixed_index_post q s =
     new_writer (zero_writer\<lparr>FidxName := str_at q ''archive-name'',
       WriterSize := fst (ParseUint64 (str_at q ''size'')),
       ReuseCSUM := str_at q ''reuse-csum'', Chunksize := 4194304\<rparr>) s"

definition dynamic_index_post :: "(string, string) gomap \<Rightarrow> session \<Rightarrow> i32 reply \<times> session" where
  "dynamic_index_post q s = new_writer (zero_writer\<lparr>FidxName := str_at q ''archive-name''\<rparr>) s"

section \<open>Assigning digests\<close>

text \<open>
  The loop that both handlers share. A digest that is no hexadecimal string is answered with an
  error, but its decoded part is stored and the loop goes on.
\<close>

fun assign_loop :: "string list \<Rightarrow> u64 list \<Rightarrow> bool \<Rightarrow> Writer \<Rightarrow> bool outcome \<times> Writer" where
  "assign_loop [] offsets good w = (Returns good, w)"
| "assign_loop (d # ds) [] good w = (Panics ''index out of range'', w)"
| "assign_loop (d # ds) (offset # offsets) good w =
     (case hex_DecodeString d of
        (b, ok) \<Rightarrow> assign_loop ds offsets (good \<and> ok)
                     (w\<lparr>Assignments := AList.update (int64_of offset) b (Assignments w)\<rparr>))"

definition assign_digests :: "AssignmentRequest \<Rightarrow> session \<Rightarrow> unit reply outcome \<times> session" where
  "assign_digests req s =
     (if DigestList req = [] then (Returns (Ok ()), s)
      else
        (case map_of (Writers s) (Wid req) of
           None \<Rightarrow> (Panics nil_dereference, s)
         | Some w \<Rightarrow>
             (case assign_loop (DigestList req) (OffsetList req) True w of
                (Panics m, w') \<Rightarrow> (Panics m, set_writer (Wid req) w' s)
              | (Returns good, w') \<Rightarrow>
                  (Returns (if good then Ok () else Err 400 (Error ''Unable to decode digest'')),
                   set_writer (Wid req) w' s))))"

definition dynamic_index_put ::
    "(bytes \<Rightarrow> AssignmentRequest result) \<Rightarrow> reader \<Rightarrow> session \<Rightarrow> unit reply outcome \<times> session" where
  "dynamic_index_put json_Unmarshal body s =
     (case io_ReadAll body of
        Inl e \<Rightarrow> (Returns (Err 400 e), s)
      | Inr data \<Rightarrow>
          (case json_Unmarshal data of
             Inl e \<Rightarrow> (Returns (Err 400 e), s)
           | Inr req \<Rightarrow> assign_digests req s))"

definition fixed_index_put ::
    "(bytes \<Rightarrow> AssignmentRequest result) \<Rightarrow> reader \<Rightarrow> session \<Rightarrow> unit reply outcome \<times> session" where
  "fixed_index_put json_Unmarshal body s =
     (case io_ReadAll body of
        Inl e \<Rightarrow> (Returns (Err 400 e), s)
      | Inr data \<Rightarrow>
          (case json_Unmarshal data of
             Inl e \<Rightarrow> (Returns (Err 400 e), s)
           | Inr req \<Rightarrow>
               if length (DigestList req) \<noteq> length (OffsetList req)
               then (case map_of (Writers s) (Wid req) of
                       None \<Rightarrow> (Panics nil_dereference, s)
                     | Some _ \<Rightarrow>
                         (Returns (Err 400 (Error ''Digest list and Offset list size does not match'')), s))
               else if DigestList req = [] then assign_digests req s
               else
                 (case map_of (Writers s) (Wid req) of
                    None \<Rightarrow> (Panics nil_dereference, s)
                  | Some w \<Rightarrow>
                      if Chunksize w = 0 then (Panics ''integer divide by zero'', s)
                      else if list_ex (\<lambda>offset. offset mod Chunksize w \<noteq> 0) (OffsetList req)
                      then (Returns (Err 400 (Error ''Chunk offset not at chunk-size boundary'')), s)
                      else assign_digests req s)))"

section \<open>Uploading a chunk\<close>

text \<open>
  The handler of \<open>/fixed_chunk\<close> and \<open>/dynamic_chunk\<close>. How the upload of the body ends, as a leader or
  as a follower of the flight group, is the argument \<open>upload\<close>; for a leader it is \<open>storeChunk\<close>.
\<close>

definition chunk_upload ::
    "(chunkRequest \<Rightarrow> 's \<Rightarrow> bool result \<times> 's) \<Rightarrow> bool \<Rightarrow> (string, string) gomap \<Rightarrow> int \<Rightarrow> 's \<Rightarrow> session
      \<Rightarrow> ChunkUploadInfo reply \<times> 's \<times> session" where
  "chunk_upload upload dynamic q contentLength st s =
     (case parseChunkRequest q contentLength of
        Inl e \<Rightarrow> (Err 400 e, st, s)
      | Inr request \<Rightarrow>
          let wid = word_of_int (WriterID request) in
          (case map_of (Writers s) wid of
             None \<Rightarrow> (Err 400 (Error ''unknown writer id''), st, s)
           | Some w \<Rightarrow>
               (case upload request st of
                  (Inl e, st') \<Rightarrow> (Err 500 e, st', s)
                | (Inr known, st') \<Rightarrow>
                    let w = (if Chunksize w = 0 then w\<lparr>Chunksize := RequestSize request\<rparr> else w);
                        w = (if dynamic
                             then w\<lparr>DynamicChunkSizes :=
                                      AList.update (Digest request) (RequestSize request) (DynamicChunkSizes w)\<rparr>
                             else w)
                    in (Ok \<lparr>InfoDigest = Digest request, InfoOffset = 0,
                            InfoSize = int64_of (RequestSize request), InfoKnown = known\<rparr>,
                        st', set_writer wid w s))))"

definition leader_upload :: "'s s3_client \<Rightarrow> reader \<Rightarrow> session \<Rightarrow> chunkRequest \<Rightarrow> 's \<Rightarrow> bool result \<times> 's" where
  "leader_upload c body s request st =
     storeChunk c st (SelectedDataStore s) request body (Chunks (StorageClasses s))"

section \<open>Closing a fixed index\<close>

text \<open>
  What the handlers get from outside: the new UUID, the time, and the bytes between the length and
  the capacity of the slices that \<open>hex.DecodeString\<close> and \<open>io.ReadAll\<close> return.
\<close>

record close_env =
  ce_uuid :: bytes
  ce_now :: u64
  ce_csum_spare :: bytes
  ce_index_spare :: bytes

datatype loop_end = Complete bytes | Hole | OutOfRange

text \<open>
  The loop over the slots of the index. The offset is a \<open>uint64\<close> and wraps, so that the loop may run
  forever; that is the value None.
\<close>

partial_function (option) fixed_loop :: "Writer \<Rightarrow> u64 \<Rightarrow> u64 \<Rightarrow> bytes \<Rightarrow> loop_end option" where
  "fixed_loop w i k out =
     (if i < WriterSize w then
        (case map_of (Assignments w) (int64_of i) of
           None \<Rightarrow>
             if ReuseCSUM w = [] then Some Hole else fixed_loop w (i + Chunksize w) (k + 1) out
         | Some val \<Rightarrow>
             let a = unat (4096 + 32 * k); b = unat (4096 + 32 * k + 32) in
             if a \<le> b \<and> b \<le> length out
             then fixed_loop w (i + Chunksize w) (k + 1) (copy_into a b val out)
             else Some OutOfRange)
      else Some (Complete out))"

text \<open>
  The file to start from: the index to be reused, whose sizes replace those of the writer, or a new
  one. The buffer reaches to its capacity; the second component is its length. An opening that fails
  leaves the writer as far as it was changed. The chunk size is read by \<open>NativeEndian\<close>, which is
  little-endian on the hosts considered here.
\<close>

definition fixed_open ::
    "close_env \<Rightarrow> 's s3_client \<Rightarrow> 's \<Rightarrow> string \<Rightarrow> Writer
      \<Rightarrow> (unit reply outcome \<times> Writer) + (bytes \<times> nat \<times> Writer)" where
  "fixed_open env c st ds w =
     (if ReuseCSUM w \<noteq> [] then
        (case GetObject c st ds (''indexed/'' @ ReuseCSUM w @ ''.fidx'') of
           Inl e \<Rightarrow> Inl (Returns (Err 500 e), w)
         | Inr obj \<Rightarrow>
             (case io_ReadAll (oh_body obj) of
                Inl e \<Rightarrow> Inl (Returns (Err 500 e), w)
              | Inr data \<Rightarrow>
                  let buf = data @ ce_index_spare env in
                  if length buf < 72 then Inl (Panics ''slice bounds out of range'', w)
                  else
                    let w = w\<lparr>WriterSize := Uint64 (slice 64 72 buf)\<rparr> in
                    if length buf < 80 then Inl (Panics ''slice bounds out of range'', w)
                    else Inr (buf, length data, w\<lparr>Chunksize := Uint64 (slice 72 80 buf)\<rparr>)))
      else
        let n = 4096 + 32 * length (Assignments w);
            out = replicate n 0;
            out = copy_into 0 8 PROXMOX_INDEX_MAGIC_FIXED out;
            out = copy_into 64 72 (AppendUint64 (WriterSize w)) out;
            out = copy_into 72 80 (AppendUint64 (Chunksize w)) out
        in Inr (out, n, w))"

text \<open>The fields that are new in every index: checksum, UUID and time.\<close>

definition fixed_stamp :: "close_env \<Rightarrow> bytes \<Rightarrow> bytes \<Rightarrow> bytes" where
  "fixed_stamp env csum out =
     copy_into 24 32 (AppendUint64 (ce_now env)) (copy_into 8 24 (ce_uuid env) (copy_into 32 64 csum out))"

definition store_fixed ::
    "'s s3_client \<Rightarrow> string \<Rightarrow> bytes \<Rightarrow> Writer \<Rightarrow> 's \<Rightarrow> session \<Rightarrow> unit reply \<times> 's" where
  "store_fixed c csum data w st s =
     (let key = S3Prefix (SessionSnapshot s) @ ''/'' @ FidxName w in
      case PutObject c st (SelectedDataStore s) key (bytes_NewReader data) (int (length data))
             (putOptions (Backups (StorageClasses s)) [(''csum'', csum)]) of
        ((Inl e, _), st') \<Rightarrow> (Err 500 e, st')
      | ((Inr _, _), st') \<Rightarrow>
          (case CopyObject c st'
                  (indexedCopyOptions (SelectedDataStore s) (''indexed/'' @ csum @ ''.fidx'') csum
                    (Indexed (StorageClasses s)))
                  (SelectedDataStore s) key of
             (Inl e, st'') \<Rightarrow> (Err 500 e, st'')
           | (Inr _, st'') \<Rightarrow> (Ok (), st'')))"

definition fixed_close ::
    "close_env \<Rightarrow> 's s3_client \<Rightarrow> (string, string) gomap \<Rightarrow> 's \<Rightarrow> session
      \<Rightarrow> (unit reply outcome \<times> 's \<times> session) option" where
  "fixed_close env c q st s =
     (let wid = word_of_int (fst (ParseInt (str_at q ''wid'') 32));
          csumindex = fst (hex_DecodeString (str_at q ''csum'')) @ ce_csum_spare env
      in case map_of (Writers s) wid of
           None \<Rightarrow> Some (Panics nil_dereference, st, s)
         | Some w \<Rightarrow>
             (case fixed_open env c st (SelectedDataStore s) w of
                Inl (r, w) \<Rightarrow> Some (r, st, set_writer wid w s)
              | Inr (out, n, w) \<Rightarrow>
                  let s = set_writer wid w s in
                  if length csumindex < 32 then Some (Panics ''slice bounds out of range'', st, s)
                  else
                    (case fixed_loop w 0 0 (fixed_stamp env (take 32 csumindex) out) of
                       None \<Rightarrow> None
                     | Some Hole \<Rightarrow> Some (Returns (Err 500 (Error ''Hole in index'')), st, s)
                     | Some OutOfRange \<Rightarrow> Some (Panics ''slice bounds out of range'', st, s)
                     | Some (Complete out) \<Rightarrow>
                         (case store_fixed c (str_at q ''csum'') (take n out) w st s of
                            (r, st') \<Rightarrow> Some (Returns r, st', s)))))"

section \<open>Closing a dynamic index\<close>

fun dynamic_entries ::
    "Writer \<Rightarrow> int list \<Rightarrow> bytes \<Rightarrow> (string, u64) gomap \<Rightarrow> (bytes \<times> (string, u64) gomap) outcome" where
  "dynamic_entries w [] header jsonMap = Returns (header, jsonMap)"
| "dynamic_entries w (k # ks) header jsonMap =
     (let val = (case map_of (Assignments w) k of Some v \<Rightarrow> v | None \<Rightarrow> []);
          digest = hex_EncodeToString val
      in case map_of (DynamicChunkSizes w) digest of
           None \<Rightarrow> Panics ''Missing size info for chunk''
         | Some origsize \<Rightarrow>
             dynamic_entries w ks (header @ AppendUint64 (uint64_of k + origsize) @ val)
               (AList.update digest origsize jsonMap))"

definition load_known :: "(string, u64) gomap \<Rightarrow> Writer \<Rightarrow> Writer" where
  "load_known known w =
     w\<lparr>DynamicChunkSizes := foldl (\<lambda>m (k, v). AList.update k v m) (DynamicChunkSizes w) known\<rparr>"

definition dynamic_header :: "close_env \<Rightarrow> bytes \<Rightarrow> bytes" where
  "dynamic_header env csumindex =
     PROXMOX_INDEX_MAGIC_DYNAMIC @ ce_uuid env @ AppendUint64 (ce_now env) @ csumindex @ replicate 4032 0"

definition store_dynamic ::
    "'s s3_client \<Rightarrow> string \<Rightarrow> bytes \<Rightarrow> bytes \<Rightarrow> Writer \<Rightarrow> 's \<Rightarrow> session \<Rightarrow> unit reply \<times> 's" where
  "store_dynamic c csum data sizes w st s =
     (let key = S3Prefix (SessionSnapshot s) @ ''/'' @ FidxName w;
          opts = putOptions (Backups (StorageClasses s)) [(''csum'', csum)]
      in case PutObject c st (SelectedDataStore s) key (bytes_NewReader data) (int (length data)) opts of
           ((Inl e, _), st') \<Rightarrow> (Err 500 e, st')
         | ((Inr _, _), st') \<Rightarrow>
             (case PutObject c st' (SelectedDataStore s) (key @ ''.csjson'') (bytes_NewReader sizes)
                     (int (length sizes)) opts of
                ((Inl e, _), st'') \<Rightarrow> (Err 500 e, st'')
              | ((Inr _, _), st'') \<Rightarrow> (Ok (), st'')))"

definition dynamic_close ::
    "((string, u64) gomap \<Rightarrow> bytes) \<Rightarrow> close_env \<Rightarrow> 's s3_client \<Rightarrow> (string, string) gomap \<Rightarrow> 's \<Rightarrow> session
      \<Rightarrow> unit reply outcome \<times> 's \<times> session" where
  "dynamic_close json_Marshal env c q st s =
     (let wid = word_of_int (fst (ParseInt (str_at q ''wid'') 32));
          csumindex = fst (hex_DecodeString (str_at q ''csum''))
      in case map_of (Writers s) wid of
           None \<Rightarrow> (Panics nil_dereference, st, s)
         | Some w \<Rightarrow>
             let w = load_known (KnownChunksSizes s) w;
                 s = set_writer wid w s;
                 keys = sort (map fst (Assignments w))
             in (case dynamic_entries w keys (dynamic_header env csumindex) [] of
                   Panics m \<Rightarrow> (Panics m, st, s)
                 | Returns (data, jsonMap) \<Rightarrow>
                     (case store_dynamic c (str_at q ''csum'') data (json_Marshal jsonMap) w st s of
                        (r, st') \<Rightarrow> (Returns r, st', s))))"

section \<open>Lemmas: the slots of a fixed index\<close>

text \<open>
  A fixed archive of a given size has one slot per chunk. The digest of a slot is the one assigned to
  its offset; a slot without one keeps the digest of the index below.
\<close>

definition slot_count :: "Writer \<Rightarrow> nat" where
  "slot_count w = (unat (WriterSize w) + unat (Chunksize w) - 1) div unat (Chunksize w)"

definition slot :: "Writer \<Rightarrow> nat \<Rightarrow> bytes option" where
  "slot w j = map_of (Assignments w) (int64_of (word_of_nat j * Chunksize w))"

definition slot_digest :: "Writer \<Rightarrow> bytes list \<Rightarrow> nat \<Rightarrow> bytes" where
  "slot_digest w ds j = (case slot w j of Some v \<Rightarrow> v | None \<Rightarrow> ds ! j)"

definition fill :: "Writer \<Rightarrow> bytes list \<Rightarrow> nat \<Rightarrow> bytes list" where
  "fill w ds j = map (slot_digest w ds) [0..<j] @ drop j ds"

text \<open>The sizes with which the offset of the loop does not wrap around.\<close>

definition sizes_ok :: "Writer \<Rightarrow> bool" where
  "sizes_ok w \<longleftrightarrow> Chunksize w \<noteq> 0 \<and> unat (WriterSize w) + unat (Chunksize w) \<le> 2 ^ 64"

lemma unat_u64_small: "n < 2 ^ 64 \<Longrightarrow> unat (word_of_nat n :: u64) = n"
  by (subst unat_of_nat) simp

lemma slot_count_bound:
  assumes "sizes_ok w"
  shows "slot_count w * unat (Chunksize w) < 2 ^ 64"
proof -
  have "0 < unat (Chunksize w)" using assms by (simp add: sizes_ok_def unat_gt_0)
  moreover have "slot_count w * unat (Chunksize w) \<le> unat (WriterSize w) + unat (Chunksize w) - 1"
    unfolding slot_count_def by (rule div_times_less_eq_dividend)
  ultimately show ?thesis using assms unfolding sizes_ok_def by linarith
qed

lemma slot_offset:
  assumes "sizes_ok w" "j \<le> slot_count w"
  shows "unat (word_of_nat j * Chunksize w) = j * unat (Chunksize w)"
proof -
  have "j * unat (Chunksize w) < 2 ^ 64"
    using mult_le_mono1 [OF assms(2)] slot_count_bound [OF assms(1)] by (rule le_less_trans)
  then have "unat (word_of_nat (j * unat (Chunksize w)) :: u64) = j * unat (Chunksize w)"
    by (rule unat_u64_small)
  then show ?thesis by simp
qed

lemma slot_in_range:
  assumes "sizes_ok w" "j \<le> slot_count w"
  shows "word_of_nat j * Chunksize w < WriterSize w \<longleftrightarrow> j < slot_count w"
proof -
  have C: "0 < unat (Chunksize w)" using assms(1) by (simp add: sizes_ok_def unat_gt_0)
  have "j < slot_count w \<longleftrightarrow> Suc j * unat (Chunksize w) \<le> unat (WriterSize w) + unat (Chunksize w) - 1"
    unfolding slot_count_def using C by (simp add: less_eq_div_iff_mult_less_eq flip: Suc_le_eq)
  also have "\<dots> \<longleftrightarrow> j * unat (Chunksize w) < unat (WriterSize w)" using C by auto
  finally show ?thesis using slot_offset [OF assms] by (simp add: word_less_nat_alt)
qed

text \<open>Unfolding the loop once, at a slot.\<close>

lemma fixed_loop_step:
  "fixed_loop w (word_of_nat j * Chunksize w) (word_of_nat j) out =
     (if word_of_nat j * Chunksize w < WriterSize w then
        (case slot w j of
           None \<Rightarrow> if ReuseCSUM w = [] then Some Hole
                    else fixed_loop w (word_of_nat (Suc j) * Chunksize w) (word_of_nat (Suc j)) out
         | Some val \<Rightarrow>
             let a = unat (4096 + 32 * (word_of_nat j :: u64)); b = unat (4096 + 32 * (word_of_nat j :: u64) + 32) in
             if a \<le> b \<and> b \<le> length out
             then fixed_loop w (word_of_nat (Suc j) * Chunksize w) (word_of_nat (Suc j)) (copy_into a b val out)
             else Some OutOfRange)
      else Some (Complete out))"
proof -
  have "word_of_nat j * Chunksize w + Chunksize w = word_of_nat (Suc j) * Chunksize w"
    "(word_of_nat j :: u64) + 1 = word_of_nat (Suc j)" by (simp_all add: algebra_simps)
  then show ?thesis by (subst fixed_loop.simps) (simp only: slot_def)
qed

lemma slot_address:
  assumes "4096 + 32 * j + 32 < 2 ^ 64"
  shows "unat (4096 + 32 * (word_of_nat j :: u64)) = 4096 + 32 * j"
    and "unat (4128 + 32 * (word_of_nat j :: u64)) = 4128 + 32 * j"
proof -
  have "unat (word_of_nat (4096 + 32 * j) :: u64) = 4096 + 32 * j"
    "unat (word_of_nat (4128 + 32 * j) :: u64) = 4128 + 32 * j"
    using assms by (intro unat_u64_small; simp)+
  then show "unat (4096 + 32 * (word_of_nat j :: u64)) = 4096 + 32 * j"
    "unat (4128 + 32 * (word_of_nat j :: u64)) = 4128 + 32 * j" by simp_all
qed

lemma copy_slot:
  assumes "length hdr = 4096" "length (concat pre) = 32 * j" "length old = 32" "length val = 32"
  shows "copy_into (4096 + 32 * j) (4096 + 32 * j + 32) val (hdr @ concat (pre @ old # post) @ tail)
    = hdr @ concat (pre @ val # post) @ tail"
  using assms by (simp add: copy_into_exact)

text \<open>The loop fills every slot, when every slot has a digest or may keep the one below.\<close>

lemma fixed_loop_fills:
  assumes ok: "sizes_ok w" "slot_count w \<le> length ds" "4096 + 32 * length ds < 2 ^ 64"
    and lens: "length hdr = 4096" "\<forall>d \<in> set ds. length d = 32" "\<And>j v. slot w j = Some v \<Longrightarrow> length v = 32"
    and holes: "\<And>j. j < slot_count w \<Longrightarrow> slot w j = None \<Longrightarrow> ReuseCSUM w \<noteq> []"
  shows "j \<le> slot_count w \<Longrightarrow>
    fixed_loop w (word_of_nat j * Chunksize w) (word_of_nat j) (hdr @ concat (fill w ds j) @ tail)
      = Some (Complete (hdr @ concat (fill w ds (slot_count w)) @ tail))"
proof (induction "slot_count w - j" arbitrary: j)
  case 0
  then show ?case using slot_in_range [OF ok(1), of j] by (simp add: fixed_loop_step)
next
  case (Suc n)
  then have j: "j < slot_count w" "j < length ds" "Suc j \<le> slot_count w" using ok(2) by auto
  then have lt: "word_of_nat j * Chunksize w < WriterSize w" using slot_in_range [OF ok(1)] by simp
  have IH: "fixed_loop w (word_of_nat (Suc j) * Chunksize w) (word_of_nat (Suc j)) (hdr @ concat (fill w ds (Suc j)) @ tail)
      = Some (Complete (hdr @ concat (fill w ds (slot_count w)) @ tail))"
    using Suc.hyps(2) j(3) by (intro Suc.hyps(1)) auto
  have parts: "fill w ds j = map (slot_digest w ds) [0..<j] @ ds ! j # drop (Suc j) ds"
    "fill w ds (Suc j) = map (slot_digest w ds) [0..<j] @ slot_digest w ds j # drop (Suc j) ds"
    using j(2) by (simp_all add: fill_def Cons_nth_drop_Suc)
  have pre: "length (concat (map (slot_digest w ds) [0..<j])) = 32 * j"
    using length_concat_const [of "map (slot_digest w ds) [0..<j]" 32] lens(2,3) j(2)
    by (force simp: slot_digest_def split: option.splits)
  have old: "length (ds ! j) = 32" using lens(2) j(2) by simp
  show ?case
  proof (cases "slot w j")
    case None
    then have "fill w ds (Suc j) = fill w ds j" using parts by (simp add: slot_digest_def)
    with None holes [OF j(1)] lt IH show ?thesis by (simp add: fixed_loop_step [of w j])
  next
    case (Some v)
    have addr: "4096 + 32 * j + 32 < 2 ^ 64" using j(2) ok(3) by linarith
    have len: "4096 + 32 * j + 32 \<le> length (hdr @ concat (fill w ds j) @ tail)"
      using pre lens(1) old by (simp add: parts(1))
    have "copy_into (4096 + 32 * j) (4096 + 32 * j + 32) v (hdr @ concat (fill w ds j) @ tail)
        = hdr @ concat (fill w ds (Suc j)) @ tail"
      using copy_slot [OF lens(1) pre old lens(3) [OF Some], of "drop (Suc j) ds" tail] Some
      unfolding parts by (simp add: slot_digest_def)
    with Some lt IH len show ?thesis
      by (simp add: fixed_loop_step [of w j] slot_address [OF addr] Let_def)
  qed
qed

text \<open>The slots have different offsets, so a writer with a digest for each has that many assignments.\<close>

lemma int64_of_inject [simp]: "int64_of a = int64_of b \<longleftrightarrow> a = b"
  by (auto simp: int64_of_def intro: signed_word_eqI)

lemma slot_keys_inj:
  assumes "sizes_ok w"
  shows "inj_on (\<lambda>j. int64_of (word_of_nat j * Chunksize w)) {..slot_count w}"
proof (rule inj_onI)
  fix i j assume "i \<in> {..slot_count w}" "j \<in> {..slot_count w}"
    "int64_of (word_of_nat i * Chunksize w) = int64_of (word_of_nat j * Chunksize w)"
  then have "i * unat (Chunksize w) = j * unat (Chunksize w)"
    using slot_offset [OF assms, of i] slot_offset [OF assms, of j] by auto
  then show "i = j" using assms by (simp add: sizes_ok_def unat_eq_zero)
qed

lemma assigned_slots_fit:
  assumes "sizes_ok w" "k \<le> slot_count w" "\<And>j. j < k \<Longrightarrow> slot w j \<noteq> None"
  shows "k \<le> length (Assignments w)"
proof -
  let ?key = "\<lambda>j. int64_of (word_of_nat j * Chunksize w)"
  have "?key ` {..<k} \<subseteq> fst ` set (Assignments w)"
    using assms(3) by (force simp: slot_def dest!: map_of_SomeD)
  then have "card (?key ` {..<k}) \<le> card (fst ` set (Assignments w))" by (intro card_mono) auto
  moreover have "card (?key ` {..<k}) = k"
    using inj_on_subset [OF slot_keys_inj [OF assms(1)], of "{..<k}"] assms(2) by (simp add: card_image subset_iff)
  moreover have "card (fst ` set (Assignments w)) \<le> length (Assignments w)"
    by (rule order_trans [OF card_image_le card_length]) simp
  ultimately show ?thesis by linarith
qed

text \<open>The loop stops at the first slot without a digest, when there is nothing to keep there.\<close>

lemma fixed_loop_hole:
  assumes ok: "sizes_ok w" "k < slot_count w" "ReuseCSUM w = []" "slot w k = None" "\<And>j. j < k \<Longrightarrow> slot w j \<noteq> None"
    and big: "4096 + 32 * k < 2 ^ 64"
  shows "j \<le> k \<Longrightarrow> 4096 + 32 * k \<le> length out \<Longrightarrow>
    fixed_loop w (word_of_nat j * Chunksize w) (word_of_nat j) out = Some Hole"
proof (induction "k - j" arbitrary: j out)
  case 0
  then show ?case using ok slot_in_range [OF ok(1), of k] by (simp add: fixed_loop_step)
next
  case (Suc n)
  then have j: "j < k" "word_of_nat j * Chunksize w < WriterSize w"
    using ok(2) slot_in_range [OF ok(1), of j] by auto
  then obtain v where v: "slot w j = Some v" using ok(5) by blast
  have addr: "4096 + 32 * j + 32 < 2 ^ 64" and fits: "4128 + 32 * j \<le> length out" using j(1) big Suc.prems by linarith+
  have "fixed_loop w (word_of_nat (Suc j) * Chunksize w) (word_of_nat (Suc j))
      (copy_into (4096 + 32 * j) (4128 + 32 * j) v out) = Some Hole"
    using Suc.hyps(2) j(1) Suc.prems(2) fits by (intro Suc.hyps(1)) auto
  then show ?case using v j(2) fits by (simp add: fixed_loop_step [of w j] slot_address [OF addr] Let_def)
qed

section \<open>Lemmas: the header of a fixed index\<close>

lemma fixed_layout_split:
  "fixed_layout u t c sz cs ds = fixed_layout u t c sz cs [] @ concat ds"
  by (simp add: fixed_layout_def)

lemma length_fixed_header:
  "length u = 16 \<Longrightarrow> length c = 32 \<Longrightarrow> length (fixed_layout u t c sz cs []) = 4096"
  by (simp add: length_fixed_layout)

lemma fixed_stamp_layout:
  assumes "length u = 16" "length c = 32" "length (ce_uuid env) = 16" "length csum = 32"
  shows "fixed_stamp env csum (fixed_layout u t c sz cs ds @ tail)
    = fixed_layout (ce_uuid env) (ce_now env) csum sz cs ds @ tail"
  using assms by (simp add: fixed_stamp_def fixed_layout_def copy_into_exact)

lemma le_bytes_zero: "le_bytes k 0 = replicate k 0"
  by (induction k) simp_all

lemma AppendUint64_zero: "AppendUint64 0 = replicate 8 0"
  by (simp add: AppendUint64_def le_bytes_zero)

lemma concat_replicate_zero: "concat (replicate m (replicate 32 0)) = replicate (32 * m) (0 :: byte)"
proof (induction m)
  case (Suc m)
  then show ?case by (simp only: replicate_Suc concat.simps mult_Suc_right replicate_add)
qed simp

lemma fixed_open_fresh:
  assumes "ReuseCSUM w = []"
  shows "fixed_open env c st ds w = Inr
    (fixed_layout (replicate 16 0) 0 (replicate 32 0) (WriterSize w) (Chunksize w)
       (replicate (length (Assignments w)) (replicate 32 0)),
     4096 + 32 * length (Assignments w), w)"
proof -
  let ?z = "\<lambda>n. replicate n (0 :: byte)"
  let ?m = "32 * length (Assignments w)"
  have "?z 56 = ?z 16 @ ?z 8 @ ?z 32" "?z (4016 + ?m) = ?z 4016 @ ?z ?m"
    by (simp_all flip: replicate_add)
  with assms show ?thesis
    by (simp add: fixed_open_def Let_def copy_into_exact fixed_layout_def AppendUint64_zero concat_replicate_zero
        del: replicate_add)
qed

lemma fixed_open_reuse:
  assumes "ReuseCSUM w \<noteq> []" "GetObject c st ds (''indexed/'' @ ReuseCSUM w @ ''.fidx'') = Inr obj"
    and "oh_body obj = bytes_NewReader (fixed_layout u t c0 sz cs old)" "length u = 16" "length c0 = 32"
  shows "fixed_open env c st ds w = Inr
    (fixed_layout u t c0 sz cs old @ ce_index_spare env, 4096 + length (concat old),
     w\<lparr>WriterSize := sz, Chunksize := cs\<rparr>)"
proof -
  let ?idx = "fixed_layout u t c0 sz cs old"
  have len: "length ?idx = 4096 + length (concat old)" using assms(4,5) by (rule length_fixed_layout)
  have "slice 64 72 (?idx @ ce_index_spare env) = AppendUint64 sz"
    "slice 72 80 (?idx @ ce_index_spare env) = AppendUint64 cs"
    using assms(4,5) by (simp_all add: fixed_layout_def slice_def)
  then show ?thesis using assms(1-3) len by (simp add: fixed_open_def Let_def)
qed

text \<open>Storing depends on the settings of the session only, not on its writers.\<close>

lemma set_writer_fields [simp]:
  "SelectedDataStore (set_writer wid w s) = SelectedDataStore s"
  "SessionSnapshot (set_writer wid w s) = SessionSnapshot s"
  "StorageClasses (set_writer wid w s) = StorageClasses s"
  "KnownChunksSizes (set_writer wid w s) = KnownChunksSizes s"
  "map_of (Writers (set_writer wid w s)) = (map_of (Writers s))(wid \<mapsto> w)"
  by (simp_all add: set_writer_def map_of_update)

lemma store_set_writer [simp]:
  "store_fixed c csum data w st (set_writer wid w' s) = store_fixed c csum data w st s"
  "store_dynamic c csum data sizes w st (set_writer wid w' s) = store_dynamic c csum data sizes w st s"
  unfolding store_fixed_def store_dynamic_def set_writer_fields by (rule refl)+

text \<open>What a close does once the file to start from is open and every slot has a digest.\<close>

lemma fixed_close_stores:
  assumes wid: "map_of (Writers s) (word_of_int (fst (ParseInt (str_at q ''wid'') 32))) = Some w0"
    and opened: "fixed_open env c st (SelectedDataStore s) w0
      = Inr (fixed_layout u t c0 (WriterSize w) (Chunksize w) ds @ tail, 4096 + 32 * length ds, w)"
    and lens: "length u = 16" "length c0 = 32" "length (ce_uuid env) = 16" "length csum = 32"
      "\<forall>d \<in> set ds. length d = 32" "\<forall>(k, v) \<in> set (Assignments w). length v = 32"
    and csum: "str_at q ''csum'' = hex_EncodeToString csum"
    and ok: "sizes_ok w" "slot_count w \<le> length ds" "4096 + 32 * length ds < 2 ^ 64"
      "\<And>j. j < slot_count w \<Longrightarrow> slot w j = None \<Longrightarrow> ReuseCSUM w \<noteq> []"
  shows "fixed_close env c q st s = (case store_fixed c (hex_EncodeToString csum)
      (fixed_layout (ce_uuid env) (ce_now env) csum (WriterSize w) (Chunksize w) (fill w ds (slot_count w)))
      w st s of (r, st') \<Rightarrow> Some (Returns r, st', set_writer (word_of_int (fst (ParseInt (str_at q ''wid'') 32))) w s))"
proof -
  let ?hdr = "fixed_layout (ce_uuid env) (ce_now env) csum (WriterSize w) (Chunksize w)"
  let ?ds = "fill w ds (slot_count w)"
  have val: "length v = 32" if "slot w j = Some v" for j v
    using that lens(6) by (auto simp: slot_def dest!: map_of_SomeD)
  have "fixed_loop w 0 0 (?hdr [] @ concat (fill w ds 0) @ tail) = Some (Complete (?hdr [] @ concat ?ds @ tail))"
    using fixed_loop_fills [OF ok(1-3) length_fixed_header [OF lens(3,4)] lens(5) val ok(4), where j = 0 and tail = tail]
    by simp
  then have loop: "fixed_loop w 0 0 (?hdr ds @ tail) = Some (Complete (?hdr ?ds @ tail))"
    by (simp add: fill_def flip: fixed_layout_split [of _ _ _ _ _ ds] append_assoc)
      (simp add: fixed_layout_def)
  have "\<forall>d \<in> set ?ds. length d = 32"
    using lens(5) val ok(2) by (fastforce simp: fill_def slot_digest_def dest: in_set_dropD split: option.splits)
  then have "length (?hdr ?ds) = 4096 + 32 * length ds"
    using length_concat_const [of ?ds 32] lens(3,4) ok(2) by (simp add: length_fixed_layout fill_def)
  then have "take (4096 + 32 * length ds) (?hdr ?ds @ tail) = ?hdr ?ds" by simp
  then show ?thesis
    using wid opened loop lens(3,4) csum fixed_stamp_layout [OF lens(1-4)]
    by (simp add: fixed_close_def Let_def hex_Decode_Encode)
qed

text \<open>The two objects a close writes, and nothing else.\<close>

lemma store_fixed_view:
  assumes laws: "puts_stored c view" "puts_only c view" "copies c view"
    and run: "store_fixed c csum data w st s = (r, st')"
    and key: "key = S3Prefix (SessionSnapshot s) @ ''/'' @ FidxName w"
  shows "r = Ok () \<Longrightarrow> view st' (SelectedDataStore s) key = Some data
      \<and> view st' (SelectedDataStore s) (''indexed/'' @ csum @ ''.fidx'') = Some data"
    and "b \<noteq> SelectedDataStore s \<or> k \<noteq> key \<and> k \<noteq> ''indexed/'' @ csum @ ''.fidx'' \<Longrightarrow> view st' b k = view st b k"
    and "r = Ok () \<or> (\<exists>e. r = Err 500 e)"
proof -
  let ?ds = "SelectedDataStore s" and ?cp = "''indexed/'' @ csum @ ''.fidx''"
  define opts where "opts = indexedCopyOptions ?ds ?cp csum (Indexed (StorageClasses s))"
  have dst: "DstBucket opts = ?ds" "DstObject opts = ?cp"
    by (simp_all add: opts_def indexedCopyOptions_def Let_def)
  obtain pr used st1 where put: "PutObject c st ?ds key (bytes_NewReader data) (int (length data))
      (putOptions (Backups (StorageClasses s)) [(''csum'', csum)]) = ((pr, used), st1)" by (metis surj_pair)
  obtain cr st2 where copy: "CopyObject c st1 opts ?ds key = (cr, st2)" by fastforce
  have key_ne: "key \<noteq> ?cp" by (simp add: key S3Prefix_def)
  note only1 = puts_onlyD [OF laws(2) put]
  note cp = laws(3) [unfolded copies_def, rule_format, OF copy, unfolded dst]
  have run': "(r, st') = (case pr of Inl e \<Rightarrow> (Err 500 e, st1)
      | Inr _ \<Rightarrow> (case cr of Inl e \<Rightarrow> (Err 500 e, st2) | Inr _ \<Rightarrow> (Ok (), st2)))"
    using run unfolding store_fixed_def Let_def key [symmetric] opts_def [symmetric] put
    by (auto simp: copy split: sum.splits)
  show "r = Ok () \<or> (\<exists>e. r = Err 500 e)" using run' by (auto split: sum.splits)
  show "view st' b k = view st b k" if "b \<noteq> ?ds \<or> k \<noteq> key \<and> k \<noteq> ?cp"
    using run' only1 [of b k] cp that by (auto split: sum.splits)
  assume "r = Ok ()"
  with run' have ok: "pr = Inr ()" "cr = Inr ()" "st' = st2" by (auto split: sum.splits)
  have "view st1 ?ds key = Some data" using put_buffer [OF laws(1)] put ok(1) by blast
  with cp key_ne ok show "view st' ?ds key = Some data \<and> view st' ?ds ?cp = Some data" by auto
qed

lemma HasSuffix_name: "HasSuffix name suf \<Longrightarrow> HasSuffix (p @ CHR ''/'' # name) suf"
  by (auto simp: HasSuffix_iff)

section \<open>Properties: fixed indexes\<close>

text \<open>The digests of the slots of an archive, in order; the writer of \<open>w\<close> is closed by a request.\<close>

definition slot_digests :: "Writer \<Rightarrow> bytes list" where
  "slot_digests w = map (\<lambda>j. case slot w j of Some v \<Rightarrow> v | None \<Rightarrow> []) [0..<slot_count w]"

definition closes :: "(string, string) gomap \<Rightarrow> session \<Rightarrow> Writer \<Rightarrow> bool" where
  "closes q s w \<longleftrightarrow> map_of (Writers s) (word_of_int (fst (ParseInt (str_at q ''wid'') 32))) = Some w"

lemma fixed_close_new:
  assumes w: "closes q s w" "ReuseCSUM w = []"
    and sizes: "sizes_ok w" "length (Assignments w) = slot_count w" "4096 + 32 * slot_count w < 2 ^ 64"
    and full: "\<And>j. j < slot_count w \<Longrightarrow> slot w j \<noteq> None" "\<forall>(k, v) \<in> set (Assignments w). length v = 32"
    and uuid: "length (ce_uuid env) = 16"
    and csum: "str_at q ''csum'' = hex_EncodeToString (Sum256 (concat (slot_digests w)))"
  obtains r st' s' where
    "store_fixed c (str_at q ''csum'') (fixed_layout (ce_uuid env) (ce_now env) (Sum256 (concat (slot_digests w)))
       (WriterSize w) (Chunksize w) (slot_digests w)) w st s = (r, st')"
    "fixed_close env c q st s = Some (Returns r, st', s')" "\<forall>d \<in> set (slot_digests w). length d = 32"
proof -
  let ?ds = "slot_digests w" and ?csum = "Sum256 (concat (slot_digests w))"
  let ?zero = "replicate (slot_count w) (replicate 32 0)"
  let ?idx = "fixed_layout (ce_uuid env) (ce_now env) ?csum (WriterSize w) (Chunksize w) ?ds"
  have "slot_digest w ?zero j = (case slot w j of Some v \<Rightarrow> v | None \<Rightarrow> [])" if "j < slot_count w" for j
    using full(1) [OF that] by (auto simp: slot_digest_def)
  then have fill: "fill w ?zero (slot_count w) = ?ds" by (simp add: fill_def slot_digests_def)
  have ds: "\<forall>d \<in> set ?ds. length d = 32"
    using full by (fastforce simp: slot_digests_def slot_def dest: map_of_SomeD split: option.splits)
  obtain r st' where run: "store_fixed c (str_at q ''csum'') ?idx w st s = (r, st')" by fastforce
  have "fixed_close env c q st s
      = Some (Returns r, st', set_writer (word_of_int (fst (ParseInt (str_at q ''wid'') 32))) w s)"
    using fixed_close_stores [OF w(1) [unfolded closes_def], of env c st "replicate 16 0" 0 "replicate 32 0" w ?zero
        "[]" ?csum] fixed_open_fresh [OF w(2), of env c st "SelectedDataStore s"] sizes full uuid csum fill run
    by (simp add: fixed_layout_def)
  then show thesis using that run ds by blast
qed

text \<open>
  C6: Closing a new fixed index stores what was assigned. When every slot of the archive has a digest
  of 32 bytes, there are no other assignments and the client states the checksum of the digests,
  the handler returns; if it reports success, the bucket holds, under the name of the archive and
  as the reusable copy, an index that the collector parses to exactly the assigned digests in
  order and the size the client announced; no other object has changed, whatever it reports.
\<close>

theorem fixed_close_roundtrip:
  assumes laws: "puts_stored c view" "puts_only c view" "copies c view"
    and w: "closes q s w" "ReuseCSUM w = []" "HasSuffix (FidxName w) ''.fidx''"
    and sizes: "sizes_ok w" "length (Assignments w) = slot_count w" "4096 + 32 * slot_count w < 2 ^ 64"
    and full: "\<And>j. j < slot_count w \<Longrightarrow> slot w j \<noteq> None" "\<forall>(k, v) \<in> set (Assignments w). length v = 32"
    and uuid: "length (ce_uuid env) = 16"
    and csum: "str_at q ''csum'' = hex_EncodeToString (Sum256 (concat (slot_digests w)))"
    and key: "key = S3Prefix (SessionSnapshot s) @ ''/'' @ FidxName w"
  shows "\<exists>r st' s'. fixed_close env c q st s = Some (Returns r, st', s')
    \<and> (r = Ok () \<longrightarrow> (\<exists>idx. view st' (SelectedDataStore s) key = Some idx
         \<and> view st' (SelectedDataStore s) (''indexed/'' @ str_at q ''csum'' @ ''.fidx'') = Some idx
         \<and> parseIndex key idx (str_at q ''csum'') = Inr \<lparr>checksum = str_at q ''csum'',
             digests = map hex_EncodeToString (slot_digests w), logicalSize = WriterSize w\<rparr>))
    \<and> (b \<noteq> SelectedDataStore s \<or> k \<noteq> key \<and> k \<noteq> ''indexed/'' @ str_at q ''csum'' @ ''.fidx'' \<longrightarrow>
         view st' b k = view st b k)"
proof -
  let ?idx = "fixed_layout (ce_uuid env) (ce_now env) (Sum256 (concat (slot_digests w))) (WriterSize w) (Chunksize w)
    (slot_digests w)"
  obtain r st' s' where run: "store_fixed c (str_at q ''csum'') ?idx w st s = (r, st')"
    and close: "fixed_close env c q st s = Some (Returns r, st', s')"
    and ds: "\<forall>d \<in> set (slot_digests w). length d = 32"
    by (rule fixed_close_new [OF w(1,2) sizes full uuid csum])
  have "parseIndex key ?idx (str_at q ''csum'') = Inr \<lparr>checksum = str_at q ''csum'',
      digests = map hex_EncodeToString (slot_digests w), logicalSize = WriterSize w\<rparr>"
    unfolding csum using ds uuid HasSuffix_name [OF w(3)]
    by (intro parseIndex_fixed) (simp_all add: key)
  with close store_fixed_view(1,2) [OF laws run key] show ?thesis by blast
qed

definition sample_writer :: Writer where
  "sample_writer = zero_writer\<lparr>FidxName := ''drive.fidx'', Chunksize := 4194304, WriterSize := 8388608,
     Assignments := [(0, replicate 32 1), (4194304, replicate 32 2)]\<rparr>"

definition sample_env :: close_env where
  "sample_env = \<lparr>ce_uuid = replicate 16 7, ce_now = 1700000000, ce_csum_spare = [], ce_index_spare = []\<rparr>"

definition sample_session :: "Writer \<Rightarrow> session" where
  "sample_session w = \<lparr>SelectedDataStore = ''ds'', SessionSnapshot = sample_snapshot, Writers = [(1, w)],
     CurWriter = 1, Finished = False, Published = 0, KnownChunksSizes = [],
     StorageClasses = \<lparr>Chunks = [], Backups = [], Indexed = []\<rparr>\<rparr>"

definition close_query :: "bytes \<Rightarrow> (string, string) gomap" where
  "close_query csum = [(''wid'', ''1''), (''csum'', hex_EncodeToString csum)]"

lemma close_query_wid: "fst (ParseInt (str_at (close_query csum) ''wid'') 32) = 1"
  by (simp add: close_query_def str_at_def ParseInt_def ParseUint_def digit_val_def)

lemma close_query_csum: "str_at (close_query csum) ''csum'' = hex_EncodeToString csum"
  by (simp add: close_query_def str_at_def)

lemma closes_sample: "closes (close_query csum) (sample_session w) w"
  by (simp add: closes_def close_query_wid sample_session_def)

lemma sample_writer_slots:
  "slot_count sample_writer = 2" "slot sample_writer 0 = Some (replicate 32 1)"
  "slot sample_writer 1 = Some (replicate 32 2)" "sizes_ok sample_writer"
  by (simp_all add: slot_count_def slot_def sizes_ok_def sample_writer_def int64_of_def)

theorem fixed_close_roundtrip_witness:
  "\<exists>r st' s'. fixed_close sample_env mem_client
      (close_query (Sum256 (concat (slot_digests sample_writer)))) [] (sample_session sample_writer)
    = Some (Returns r, st', s')
    \<and> (r = Ok () \<longrightarrow> mem_view st' ''ds'' (S3Prefix sample_snapshot @ ''/drive.fidx'') \<noteq> None)"
proof -
  have "slot sample_writer j \<noteq> None" if "j < slot_count sample_writer" for j
    using that sample_writer_slots by (auto simp: less_2_cases_iff)
  then show ?thesis
    using fixed_close_roundtrip [OF mem_puts_stored mem_puts_only mem_copies closes_sample _ _ sample_writer_slots(4)
        _ _ _ _ _ close_query_csum refl, of sample_env "[]" "[]" "[]"] sample_writer_slots(1)
    by (fastforce simp: sample_writer_def zero_writer_def sample_env_def sample_session_def HasSuffix_def)
qed

text \<open>
  C11: An incremental backup changes exactly the slots it assigns. When the writer reuses a stored
  index with one digest per slot, the new index has the size of the reused one and, in every slot,
  the digest assigned to it or else the digest of the reused index; the collector parses it to
  these digests, and no object but the archive and its reusable copy changes.
\<close>

theorem fixed_close_incremental:
  assumes laws: "puts_stored c view" "puts_only c view" "copies c view"
    and w: "closes q s w0" "ReuseCSUM w0 \<noteq> []" "HasSuffix (FidxName w0) ''.fidx''"
      "w = w0\<lparr>WriterSize := sz, Chunksize := cs\<rparr>"
    and reused: "GetObject c st (SelectedDataStore s) (''indexed/'' @ ReuseCSUM w0 @ ''.fidx'') = Inr obj"
      "oh_body obj = bytes_NewReader (fixed_layout u t c0 sz cs old)" "length u = 16" "length c0 = 32"
      "\<forall>d \<in> set old. length d = 32"
    and sizes: "sizes_ok w" "length old = slot_count w" "4096 + 32 * slot_count w < 2 ^ 64"
      "\<forall>(k, v) \<in> set (Assignments w0). length v = 32" "length (ce_uuid env) = 16"
    and new: "new = map (\<lambda>j. case slot w j of Some v \<Rightarrow> v | None \<Rightarrow> old ! j) [0..<slot_count w]"
    and csum: "str_at q ''csum'' = hex_EncodeToString (Sum256 (concat new))"
    and key: "key = S3Prefix (SessionSnapshot s) @ ''/'' @ FidxName w0"
  shows "\<exists>r st' s'. fixed_close env c q st s = Some (Returns r, st', s')
    \<and> (r = Ok () \<longrightarrow> (\<exists>idx. view st' (SelectedDataStore s) key = Some idx
         \<and> view st' (SelectedDataStore s) (''indexed/'' @ str_at q ''csum'' @ ''.fidx'') = Some idx
         \<and> parseIndex key idx (str_at q ''csum'') = Inr \<lparr>checksum = str_at q ''csum'',
             digests = map hex_EncodeToString new, logicalSize = sz\<rparr>))
    \<and> (b \<noteq> SelectedDataStore s \<or> k \<noteq> key \<and> k \<noteq> ''indexed/'' @ str_at q ''csum'' @ ''.fidx'' \<longrightarrow>
         view st' b k = view st b k)"
proof -
  let ?csum = "Sum256 (concat new)"
  let ?idx = "fixed_layout (ce_uuid env) (ce_now env) ?csum sz cs new"
  have fill: "fill w old (slot_count w) = new"
    using sizes(2) by (simp add: fill_def new slot_digest_def)
  have ds: "\<forall>d \<in> set new. length d = 32"
    using reused(5) sizes(2,4) w(4)
    by (fastforce simp: new slot_def dest: map_of_SomeD split: option.splits)
  obtain r st' where run: "store_fixed c (str_at q ''csum'') ?idx w st s = (r, st')" by fastforce
  have "length (concat old) = 32 * length old" using length_concat_const [OF reused(5)] .
  then have opened: "fixed_open env c st (SelectedDataStore s) w0
      = Inr (fixed_layout u t c0 (WriterSize w) (Chunksize w) old @ ce_index_spare env, 4096 + 32 * length old, w)"
    using fixed_open_reuse [OF w(2) reused(1-4)] w(4) by simp
  have "fixed_close env c q st s
      = Some (Returns r, st', set_writer (word_of_int (fst (ParseInt (str_at q ''wid'') 32))) w s)"
    using fixed_close_stores [OF w(1) [unfolded closes_def] opened reused(3,4) sizes(5) _ reused(5) _ csum sizes(1)]
      sizes w(2,4) fill run csum by simp
  moreover have "parseIndex key ?idx (str_at q ''csum'') = Inr \<lparr>checksum = str_at q ''csum'',
      digests = map hex_EncodeToString new, logicalSize = sz\<rparr>"
    unfolding csum using ds sizes(5) HasSuffix_name [OF w(3)]
    by (intro parseIndex_fixed) (simp_all add: key)
  moreover have "key = S3Prefix (SessionSnapshot s) @ ''/'' @ FidxName w" using key w(4) by simp
  ultimately show ?thesis
    using store_fixed_view(1,2) [OF laws run] by blast
qed

text \<open>A writer that replaces the second of two chunks of a stored index.\<close>

definition sample_reuse :: Writer where
  "sample_reuse = zero_writer\<lparr>FidxName := ''drive.fidx'', Chunksize := 4194304, ReuseCSUM := ''abc'',
     Assignments := [(4194304, replicate 32 3)]\<rparr>"

definition reuse_store :: mem_store where
  "reuse_store = [((''ds'', ''indexed/abc.fidx''),
     (fixed_layout (replicate 16 0) 5 (replicate 32 0) 8388608 4194304 [replicate 32 1, replicate 32 2],
      mem_info [] [] []))]"

lemma sample_reuse_slots:
  assumes "w = sample_reuse\<lparr>WriterSize := 8388608, Chunksize := 4194304\<rparr>"
  shows "slot_count w = 2" "slot w 0 = None" "slot w 1 = Some (replicate 32 3)" "sizes_ok w"
  by (simp_all add: assms slot_count_def slot_def sizes_ok_def sample_reuse_def int64_of_def)

theorem fixed_close_incremental_witness:
  "\<exists>r st' s'. fixed_close sample_env mem_client (close_query (Sum256 (replicate 32 1 @ replicate 32 3)))
      reuse_store (sample_session sample_reuse) = Some (Returns r, st', s')
    \<and> (r = Ok () \<longrightarrow> mem_view st' ''ds'' (S3Prefix sample_snapshot @ ''/drive.fidx'') \<noteq> None)"
proof -
  let ?w = "sample_reuse\<lparr>WriterSize := 8388608, Chunksize := 4194304\<rparr>"
  note slots = sample_reuse_slots [OF refl, of]
  have new: "[replicate 32 1, replicate 32 3 :: bytes]
      = map (\<lambda>j. case slot ?w j of Some v \<Rightarrow> v | None \<Rightarrow> [replicate 32 1, replicate 32 2] ! j) [0..<slot_count ?w]"
    using slots by (simp add: upt_rec)
  have csum: "str_at (close_query (Sum256 (replicate 32 1 @ replicate 32 3))) ''csum''
      = hex_EncodeToString (Sum256 (concat [replicate 32 1, replicate 32 3]))"
    by (simp add: close_query_csum)
  obtain obj where obj: "GetObject mem_client reuse_store ''ds'' (''indexed/'' @ ReuseCSUM sample_reuse @ ''.fidx'') = Inr obj"
    "oh_body obj = bytes_NewReader (fixed_layout (replicate 16 0) 5 (replicate 32 0) 8388608 4194304
       [replicate 32 1, replicate 32 2])"
    by (simp add: mem_client_def mem_get_def reuse_store_def sample_reuse_def)
  show ?thesis
    using fixed_close_incremental [OF mem_puts_stored mem_puts_only mem_copies closes_sample _ _ refl _ obj(2) _ _ _
        slots(4) _ _ _ _ new csum refl, where env = sample_env] obj(1) slots(1)
    by (fastforce simp: sample_session_def sample_reuse_def zero_writer_def sample_env_def HasSuffix_def)
qed

text \<open>
  C24: A hole is never stored. When a new fixed index has a slot with no digest, the close answers with
  an error and the store is exactly as before.
\<close>

theorem fixed_close_refuses_hole:
  assumes "closes q s w" "ReuseCSUM w = []" "sizes_ok w" "4096 + 32 * slot_count w < 2 ^ 64"
    and "j < slot_count w" "slot w j = None"
    and "32 \<le> length (fst (hex_DecodeString (str_at q ''csum''))) + length (ce_csum_spare env)"
  shows "\<exists>s'. fixed_close env c q st s = Some (Returns (Err 500 (Error ''Hole in index'')), st, s')"
proof -
  define k where "k = (LEAST j. slot w j = None)"
  have k: "slot w k = None" "k \<le> j" "\<And>i. i < k \<Longrightarrow> slot w i \<noteq> None"
    using LeastI [of "\<lambda>j. slot w j = None" j] Least_le [of "\<lambda>j. slot w j = None" j] not_less_Least assms(6)
    unfolding k_def by blast+
  have fits: "k \<le> length (Assignments w)"
    using assigned_slots_fit [OF assms(3) _ k(3)] k(2) assms(5) by simp
  define out where "out = fixed_stamp env (take 32 (fst (hex_DecodeString (str_at q ''csum'')) @ ce_csum_spare env))
    (fixed_layout (replicate 16 0) 0 (replicate 32 0) (WriterSize w) (Chunksize w)
       (replicate (length (Assignments w)) (replicate 32 0)))"
  have "length out = 4096 + 32 * length (Assignments w)"
    by (simp add: out_def fixed_stamp_def length_fixed_layout concat_replicate_zero)
  then have "fixed_loop w 0 0 out = Some Hole"
    using fixed_loop_hole [OF assms(3) _ assms(2) k(1,3), of 0 out] k(2) assms(4,5) fits by simp
  then show ?thesis
    using assms(1,7) fixed_open_fresh [OF assms(2), of env c st "SelectedDataStore s"]
    by (simp add: fixed_close_def closes_def Let_def out_def)
qed

theorem fixed_close_refuses_hole_witness:
  "\<exists>s'. fixed_close sample_env mem_client (close_query (replicate 32 9)) []
      (sample_session (sample_writer\<lparr>Assignments := [(0, replicate 32 1)]\<rparr>))
    = Some (Returns (Err 500 (Error ''Hole in index'')), [], s')"
proof -
  let ?w = "sample_writer\<lparr>Assignments := [(0, replicate 32 1)]\<rparr>"
  have "slot_count ?w = 2" "slot ?w 1 = None" "sizes_ok ?w"
    by (simp_all add: slot_count_def slot_def sizes_ok_def sample_writer_def int64_of_def)
  then show ?thesis
    using fixed_close_refuses_hole [OF closes_sample, of ?w 1 "replicate 32 9" sample_env mem_client "[]"]
    by (simp add: sample_writer_def zero_writer_def close_query_csum hex_Decode_Encode)
qed

text \<open>The loop ends whenever its offset cannot wrap, whatever the buffer is.\<close>

lemma fixed_loop_returns:
  assumes "sizes_ok w"
  shows "j \<le> slot_count w \<Longrightarrow> \<exists>r. fixed_loop w (word_of_nat j * Chunksize w) (word_of_nat j) out = Some r"
proof (induction "slot_count w - j" arbitrary: j out)
  case 0
  then show ?case using slot_in_range [OF assms, of j] by (simp add: fixed_loop_step)
next
  case (Suc n)
  have "\<exists>r. fixed_loop w (word_of_nat (Suc j) * Chunksize w) (word_of_nat (Suc j)) out' = Some r" for out'
    using Suc.hyps(2) Suc.prems by (intro Suc.hyps(1)) auto
  then show ?case
    by (subst fixed_loop_step) (simp add: Let_def split: option.split)
qed

text \<open>With a chunk size of zero it never leaves an unassigned offset of a reused index.\<close>

lemma fixed_loop_stuck:
  assumes "Chunksize w = 0" "i < WriterSize w" "map_of (Assignments w) (int64_of i) = None" "ReuseCSUM w \<noteq> []"
  shows "fixed_loop w i k out = None"
proof -
  have "\<not> (v = w \<and> i' = i)" if "fixed_loop v i' k out = Some r" for v i' r
    using that by (rule fixed_loop.raw_induct [rotated, where P = "\<lambda>v i' k out r. \<not> (v = w \<and> i' = i)"])
      (use assms in \<open>auto split: if_splits\<close>, blast)
  then show ?thesis by (cases "fixed_loop w i k out") auto
qed

text \<open>
  C23: Closing a fixed index returns. Whatever the request and the stored index are, the handler
  returns or panics when the chunk size it works with is not zero and the archive ends at least a
  chunk below \<open>2^64\<close>; every writer that is not reusing an index has the chunk size of 4 MiB. But on a
  reused index that states a chunk size of zero it never returns.
\<close>

theorem fixed_close_terminates:
  assumes "closes q s w0"
  shows "((\<forall>out n w. fixed_open env c st (SelectedDataStore s) w0 = Inr (out, n, w) \<longrightarrow> sizes_ok w)
      \<longrightarrow> fixed_close env c q st s \<noteq> None)
    \<and> (fixed_open env c st (SelectedDataStore s) w0 = Inr (out, n, w) \<longrightarrow> Chunksize w = 0 \<longrightarrow> WriterSize w \<noteq> 0
      \<longrightarrow> slot w 0 = None \<longrightarrow> ReuseCSUM w \<noteq> []
      \<longrightarrow> 32 \<le> length (fst (hex_DecodeString (str_at q ''csum''))) + length (ce_csum_spare env)
      \<longrightarrow> fixed_close env c q st s = None)"
proof (intro conjI impI)
  assume ok: "\<forall>out n w. fixed_open env c st (SelectedDataStore s) w0 = Inr (out, n, w) \<longrightarrow> sizes_ok w"
  show "fixed_close env c q st s \<noteq> None"
  proof (cases "fixed_open env c st (SelectedDataStore s) w0")
    case (Inr p)
    obtain out n w where p: "p = (out, n, w)" by (cases p) auto
    obtain r where "fixed_loop w 0 0 (fixed_stamp env
        (take 32 (fst (hex_DecodeString (str_at q ''csum'')) @ ce_csum_spare env)) out) = Some r"
      using fixed_loop_returns [of w 0] ok Inr p by auto
    with Inr p assms show ?thesis
      by (auto simp: fixed_close_def closes_def Let_def split: loop_end.splits prod.splits)
  qed (use assms in \<open>simp add: fixed_close_def closes_def Let_def split: prod.split\<close>)
next
  assume "fixed_open env c st (SelectedDataStore s) w0 = Inr (out, n, w)" "Chunksize w = 0" "WriterSize w \<noteq> 0"
    "slot w 0 = None" "ReuseCSUM w \<noteq> []"
    "32 \<le> length (fst (hex_DecodeString (str_at q ''csum''))) + length (ce_csum_spare env)"
  with fixed_loop_stuck [of w 0] assms show "fixed_close env c q st s = None"
    by (simp add: fixed_close_def closes_def Let_def slot_def word_neq_0_conv)
qed

theorem fixed_close_terminates_witness:
  "fixed_close sample_env mem_client (close_query (replicate 32 9)) [] (sample_session sample_writer) \<noteq> None"
proof -
  have "sizes_ok w" if "fixed_open sample_env mem_client [] ''ds'' sample_writer = Inr (out, n, w)" for out n w
    using that fixed_open_fresh [of sample_writer sample_env mem_client "[]" "''ds''"] sample_writer_slots(4)
    by (simp add: sample_writer_def zero_writer_def)
  then show ?thesis
    using fixed_close_terminates [OF closes_sample, of sample_env mem_client "[]" sample_writer]
    by (simp add: sample_session_def)
qed

section \<open>Lemmas: dynamic indexes\<close>

definition chunk_at :: "Writer \<Rightarrow> int \<Rightarrow> bytes" where
  "chunk_at w k = (case map_of (Assignments w) k of Some v \<Rightarrow> v | None \<Rightarrow> [])"

definition size_at :: "Writer \<Rightarrow> int \<Rightarrow> u64" where
  "size_at w k =
     (case map_of (DynamicChunkSizes w) (hex_EncodeToString (chunk_at w k)) of Some n \<Rightarrow> n | None \<Rightarrow> 0)"

definition size_known :: "Writer \<Rightarrow> int \<Rightarrow> bool" where
  "size_known w k \<longleftrightarrow> map_of (DynamicChunkSizes w) (hex_EncodeToString (chunk_at w k)) \<noteq> None"

definition dynamic_entry :: "Writer \<Rightarrow> int \<Rightarrow> u64 \<times> bytes" where
  "dynamic_entry w k = (uint64_of k + size_at w k, chunk_at w k)"

definition sizes_of :: "Writer \<Rightarrow> int list \<Rightarrow> (string, u64) gomap \<Rightarrow> (string, u64) gomap" where
  "sizes_of w ks m = foldl (\<lambda>m k. AList.update (hex_EncodeToString (chunk_at w k)) (size_at w k) m) m ks"

lemma dynamic_entries_known:
  "(\<forall>k \<in> set ks. size_known w k) \<Longrightarrow> dynamic_entries w ks header m =
     Returns (header @ concat (map (\<lambda>(off, d). AppendUint64 off @ d) (map (dynamic_entry w) ks)), sizes_of w ks m)"
  by (induction ks arbitrary: header m)
    (auto simp: size_known_def size_at_def dynamic_entry_def sizes_of_def chunk_at_def Let_def)

lemma dynamic_entries_unknown:
  "k \<in> set ks \<Longrightarrow> \<not> size_known w k \<Longrightarrow> dynamic_entries w ks header m = Panics ''Missing size info for chunk''"
  by (induction ks arbitrary: header m) (auto simp: size_known_def chunk_at_def Let_def split: option.splits)

lemma map_of_sizes_of:
  "map_of (sizes_of w ks m) d =
     (case find (\<lambda>k. hex_EncodeToString (chunk_at w k) = d) (rev ks) of
        Some k \<Rightarrow> Some (size_at w k) | None \<Rightarrow> map_of m d)"
  by (induction ks rule: rev_induct) (auto simp: sizes_of_def map_of_update)

text \<open>Two offsets with the same digest have the same size.\<close>

lemma sizes_of_assigned:
  assumes "k \<in> set ks"
  shows "map_of (sizes_of w ks m) (hex_EncodeToString (chunk_at w k)) = Some (size_at w k)"
proof -
  obtain k' where "find (\<lambda>k'. hex_EncodeToString (chunk_at w k') = hex_EncodeToString (chunk_at w k)) (rev ks) = Some k'"
    using assms by (fastforce simp: find_None_iff)
  moreover from this have "chunk_at w k' = chunk_at w k" by (auto simp: find_Some_iff)
  ultimately show ?thesis by (simp add: map_of_sizes_of size_at_def)
qed

lemma load_known_fields [simp]:
  "Assignments (load_known m w) = Assignments w" "FidxName (load_known m w) = FidxName w"
  by (simp_all add: load_known_def)

lemma store_dynamic_view:
  assumes laws: "puts_stored c view" "puts_only c view"
    and run: "store_dynamic c csum data sizes w st s = (r, st')"
    and key: "key = S3Prefix (SessionSnapshot s) @ ''/'' @ FidxName w"
  shows "r = Ok () \<Longrightarrow> view st' (SelectedDataStore s) key = Some data
      \<and> view st' (SelectedDataStore s) (key @ ''.csjson'') = Some sizes"
    and "b \<noteq> SelectedDataStore s \<or> k \<noteq> key \<and> k \<noteq> key @ ''.csjson'' \<Longrightarrow> view st' b k = view st b k"
proof -
  let ?ds = "SelectedDataStore s" and ?opts = "putOptions (Backups (StorageClasses s)) [(''csum'', csum)]"
  obtain pr used st1 where put: "PutObject c st ?ds key (bytes_NewReader data) (int (length data)) ?opts
      = ((pr, used), st1)" by (metis surj_pair)
  obtain pr2 used2 st2 where put2: "PutObject c st1 ?ds (key @ ''.csjson'') (bytes_NewReader sizes)
      (int (length sizes)) ?opts = ((pr2, used2), st2)" by (metis surj_pair)
  have run': "(r, st') = (case pr of Inl e \<Rightarrow> (Err 500 e, st1)
      | Inr _ \<Rightarrow> (case pr2 of Inl e \<Rightarrow> (Err 500 e, st2) | Inr _ \<Rightarrow> (Ok (), st2)))"
    using run unfolding store_dynamic_def Let_def key [symmetric] put by (auto simp: put2 split: sum.splits)
  note only = puts_onlyD [OF laws(2) put] puts_onlyD [OF laws(2) put2]
  show "view st' b k = view st b k" if "b \<noteq> ?ds \<or> k \<noteq> key \<and> k \<noteq> key @ ''.csjson''"
    using run' only that by (auto split: sum.splits)
  assume "r = Ok ()"
  with run' have ok: "pr = Inr ()" "pr2 = Inr ()" "st' = st2" by (auto split: sum.splits)
  have "view st1 ?ds key = Some data" "view st2 ?ds (key @ ''.csjson'') = Some sizes"
    using put_buffer [OF laws(1)] put put2 ok by blast+
  with only(2) [of ?ds key] ok(3)
  show "view st' ?ds key = Some data \<and> view st' ?ds (key @ ''.csjson'') = Some sizes" by auto
qed

lemma length_chunk_at:
  assumes "\<forall>(k, v) \<in> set (Assignments w). length v = 32" "k \<in> fst ` set (Assignments w)"
  shows "length (chunk_at w k) = 32"
proof -
  obtain v where "map_of (Assignments w) k = Some v"
    using assms(2) by (metis domD dom_map_of_conv_image_fst)
  with assms(1) show ?thesis by (auto simp: chunk_at_def dest!: map_of_SomeD)
qed

text \<open>A close of a writer all of whose sizes are known stores the layout of its entries.\<close>

lemma dynamic_close_known:
  assumes "closes q s w0" "w = load_known (KnownChunksSizes s) w0" "keys = sort (map fst (Assignments w0))"
    and "\<forall>k \<in> set keys. size_known w k" "str_at q ''csum'' = hex_EncodeToString csum"
  shows "dynamic_close json_Marshal env c q st s = (case store_dynamic c (str_at q ''csum'')
      (dynamic_layout (ce_uuid env) (ce_now env) csum (map (dynamic_entry w) keys))
      (json_Marshal (sizes_of w keys [])) w st s of
        (r, st') \<Rightarrow> (Returns r, st', set_writer (word_of_int (fst (ParseInt (str_at q ''wid'') 32))) w s))"
proof -
  have "dynamic_entries w keys (dynamic_header env csum) [] =
      Returns (dynamic_layout (ce_uuid env) (ce_now env) csum (map (dynamic_entry w) keys), sizes_of w keys [])"
    using dynamic_entries_known [OF assms(4)] by (simp add: dynamic_header_def dynamic_layout_def)
  moreover have "sort (map fst (Assignments w)) = keys" using assms(2,3) by simp
  ultimately show ?thesis
    using assms(1,5) unfolding dynamic_close_def closes_def Let_def by (simp flip: assms(2))
qed

lemma dynamic_close_unknown:
  assumes "closes q s w0" "w = load_known (KnownChunksSizes s) w0" "keys = sort (map fst (Assignments w0))"
    and "k \<in> set keys" "\<not> size_known w k"
  shows "\<exists>m s'. dynamic_close json_Marshal env c q st s = (Panics m, st, s')"
proof -
  have "sort (map fst (Assignments w)) = keys" using assms(2,3) by simp
  then show ?thesis
    using assms(1) dynamic_entries_unknown [OF assms(4,5)]
    unfolding dynamic_close_def closes_def Let_def by (simp flip: assms(2))
qed

lemma parse_dynamic_entries:
  assumes "\<forall>k \<in> set keys. length (chunk_at w k) = 32" "length uuid = 16" "HasSuffix key ''.didx''"
    and "csum = Sum256 (concat (map (\<lambda>k. AppendUint64 (uint64_of k + size_at w k) @ chunk_at w k) keys))"
  shows "parseIndex key (dynamic_layout uuid now csum (map (dynamic_entry w) keys)) (hex_EncodeToString csum)
    = Inr \<lparr>checksum = hex_EncodeToString csum, digests = map (\<lambda>k. hex_EncodeToString (chunk_at w k)) keys,
       logicalSize = (if keys = [] then 0 else uint64_of (last keys) + size_at w (last keys))\<rparr>"
proof -
  let ?es = "map (dynamic_entry w) keys"
  have "parseIndex key (dynamic_layout uuid now csum ?es) (hex_EncodeToString csum)
      = Inr \<lparr>checksum = hex_EncodeToString csum, digests = map (\<lambda>(off, d). hex_EncodeToString d) ?es,
         logicalSize = last_offset ?es\<rparr>"
    using assms not_both_suffixes
    by (intro parseIndex_dynamic) (auto simp: dynamic_entry_def comp_def)
  then show ?thesis by (simp add: last_offset_def last_map dynamic_entry_def comp_def)
qed

section \<open>Properties: dynamic indexes\<close>

text \<open>
  C12: Closing a dynamic index. If the size of some assigned chunk is not known the handler panics and
  the store is unchanged. Otherwise it returns, and if it reports success the stored index is one
  the collector parses to the assigned digests in the order of their offsets, with the end of
  the last chunk as its size; the object beside it holds the size of every assigned chunk, from which
  the next incremental backup learns them; and no other object has changed.
\<close>

theorem dynamic_close_roundtrip:
  assumes laws: "puts_stored c view" "puts_only c view"
    and w: "closes q s w0" "HasSuffix (FidxName w0) ''.didx''" "w = load_known (KnownChunksSizes s) w0"
      "\<forall>(k, v) \<in> set (Assignments w0). length v = 32" "length (ce_uuid env) = 16"
    and keys: "keys = sort (map fst (Assignments w0))"
    and csum: "str_at q ''csum'' = hex_EncodeToString (Sum256 (concat
        (map (\<lambda>k. AppendUint64 (uint64_of k + size_at w k) @ chunk_at w k) keys)))"
    and key: "key = S3Prefix (SessionSnapshot s) @ ''/'' @ FidxName w0"
    and run: "dynamic_close json_Marshal env c q st s = (r, st', s')"
  shows "if \<exists>k \<in> set keys. \<not> size_known w k then st' = st \<and> (\<exists>m. r = Panics m)
    else (\<exists>reply. r = Returns reply)
      \<and> (r = Returns (Ok ()) \<longrightarrow> (\<exists>idx sizes. view st' (SelectedDataStore s) key = Some idx
          \<and> parseIndex key idx (str_at q ''csum'') = Inr \<lparr>checksum = str_at q ''csum'',
              digests = map (\<lambda>k. hex_EncodeToString (chunk_at w k)) keys,
              logicalSize = (if keys = [] then 0 else uint64_of (last keys) + size_at w (last keys))\<rparr>
          \<and> view st' (SelectedDataStore s) (key @ ''.csjson'') = Some (json_Marshal sizes)
          \<and> (\<forall>k \<in> set keys. map_of sizes (hex_EncodeToString (chunk_at w k)) = Some (size_at w k))))
      \<and> (b \<noteq> SelectedDataStore s \<or> n \<noteq> key \<and> n \<noteq> key @ ''.csjson'' \<longrightarrow> view st' b n = view st b n)"
proof (cases "\<exists>k \<in> set keys. \<not> size_known w k")
  case True
  then obtain k where "k \<in> set keys" "\<not> size_known w k" by blast
  from dynamic_close_unknown [OF w(1,3) keys this, of json_Marshal env c st] obtain m s''
    where "dynamic_close json_Marshal env c q st s = (Panics m, st, s'')" by blast
  with run have "st' = st \<and> r = Panics m" by simp
  with True show ?thesis by simp
next
  case False
  let ?csum = "Sum256 (concat (map (\<lambda>k. AppendUint64 (uint64_of k + size_at w k) @ chunk_at w k) keys))"
  let ?idx = "dynamic_layout (ce_uuid env) (ce_now env) ?csum (map (dynamic_entry w) keys)"
  obtain reply where store: "store_dynamic c (str_at q ''csum'') ?idx (json_Marshal (sizes_of w keys [])) w st s
      = (reply, st')" and r: "r = Returns reply"
  proof -
    have "\<forall>k \<in> set keys. size_known w k" using False by blast
    from run [unfolded dynamic_close_known [OF w(1,3) keys this csum]] that show ?thesis
      by (cases "store_dynamic c (str_at q ''csum'') ?idx (json_Marshal (sizes_of w keys [])) w st s") simp
  qed
  have key': "key = S3Prefix (SessionSnapshot s) @ ''/'' @ FidxName w" using key w(3) by simp
  have lens: "\<forall>k \<in> set keys. length (chunk_at w k) = 32"
  proof
    fix k assume "k \<in> set keys"
    then have "k \<in> fst ` set (Assignments w)" unfolding keys w(3) by simp
    moreover have "\<forall>(k, v) \<in> set (Assignments w). length v = 32" unfolding w(3) load_known_fields by (rule w(4))
    ultimately show "length (chunk_at w k) = 32" by (intro length_chunk_at)
  qed
  have "HasSuffix key ''.didx''" using HasSuffix_name [OF w(2)] by (simp add: key)
  note parsed = parse_dynamic_entries [OF lens w(5) this refl, folded csum]
  note stored = store_dynamic_view(1) [OF laws store key']
  show ?thesis
    unfolding if_not_P [OF False] r outcome.inject
    using parsed stored sizes_of_assigned [of _ keys w "[]"] store_dynamic_view(2) [OF laws store key'] by blast
qed

definition sample_dynamic :: Writer where
  "sample_dynamic = zero_writer\<lparr>FidxName := ''root.didx'', Assignments := [(0, replicate 32 1)],
     DynamicChunkSizes := [(hex_EncodeToString (replicate 32 1), 100)]\<rparr>"

theorem dynamic_close_roundtrip_witness:
  "\<exists>reply. fst (dynamic_close (\<lambda>_. [123, 125]) sample_env mem_client
      (close_query (Sum256 (AppendUint64 100 @ replicate 32 1))) [] (sample_session sample_dynamic)) = Returns reply"
proof -
  let ?q = "close_query (Sum256 (AppendUint64 100 @ replicate 32 1))"
  obtain r st' s' where run: "dynamic_close (\<lambda>_. [123, 125]) sample_env mem_client ?q [] (sample_session sample_dynamic)
      = (r, st', s')" by (metis prod_cases3)
  have w: "load_known (KnownChunksSizes (sample_session sample_dynamic)) sample_dynamic = sample_dynamic"
    by (simp add: load_known_def sample_session_def)
  have at: "chunk_at sample_dynamic 0 = replicate 32 1" "size_at sample_dynamic 0 = 100" "size_known sample_dynamic 0"
    by (simp_all add: chunk_at_def size_at_def size_known_def sample_dynamic_def)
  have keys: "[0] = sort (map fst (Assignments sample_dynamic))" by (simp add: sample_dynamic_def)
  show ?thesis
    using dynamic_close_roundtrip [OF mem_puts_stored mem_puts_only closes_sample _ w [symmetric] _ _ keys _ refl run]
      at run
    by (simp add: sample_dynamic_def zero_writer_def HasSuffix_def sample_env_def close_query_csum uint64_of_def)
qed

end
