(* ===== verification/BackupSession.thy ===== *)
theory BackupSession
  imports Invalidation
begin

text \<open>
  \<open>cmd/pmoxs3backuproxy/http2.go\<close> and \<open>signal.go\<close>: the sessions of a proxy process, the lock they
  share with the garbage collector, the life of one backup or restore session, and the shutdown.

  The lock between processes (\<open>juju/mutex\<close>) is outside. What is assumed of it is what a mutex is: an
  acquisition succeeds only while nobody holds the name, and a release gives it up. The collector
  takes the lock of the same name (\<open>DataStoreLockName\<close>), so the state machine below has proxies and
  collectors as its processes.
\<close>

section \<open>The session table of a proxy process\<close>

record sessionLock =
  lock_count :: u64

record session_table =
  SessionLocks :: "(string, sessionLock) gomap"
  Sessions :: u64

definition dataStoreLockName :: "string \<Rightarrow> string \<Rightarrow> string" where
  "dataStoreLockName endpoint datastore = DataStoreLockName endpoint datastore"

text \<open>
  The outcome of the acquisition of the process mutex is an argument, used only when the table has
  no entry for the name. The last component tells whether the mutex was acquired.
\<close>

definition beginDataStoreSession ::
    "goerr option \<Rightarrow> string \<Rightarrow> string \<Rightarrow> session_table \<Rightarrow> string result \<times> session_table \<times> bool" where
  "beginDataStoreSession acquire_err endpoint datastore s =
     (let lockName = dataStoreLockName endpoint datastore;
          count = (\<lambda>e s. s\<lparr>SessionLocks := AList.update lockName (e\<lparr>lock_count := lock_count e + 1\<rparr>)
                             (SessionLocks s), Sessions := Sessions s + 1\<rparr>)
      in case map_of (SessionLocks s) lockName of
           Some e \<Rightarrow> (Inr lockName, count e s, False)
         | None \<Rightarrow>
             (case acquire_err of
                Some err \<Rightarrow> (Inl err, s, False)
              | None \<Rightarrow> (Inr lockName, count \<lparr>lock_count = 0\<rparr> s, True)))"

text \<open>The second component tells whether the mutex was released.\<close>

definition endDataStoreSession :: "string \<Rightarrow> session_table \<Rightarrow> session_table \<times> bool" where
  "endDataStoreSession lockName s =
     (case map_of (SessionLocks s) lockName of
        None \<Rightarrow> (s, False)
      | Some e \<Rightarrow>
          if lock_count e = 0 then (s, False)
          else
            let e = e\<lparr>lock_count := lock_count e - 1\<rparr>;
                s = s\<lparr>Sessions := Sessions s - 1\<rparr>
            in if lock_count e = 0
               then (s\<lparr>SessionLocks := AList.delete lockName (SessionLocks s)\<rparr>, True)
               else (s\<lparr>SessionLocks := AList.update lockName e (SessionLocks s)\<rparr>, False))"

definition activeSessions :: "session_table \<Rightarrow> u64" where
  "activeSessions s = Sessions s"

section \<open>Shutdown\<close>

datatype os_signal = SIGINT | SIGTERM | SIGUSR1

datatype signal_action = Continue | Exit int

text \<open>One turn of the signal loop: the action and the next signal count.\<close>

definition handleSignal :: "session_table \<Rightarrow> os_signal \<Rightarrow> nat \<Rightarrow> signal_action \<times> nat" where
  "handleSignal s sig signalcnt =
     (case sig of
        SIGUSR1 \<Rightarrow> (Continue, signalcnt)
      | _ \<Rightarrow>
          let active = activeSessions s in
          if active > 0 \<and> signalcnt < 1 then (Continue, signalcnt + 1)
          else if active > 0 then (Exit 1, signalcnt)
          else (Exit 0, signalcnt))"

section \<open>One session\<close>

text \<open>
  A backup session. What the HTTP/2 connection does between the upgrade and its end, including the
  handlers it calls, is the argument \<open>serve\<close>: it changes the store and says whether the client
  finished the backup. The publication at the end is an argument as in the collector.
\<close>

record ('s, 'n) session_world =
  sw_store :: 's
  sw_tokens :: 'n
  sw_table :: session_table

definition backup ::
    "('s \<Rightarrow> 's \<times> bool) \<Rightarrow> ('n \<Rightarrow> 'n) \<Rightarrow> goerr option \<Rightarrow> 's s3_client \<Rightarrow> string \<Rightarrow> string
      \<Rightarrow> Snapshot \<Rightarrow> ('s, 'n) session_world \<Rightarrow> ('s, 'n) session_world" where
  "backup serve publish acquire_err c endpoint ds S w =
     (case beginDataStoreSession acquire_err endpoint ds (sw_table w) of
        (Inl err, table, _) \<Rightarrow> w\<lparr>sw_table := table\<rparr>
      | (Inr lockName, table, _) \<Rightarrow>
          (case serve (sw_store w) of
             (st, finished) \<Rightarrow>
               let st = (if \<not> finished then snd (Delete c st (S\<lparr>Datastore := ds\<rparr>)) else st)
               in w\<lparr>sw_store := st, sw_tokens := publish (sw_tokens w),
                    sw_table := fst (endDataStoreSession lockName table)\<rparr>))"

definition restore ::
    "('s \<Rightarrow> 's) \<Rightarrow> goerr option \<Rightarrow> string \<Rightarrow> string \<Rightarrow> ('s, 'n) session_world
      \<Rightarrow> ('s, 'n) session_world" where
  "restore serve acquire_err endpoint ds w =
     (case beginDataStoreSession acquire_err endpoint ds (sw_table w) of
        (Inl err, table, _) \<Rightarrow> w\<lparr>sw_table := table\<rparr>
      | (Inr lockName, table, _) \<Rightarrow>
          w\<lparr>sw_store := serve (sw_store w), sw_table := fst (endDataStoreSession lockName table)\<rparr>)"

section \<open>Processes and the lock\<close>

datatype holder = Proxy nat | GcProcess nat

text \<open>
  The processes of a host: the tables of the proxies, who holds which lock, the sessions that are
  running, each with its proxy and its lock name, and the collectors that are running.
\<close>

record lock_sys =
  tables :: "nat \<Rightarrow> session_table"
  held :: "string \<Rightarrow> holder option"
  running :: "(nat \<times> string) list"
  collectors :: "(nat \<times> string) list"

definition lock_start :: "lock_sys \<Rightarrow> bool" where
  "lock_start s \<longleftrightarrow> tables s = (\<lambda>_. \<lparr>SessionLocks = [], Sessions = 0\<rparr>) \<and> held s = (\<lambda>_. None)
     \<and> running s = [] \<and> collectors s = []"

text \<open>Of a process with 2 to the 64 sessions nothing is claimed: the counters would wrap.\<close>

definition room :: "lock_sys \<Rightarrow> bool" where
  "room s \<longleftrightarrow> Suc (length (running s)) < 2 ^ 64"

inductive lock_step :: "lock_sys \<Rightarrow> lock_sys \<Rightarrow> bool" where
  session_first:
    "room s \<Longrightarrow> beginDataStoreSession None endpoint ds (tables s p) = (Inr name, t, True) \<Longrightarrow>
     held s name = None \<Longrightarrow>
     lock_step s (s\<lparr>tables := (tables s)(p := t), held := (held s)(name \<mapsto> Proxy p),
                   running := (p, name) # running s\<rparr>)"
| session_more:
    "room s \<Longrightarrow> beginDataStoreSession err endpoint ds (tables s p) = (Inr name, t, False) \<Longrightarrow>
     lock_step s (s\<lparr>tables := (tables s)(p := t), running := (p, name) # running s\<rparr>)"
| session_refused:
    "beginDataStoreSession err endpoint ds (tables s p) = (Inl e, t, acquired) \<Longrightarrow>
     lock_step s (s\<lparr>tables := (tables s)(p := t)\<rparr>)"
| session_end:
    "(p, name) \<in> set (running s) \<Longrightarrow> endDataStoreSession name (tables s p) = (t, released) \<Longrightarrow>
     lock_step s (s\<lparr>tables := (tables s)(p := t),
                   held := (if released then (held s)(name := None) else held s),
                   running := remove1 (p, name) (running s)\<rparr>)"
| collector_begin:
    "held s name = None \<Longrightarrow>
     lock_step s (s\<lparr>held := (held s)(name \<mapsto> GcProcess g), collectors := (g, name) # collectors s\<rparr>)"
| collector_end:
    "(g, name) \<in> set (collectors s) \<Longrightarrow>
     lock_step s (s\<lparr>held := (held s)(name := None), collectors := remove1 (g, name) (collectors s)\<rparr>)"

section \<open>Lemmas\<close>

definition sessions_on :: "lock_sys \<Rightarrow> nat \<Rightarrow> string \<Rightarrow> nat" where
  "sessions_on s p name = count_list (running s) (p, name)"

definition sessions_of :: "lock_sys \<Rightarrow> nat \<Rightarrow> nat" where
  "sessions_of s p = length (filter (\<lambda>(q, _). q = p) (running s))"

text \<open>
  The invariant: an entry of a table counts the sessions of its process on its name and means that
  the process holds the lock; without an entry there is no session; a running collector holds the
  lock of its name, and is the only one to run on it.
\<close>

definition slot_inv :: "lock_sys \<Rightarrow> nat \<Rightarrow> string \<Rightarrow> bool" where
  "slot_inv s p name \<longleftrightarrow>
     (case map_of (SessionLocks (tables s p)) name of
        None \<Rightarrow> sessions_on s p name = 0
      | Some e \<Rightarrow> lock_count e = of_nat (sessions_on s p name) \<and> 0 < sessions_on s p name
          \<and> held s name = Some (Proxy p))"

definition lock_inv :: "lock_sys \<Rightarrow> bool" where
  "lock_inv s \<longleftrightarrow> length (running s) < 2 ^ 64 \<and> (\<forall>p name. slot_inv s p name)
     \<and> (\<forall>p. Sessions (tables s p) = of_nat (sessions_of s p))
     \<and> (\<forall>(g, name) \<in> set (collectors s). held s name = Some (GcProcess g))
     \<and> distinct (map snd (collectors s))"

lemma lock_start_inv: "lock_start s \<Longrightarrow> lock_inv s"
  by (auto simp: lock_start_def lock_inv_def slot_inv_def sessions_on_def sessions_of_def)

lemma count_list_remove1:
  "x \<in> set xs \<Longrightarrow> count_list (remove1 x xs) y = (if y = x then count_list xs y - 1 else count_list xs y)"
  by (induction xs) (auto simp: count_list_0_iff Suc_diff_Suc gr0_conv_Suc)

lemma length_filter_remove1_if:
  "x \<in> set xs \<Longrightarrow> length (filter P (remove1 x xs)) = length (filter P xs) - (if P x then 1 else 0)"
proof (induction xs)
  case (Cons a xs)
  have "P x \<Longrightarrow> x \<in> set xs \<Longrightarrow> 0 < length (filter P xs)" by (auto simp: filter_empty_conv)
  with Cons show ?case by auto
qed simp

lemma begin_Inr:
  assumes "beginDataStoreSession err endpoint ds s = (Inr name, t, acquired)"
  shows "map_of (SessionLocks t) = (map_of (SessionLocks s))(name \<mapsto>
      \<lparr>lock_count = (case map_of (SessionLocks s) name of None \<Rightarrow> 0 | Some e \<Rightarrow> lock_count e) + 1\<rparr>)"
    and "Sessions t = Sessions s + 1" and "acquired \<longleftrightarrow> map_of (SessionLocks s) name = None"
    and "name = DataStoreLockName endpoint ds"
  using assms
  by (auto simp: beginDataStoreSession_def dataStoreLockName_def Let_def map_of_update split: option.splits)

lemma begin_Inl: "beginDataStoreSession err endpoint ds s = (Inl e, t, acquired) \<Longrightarrow> t = s"
  by (auto simp: beginDataStoreSession_def Let_def split: option.splits)

lemma end_Some:
  assumes "endDataStoreSession name s = (t, released)" "map_of (SessionLocks s) name = Some e"
    and "lock_count e \<noteq> 0"
  shows "map_of (SessionLocks t) = (map_of (SessionLocks s))(name :=
      (if lock_count e = 1 then None else Some \<lparr>lock_count = lock_count e - 1\<rparr>))"
    and "Sessions t = Sessions s - 1" and "released \<longleftrightarrow> lock_count e = 1"
  using assms
  by (auto simp: endDataStoreSession_def Let_def map_of_update AList.delete_conv' split: if_splits)

text \<open>A new session, whether it finds an entry or acquires the lock.\<close>

lemma inv_begin:
  assumes inv: "lock_inv s" and room: "room s"
    and start: "beginDataStoreSession err endpoint ds (tables s p) = (Inr name, t, acquired)"
    and free: "acquired \<Longrightarrow> held s name = None"
  shows "lock_inv (s\<lparr>tables := (tables s)(p := t),
    held := (if acquired then (held s)(name \<mapsto> Proxy p) else held s), running := (p, name) # running s\<rparr>)"
    (is "lock_inv ?s")
proof -
  have slot: "slot_inv s q n" for q n using inv by (simp add: lock_inv_def)
  have "slot_inv ?s q n" for q n
  proof (cases "q = p \<and> n = name")
    case True
    with slot [of p name] begin_Inr(1,3) [OF start] show ?thesis
      by (auto simp: slot_inv_def sessions_on_def split: option.splits if_splits)
  next
    case False
    have "held ?s n = held s n" if "map_of (SessionLocks (tables s q)) n = Some e" for e
      using that False free slot [of q n] by (auto simp: slot_inv_def)
    moreover have "map_of (SessionLocks (tables ?s q)) n = map_of (SessionLocks (tables s q)) n"
      using False begin_Inr(1) [OF start] by auto
    ultimately show ?thesis
      using slot [of q n] False by (auto simp: slot_inv_def sessions_on_def split: option.splits)
  qed
  moreover have "Sessions (tables ?s q) = of_nat (sessions_of ?s q)" for q
    using inv begin_Inr(2) [OF start] by (simp add: lock_inv_def sessions_of_def)
  moreover have "\<forall>(g, n) \<in> set (collectors ?s). held ?s n = Some (GcProcess g)"
    using inv free by (fastforce simp: lock_inv_def)
  ultimately show ?thesis using inv room by (simp add: lock_inv_def room_def)
qed

lemma of_nat_u64_eq_iff:
  "a < 2 ^ 64 \<Longrightarrow> b < 2 ^ 64 \<Longrightarrow> (of_nat a :: u64) = of_nat b \<longleftrightarrow> a = b"
  using of_nat_u64_inject by blast

text \<open>The entry of a running session, and the sessions left when it ends.\<close>

lemma running_slot:
  assumes inv: "lock_inv s" and mem: "(p, name) \<in> set (running s)"
  obtains e where "map_of (SessionLocks (tables s p)) name = Some e"
    "lock_count e = of_nat (sessions_on s p name)" "held s name = Some (Proxy p)"
    "lock_count e \<noteq> 0" "lock_count e = 1 \<longleftrightarrow> sessions_on s p name = 1" "0 < sessions_on s p name"
proof -
  have pos: "0 < sessions_on s p name" using mem by (metis sessions_on_def count_list_0_iff gr0I)
  have small: "sessions_on s p name < 2 ^ 64"
    using inv count_le_length [of "running s" "(p, name)"] by (simp add: lock_inv_def sessions_on_def)
  have "slot_inv s p name" using inv by (simp add: lock_inv_def)
  then obtain e where e: "map_of (SessionLocks (tables s p)) name = Some e"
    "lock_count e = of_nat (sessions_on s p name)" "held s name = Some (Proxy p)"
    using pos by (auto simp: slot_inv_def split: option.splits)
  show ?thesis
    using that [OF e] of_nat_u64_eq_iff [of "sessions_on s p name" 0] of_nat_u64_eq_iff [of "sessions_on s p name" 1]
      pos small e(2) by simp
qed

lemma sessions_of_end:
  assumes mem: "(p, name) \<in> set (running s)" and run: "running u = remove1 (p, name) (running s)"
    and count: "Sessions (tables s q) = of_nat (sessions_of s q)"
    and t: "Sessions (tables u q) = (if q = p then Sessions (tables s q) - 1 else Sessions (tables s q))"
  shows "Sessions (tables u q) = of_nat (sessions_of u q)"
proof -
  have "0 < sessions_of s p" using mem by (auto simp: sessions_of_def filter_empty_conv)
  then obtain k where k: "sessions_of s p = Suc k" using gr0_implies_Suc by blast
  have "sessions_of u q = sessions_of s q - (if q = p then 1 else 0)"
    using length_filter_remove1_if [OF mem, of "\<lambda>(x, _). x = q"] run by (auto simp: sessions_of_def)
  then show ?thesis using t count k by (cases "q = p") simp_all
qed

lemma inv_end:
  assumes inv: "lock_inv s" and mem: "(p, name) \<in> set (running s)"
    and fin: "endDataStoreSession name (tables s p) = (t, released)"
  shows "lock_inv (s\<lparr>tables := (tables s)(p := t),
    held := (if released then (held s)(name := None) else held s),
    running := remove1 (p, name) (running s)\<rparr>)" (is "lock_inv ?s")
proof -
  have slot: "slot_inv s q n" for q n using inv by (simp add: lock_inv_def)
  obtain e where e: "map_of (SessionLocks (tables s p)) name = Some e"
    "lock_count e = of_nat (sessions_on s p name)" "held s name = Some (Proxy p)"
    and ne: "lock_count e \<noteq> 0" and one: "lock_count e = 1 \<longleftrightarrow> sessions_on s p name = 1"
    and pos: "0 < sessions_on s p name"
    using running_slot [OF inv mem] .
  note t = end_Some [OF fin e(1) ne]
  have on: "sessions_on u q n = (if q = p \<and> n = name then sessions_on s q n - 1 else sessions_on s q n)"
    if "running u = remove1 (p, name) (running s)" for u q n
    using count_list_remove1 [OF mem, of "(q, n)"] that by (simp add: sessions_on_def)
  have "slot_inv ?s q n" for q n
  proof (cases "q = p \<and> n = name")
    case True
    show ?thesis
    proof (cases "sessions_on s p name = 1")
      case one': True
      with True t(1) one show ?thesis by (simp add: slot_inv_def on)
    next
      case False
      with True t(1,3) one e pos show ?thesis
        by (simp add: slot_inv_def on of_nat_diff)
    qed
  next
    case False
    have "held ?s n = held s n" if "map_of (SessionLocks (tables s q)) n = Some e'" for e'
      using that False slot [of q n] e(3) by (auto simp: slot_inv_def)
    moreover have "map_of (SessionLocks (tables ?s q)) n = map_of (SessionLocks (tables s q)) n"
      using False t(1) by auto
    ultimately show ?thesis
      using slot [of q n] False by (auto simp: slot_inv_def on split: option.splits)
  qed
  moreover have "Sessions (tables ?s q) = of_nat (sessions_of ?s q)" for q
    by (rule sessions_of_end [OF mem]) (use inv t(2) in \<open>simp_all add: lock_inv_def\<close>)
  moreover have "\<forall>(g, n) \<in> set (collectors ?s). held ?s n = Some (GcProcess g)"
    using inv e(3) by (fastforce simp: lock_inv_def)
  moreover have "length (running ?s) < 2 ^ 64"
    using inv length_remove1 [of "(p, name)" "running s"] by (simp add: lock_inv_def split: if_splits)
  ultimately show ?thesis using inv by (simp add: lock_inv_def)
qed

lemma distinct_remove1_keys:
  "distinct (map snd xs) \<Longrightarrow> x \<in> set xs \<Longrightarrow>
   distinct (map snd (remove1 x xs)) \<and> (\<forall>y \<in> set (remove1 x xs). snd y \<noteq> snd x)"
proof (induction xs)
  case (Cons a xs)
  then show ?case using set_remove1_subset [of x xs] by (auto simp: rev_image_eqI image_iff)
qed simp

lemma slot_other:
  assumes "slot_inv s p n" "tables t = tables s" "running t = running s" "held s n = Some (Proxy p) \<Longrightarrow> held t n = held s n"
  shows "slot_inv t p n"
  using assms by (auto simp: slot_inv_def sessions_on_def split: option.splits)

lemma lock_invD:
  assumes "lock_inv s"
  shows "slot_inv s p name" and "(g, name) \<in> set (collectors s) \<Longrightarrow> held s name = Some (GcProcess g)"
    and "distinct (map snd (collectors s))" and "Sessions (tables s p) = of_nat (sessions_of s p)"
    and "length (running s) < 2 ^ 64"
  using assms unfolding lock_inv_def by blast+

lemma lock_inv_same_sessions:
  assumes inv: "lock_inv s" and same: "tables t = tables s" "running t = running s"
    and proxies: "\<And>p n. held s n = Some (Proxy p) \<Longrightarrow> held t n = held s n"
    and gcs: "\<And>g n. (g, n) \<in> set (collectors t) \<Longrightarrow> held t n = Some (GcProcess g)"
      "distinct (map snd (collectors t))"
  shows "lock_inv t"
proof -
  have "slot_inv t p n" for p n
    using lock_invD(1) [OF inv] same proxies by (rule slot_other)
  moreover have "Sessions (tables t p) = of_nat (sessions_of t p)" for p
    using lock_invD(4) [OF inv, of p] same by (simp add: sessions_of_def)
  moreover have "length (running t) < 2 ^ 64" using lock_invD(5) [OF inv] same by simp
  ultimately show ?thesis using gcs unfolding lock_inv_def by blast
qed

lemma inv_collector_begin:
  assumes inv: "lock_inv s" and free: "held s name = None"
  shows "lock_inv (s\<lparr>held := (held s)(name \<mapsto> GcProcess g), collectors := (g, name) # collectors s\<rparr>)"
proof (rule lock_inv_same_sessions [OF inv])
  have new: "name \<notin> snd ` set (collectors s)" using lock_invD(2) [OF inv] free by fastforce
  show "distinct (map snd (collectors (s\<lparr>held := (held s)(name \<mapsto> GcProcess g),
      collectors := (g, name) # collectors s\<rparr>)))"
    using lock_invD(3) [OF inv] new by simp
  show "held (s\<lparr>held := (held s)(name \<mapsto> GcProcess g), collectors := (g, name) # collectors s\<rparr>) n
      = Some (GcProcess h)"
    if "(h, n) \<in> set (collectors (s\<lparr>held := (held s)(name \<mapsto> GcProcess g),
      collectors := (g, name) # collectors s\<rparr>))" for h n
    using that lock_invD(2) [OF inv, of h n] new by (force simp: image_iff)
qed (use free in auto)

lemma inv_collector_end:
  assumes inv: "lock_inv s" and mem: "(g, name) \<in> set (collectors s)"
  shows "lock_inv (s\<lparr>held := (held s)(name := None), collectors := remove1 (g, name) (collectors s)\<rparr>)"
proof (rule lock_inv_same_sessions [OF inv])
  have keys: "distinct (map snd (remove1 (g, name) (collectors s)))"
    "\<And>y. y \<in> set (remove1 (g, name) (collectors s)) \<Longrightarrow> snd y \<noteq> name"
    using distinct_remove1_keys [OF lock_invD(3) [OF inv] mem] by auto
  show "distinct (map snd (collectors (s\<lparr>held := (held s)(name := None),
      collectors := remove1 (g, name) (collectors s)\<rparr>)))"
    using keys(1) by simp
  show "held (s\<lparr>held := (held s)(name := None), collectors := remove1 (g, name) (collectors s)\<rparr>) n
      = Some (GcProcess h)"
    if "(h, n) \<in> set (collectors (s\<lparr>held := (held s)(name := None),
      collectors := remove1 (g, name) (collectors s)\<rparr>))" for h n
  proof -
    have m: "(h, n) \<in> set (remove1 (g, name) (collectors s))" using that by simp
    then have "(h, n) \<in> set (collectors s)" using set_remove1_subset by fastforce
    with lock_invD(2) [OF inv] keys(2) [OF m] show ?thesis by simp
  qed
qed (use lock_invD(2) [OF inv mem] in auto)

lemma lock_step_inv:
  assumes "lock_step s t" "lock_inv s"
  shows "lock_inv t"
  using assms(1)
proof (cases rule: lock_step.cases)
  case (session_first endpoint ds p name tab)
  with inv_begin [OF assms(2), of None endpoint ds p name tab True] show ?thesis by simp
next
  case (session_more err endpoint ds p name tab)
  with inv_begin [OF assms(2), of err endpoint ds p name tab False] show ?thesis by simp
next
  case (session_refused err endpoint ds p e tab acquired)
  then have "tab = tables s p" using begin_Inl by blast
  then have "t = s" using session_refused(1) by simp
  with assms(2) show ?thesis by simp
next
  case (session_end p name tab released)
  with inv_end [OF assms(2)] show ?thesis by simp
next
  case (collector_begin name g)
  then show ?thesis using inv_collector_begin [OF assms(2)] by simp
next
  case (collector_end g name)
  then show ?thesis using inv_collector_end [OF assms(2)] by simp
qed

interpretation lock_machine: stepper lock_start lock_step lock_inv
  by unfold_locales (auto intro: lock_start_inv lock_step_inv)

text \<open>Every lock that is held has an owner: a table entry of the proxy, or a running collector.\<close>

definition owner_known :: "lock_sys \<Rightarrow> string \<Rightarrow> bool" where
  "owner_known s name \<longleftrightarrow>
     (case held s name of
        None \<Rightarrow> True
      | Some (Proxy p) \<Rightarrow> map_of (SessionLocks (tables s p)) name \<noteq> None
      | Some (GcProcess g) \<Rightarrow> (g, name) \<in> set (collectors s))"

lemma end_dom:
  "endDataStoreSession name s = (t, released) \<Longrightarrow>
   map_of (SessionLocks t) n \<noteq> None \<longleftrightarrow> map_of (SessionLocks s) n \<noteq> None \<and> \<not> (released \<and> n = name)"
  by (auto simp: endDataStoreSession_def Let_def map_of_update AList.delete_conv'
      split: option.splits if_splits)

lemma owner_step:
  assumes "lock_step s t" and known: "\<And>name. owner_known s name"
  shows "owner_known t n"
  using assms(1)
proof (cases rule: lock_step.cases)
  case (session_first endpoint ds p name tab)
  with known [of n] begin_Inr(1) [OF session_first(3)] show ?thesis
    by (auto simp: owner_known_def split: option.splits holder.splits)
next
  case (session_more err endpoint ds p name tab)
  with known [of n] begin_Inr(1) [OF session_more(3)] show ?thesis
    by (auto simp: owner_known_def split: option.splits holder.splits)
next
  case (session_refused err endpoint ds p e tab acquired)
  with known [of n] begin_Inl [OF session_refused(2)] show ?thesis
    by (auto simp: owner_known_def split: option.splits holder.splits)
next
  case (session_end p name tab released)
  with known [of n] end_dom [OF session_end(3), of n] show ?thesis
    by (auto simp: owner_known_def split: option.splits holder.splits)
next
  case (collector_begin name g)
  with known [of n] show ?thesis by (auto simp: owner_known_def split: option.splits holder.splits)
next
  case (collector_end g name)
  with known [of n] show ?thesis
    by (auto simp: owner_known_def in_set_remove1 split: option.splits holder.splits)
qed

lemma owner_start: "lock_start s \<Longrightarrow> owner_known s n"
  by (simp add: lock_start_def owner_known_def)

interpretation owner_machine: stepper lock_start lock_step "\<lambda>s. \<forall>n. owner_known s n"
  by unfold_locales (auto intro: owner_start owner_step)

text \<open>With nobody running on a name, its lock is free and no table has an entry for it.\<close>

lemma idle_lock_free:
  assumes "lock_inv s" "owner_known s name"
    and "\<And>p. (p, name) \<notin> set (running s)" "\<And>g. (g, name) \<notin> set (collectors s)"
  shows "held s name = None \<and> map_of (SessionLocks (tables s p)) name = None"
proof -
  have none: "map_of (SessionLocks (tables s q)) name = None" for q
    using lock_invD(1) [OF assms(1), of q name] assms(3) [of q]
    by (auto simp: slot_inv_def sessions_on_def count_list_0_iff split: option.splits)
  then show ?thesis
    using assms(2,4) by (auto simp: owner_known_def split: option.splits holder.splits)
qed

lemma running_holds:
  assumes "lock_inv s" "(p, name) \<in> set (running s)"
  shows "held s name = Some (Proxy p)"
proof -
  have "0 < sessions_on s p name" using assms(2) by (metis sessions_on_def count_list_0_iff gr0I)
  then show ?thesis
    using lock_invD(1) [OF assms(1), of p name] by (auto simp: slot_inv_def split: option.splits)
qed

section \<open>Properties\<close>

text \<open>
  C4: Backups and garbage collection exclude each other. In every state the processes of a host can
  reach, a session on a datastore of an endpoint runs only while no collector runs on it and no
  other proxy process has a session on it, and no two collectors run on it.
\<close>

theorem sessions_exclude_collector:
  assumes "lock_start s0" "lock_step\<^sup>*\<^sup>* s0 s" "name = dataStoreLockName endpoint ds"
  shows "((p, name) \<in> set (running s) \<longrightarrow>
      (\<forall>g. (g, name) \<notin> set (collectors s)) \<and> (\<forall>q. (q, name) \<in> set (running s) \<longrightarrow> q = p))
    \<and> ((g, name) \<in> set (collectors s) \<longrightarrow> (h, name) \<in> set (collectors s) \<longrightarrow> g = h)"
proof -
  have inv: "lock_inv s" using assms(1,2) by (rule lock_machine.reachable_inv)
  note holds = running_holds [OF inv, of _ name] lock_invD(2) [OF inv, of _ name]
  show ?thesis using holds by (metis holder.distinct(1) holder.inject option.inject)
qed

text \<open>A proxy with two sessions on one datastore, one of which has ended.\<close>

definition two_sessions :: lock_sys where
  "two_sessions =
     \<lparr>tables = (\<lambda>_. \<lparr>SessionLocks = [], Sessions = 0\<rparr>)
        (1 := \<lparr>SessionLocks = [(dataStoreLockName ''s3'' ''ds'', \<lparr>lock_count = 1\<rparr>)], Sessions = 1\<rparr>),
      held = (\<lambda>_. None)(dataStoreLockName ''s3'' ''ds'' \<mapsto> Proxy 1),
      running = [(1, dataStoreLockName ''s3'' ''ds'')], collectors = []\<rparr>"

definition no_sessions :: lock_sys where
  "no_sessions =
     \<lparr>tables = (\<lambda>_. \<lparr>SessionLocks = [], Sessions = 0\<rparr>), held = (\<lambda>_. None), running = [], collectors = []\<rparr>"

lemma no_sessions_start: "lock_start no_sessions"
  by (simp add: lock_start_def no_sessions_def)

lemma two_sessions_reachable: "lock_step\<^sup>*\<^sup>* no_sessions two_sessions"
proof -
  define n where "n = dataStoreLockName ''s3'' ''ds''"
  define t where "t k = \<lparr>SessionLocks = [(n, \<lparr>lock_count = k\<rparr>)], Sessions = k\<rparr>" for k
  define z where "z = (\<lambda>_ :: nat. \<lparr>SessionLocks = [], Sessions = 0\<rparr>)"
  define s where "s k r = \<lparr>tables = z(1 := t k), held = (\<lambda>_. None)(n \<mapsto> Proxy 1), running = r,
      collectors = []\<rparr>" for k r
  have begins: "beginDataStoreSession None ''s3'' ''ds'' (z 1) = (Inr n, t 1, True)"
    "beginDataStoreSession None ''s3'' ''ds'' (t 1) = (Inr n, t 2, False)"
    "endDataStoreSession n (t 2) = (t 1, False)"
    by (simp_all add: beginDataStoreSession_def endDataStoreSession_def z_def t_def n_def Let_def)
  have z': "no_sessions = \<lparr>tables = z, held = (\<lambda>_. None), running = [], collectors = []\<rparr>"
    by (simp add: no_sessions_def z_def)
  have "lock_step no_sessions (s 1 [(1, n)])"
    using lock_step.session_first [of no_sessions "''s3''" "''ds''" 1 n "t 1"] begins(1)
    by (simp add: z' s_def room_def)
  moreover have "lock_step (s 1 [(1, n)]) (s 2 [(1, n), (1, n)])"
    using lock_step.session_more [of "s 1 [(1, n)]" None "''s3''" "''ds''" 1 n "t 2"] begins(2)
    by (simp add: s_def room_def)
  moreover have "lock_step (s 2 [(1, n), (1, n)]) (s 1 [(1, n)])"
    using lock_step.session_end [of 1 n "s 2 [(1, n), (1, n)]" "t 1" False] begins(3)
    by (simp add: s_def)
  moreover have "s 1 [(1, n)] = two_sessions" by (simp add: s_def two_sessions_def n_def t_def z_def)
  ultimately show ?thesis by (metis converse_rtranclp_into_rtranclp rtranclp.rtrancl_refl)
qed

theorem sessions_exclude_collector_witness:
  "(1, dataStoreLockName ''s3'' ''ds'') \<in> set (running two_sessions)
   \<and> (\<forall>g. (g, dataStoreLockName ''s3'' ''ds'') \<notin> set (collectors two_sessions))"
  using sessions_exclude_collector [OF no_sessions_start two_sessions_reachable refl, of 1 "''s3''" "''ds''"]
  by (simp add: two_sessions_def)

text \<open>
  C32: A lock is never left behind. In every reachable state, when no session and no collector runs on
  a datastore its lock is free, so that the next session can start on it in any proxy process, and
  so can a collector.
\<close>

theorem idle_datastore_can_be_locked:
  assumes "lock_start s0" "lock_step\<^sup>*\<^sup>* s0 s" "room s"
    and "name = dataStoreLockName endpoint ds"
    and "\<And>q. (q, name) \<notin> set (running s)" "\<And>g. (g, name) \<notin> set (collectors s)"
  shows "(\<exists>t. lock_step s t \<and> (p, name) \<in> set (running t))
    \<and> (\<exists>t. lock_step s t \<and> (g, name) \<in> set (collectors t))"
proof -
  have "lock_inv s" "owner_known s name"
    using assms(1,2) lock_machine.reachable_inv owner_machine.reachable_inv by blast+
  note free = idle_lock_free [OF this assms(5,6), of p]
  obtain t where t: "beginDataStoreSession None endpoint ds (tables s p) = (Inr name, t, True)"
    using free assms(4) by (simp add: beginDataStoreSession_def Let_def)
  have "lock_step s (s\<lparr>tables := (tables s)(p := t), held := (held s)(name \<mapsto> Proxy p),
      running := (p, name) # running s\<rparr>)"
    using lock_step.session_first [OF assms(3) t] free by simp
  moreover have "lock_step s (s\<lparr>held := (held s)(name \<mapsto> GcProcess g), collectors := (g, name) # collectors s\<rparr>)"
    using lock_step.collector_begin free by blast
  ultimately show ?thesis by fastforce
qed

theorem idle_datastore_can_be_locked_witness:
  "\<exists>t. lock_step no_sessions t \<and> (7, dataStoreLockName ''s3'' ''ds'') \<in> set (collectors t)"
  using idle_datastore_can_be_locked [OF no_sessions_start rtranclp.rtrancl_refl _ refl, of "''s3''" "''ds''" 0 7]
  by (simp add: no_sessions_def room_def)

text \<open>
  Shutdown does not cut running sessions short by accident. In every reachable state the process
  exits with status 0 exactly on a termination signal while none of its sessions runs; on the first
  such signal while one runs it goes on and remembers the signal, and only a later one makes it
  exit, with status 1. The other signal is ignored.
\<close>

theorem shutdown_respects_sessions:
  assumes "lock_start s0" "lock_step\<^sup>*\<^sup>* s0 s" "busy \<longleftrightarrow> (\<exists>name. (p, name) \<in> set (running s))"
  shows "handleSignal (tables s p) sig signalcnt =
    (if sig = SIGUSR1 then (Continue, signalcnt)
     else if \<not> busy then (Exit 0, signalcnt)
     else if signalcnt = 0 then (Continue, 1)
     else (Exit 1, signalcnt))"
proof -
  have inv: "lock_inv s" using assms(1,2) by (rule lock_machine.reachable_inv)
  have "sessions_of s p \<le> length (running s)" by (simp add: sessions_of_def)
  then have "sessions_of s p < 2 ^ 64" using lock_invD(5) [OF inv] by simp
  moreover have "sessions_of s p = 0 \<longleftrightarrow> \<not> busy"
    by (auto simp: sessions_of_def filter_empty_conv assms(3))
  ultimately have "Sessions (tables s p) = 0 \<longleftrightarrow> \<not> busy"
    using of_nat_u64_eq_iff [of "sessions_of s p" 0] lock_invD(4) [OF inv, of p] by simp
  then have "0 < Sessions (tables s p) \<longleftrightarrow> busy" by (simp add: word_gt_0)
  then show ?thesis
    by (cases sig) (simp_all add: handleSignal_def activeSessions_def Let_def)
qed

theorem shutdown_respects_sessions_witness:
  "handleSignal (tables two_sessions 1) SIGTERM 0 = (Continue, 1)"
  using shutdown_respects_sessions [OF no_sessions_start two_sessions_reachable, of True 1 SIGTERM 0]
  by (simp add: two_sessions_def)

text \<open>
  C22: A backup session leaves nothing behind. When the lock cannot be taken nothing changes. When the
  client did not finish, the snapshot is deleted, and if the deletion reports no error no object of
  it is left in the bucket; when the client finished, what the session stored stays as it is. In
  both cases a change of the datastore is published, and the session table is what it was before.
\<close>

theorem backup_session_cleans_up:
  assumes client: "removes_all c view" "removes_only c view" "lists_all c view"
    and served: "serve (sw_store w) = (st, finished)"
    and room: "\<And>e. map_of (SessionLocks (sw_table w)) (dataStoreLockName endpoint ds) = Some e \<Longrightarrow>
      lock_count e \<noteq> 0 \<and> lock_count e + 1 \<noteq> 0"
    and w': "w' = backup serve publish acquire_err c endpoint ds S w"
  shows "map_of (SessionLocks (sw_table w')) = map_of (SessionLocks (sw_table w))
    \<and> Sessions (sw_table w') = Sessions (sw_table w)
    \<and> (if succeeds (fst (beginDataStoreSession acquire_err endpoint ds (sw_table w)))
       then sw_tokens w' = publish (sw_tokens w)
         \<and> (finished \<longrightarrow> sw_store w' = st)
         \<and> (\<not> finished \<longrightarrow> fst (Delete c st (S\<lparr>Datastore := ds\<rparr>)) = None \<longrightarrow>
              HasPrefix k (S3Prefix S @ ''/'') \<longrightarrow> view (sw_store w') ds k = None)
       else w' = w)"
proof (cases "beginDataStoreSession acquire_err endpoint ds (sw_table w)")
  case (fields r tab acquired)
  show ?thesis
  proof (cases r)
    case (Inl e)
    with fields begin_Inl [of acquire_err endpoint ds "sw_table w" e tab acquired] show ?thesis
      by (simp add: w' backup_def)
  next
    case (Inr name)
    note b = begin_Inr [OF fields [unfolded Inr]]
    obtain t released where e: "endDataStoreSession name tab = (t, released)" by fastforce
    have "map_of (SessionLocks tab) name = Some \<lparr>lock_count =
        (case map_of (SessionLocks (sw_table w)) name of None \<Rightarrow> 0 | Some e \<Rightarrow> lock_count e) + 1\<rparr>"
      (is "_ = Some ?e") using b(1) by simp
    moreover have "lock_count ?e \<noteq> 0" "lock_count ?e = 1 \<longleftrightarrow> map_of (SessionLocks (sw_table w)) name = None"
      using room b(4) by (auto simp: dataStoreLockName_def split: option.splits)
    ultimately have t: "map_of (SessionLocks t) = map_of (SessionLocks (sw_table w))"
      "Sessions t = Sessions (sw_table w)"
      using end_Some [OF e] b(1,2) by (auto simp: fun_eq_iff split: option.splits)
    define D where "D = S\<lparr>Datastore := ds\<rparr>"
    have D: "S3Prefix D = S3Prefix S" "Datastore D = ds" by (simp_all add: S3Prefix_def D_def)
    have "view (snd (Delete c st D)) ds k = None"
      if "fst (Delete c st D) = None" "HasPrefix k (S3Prefix S @ ''/'')"
      using Delete_removes_prefix [OF client, of st D "snd (Delete c st D)" k] that D
      by (cases "Delete c st D") simp
    then show ?thesis using fields Inr served e t
      by (simp add: w' backup_def Let_def flip: D_def)
  qed
qed

text \<open>A session whose client stored one object and went away.\<close>

definition aborted_session :: "mem_store \<Rightarrow> mem_store \<times> bool" where
  "aborted_session st =
     (AList.update (''ds'', S3Prefix sample_snapshot @ ''/drive.fidx'') ([1], mem_info [] [1] []) st, False)"

definition quiet_world :: "(mem_store, nat) session_world" where
  "quiet_world = \<lparr>sw_store = [], sw_tokens = 0, sw_table = \<lparr>SessionLocks = [], Sessions = 0\<rparr>\<rparr>"

theorem backup_session_cleans_up_witness:
  "let w' = backup aborted_session Suc None mem_client ''s3'' ''ds'' sample_snapshot quiet_world
   in mem_view (sw_store w') ''ds'' (S3Prefix sample_snapshot @ ''/drive.fidx'') = None
     \<and> sw_tokens w' = 1 \<and> map_of (SessionLocks (sw_table w')) = Map.empty"
proof -
  define st where "st = fst (aborted_session [])"
  have serve: "aborted_session (sw_store quiet_world) = (st, False)"
    by (simp add: st_def aborted_session_def quiet_world_def)
  have "fst (Delete mem_client st (sample_snapshot\<lparr>Datastore := ''ds''\<rparr>)) = None"
    by (simp add: st_def aborted_session_def Delete_def mem_client_def S3Prefix_def mem_info_def errors_Join_def)
  moreover have "HasPrefix (S3Prefix sample_snapshot @ ''/drive.fidx'') (S3Prefix sample_snapshot @ ''/'')"
    by (simp add: HasPrefix_def)
  moreover have "succeeds (fst (beginDataStoreSession None ''s3'' ''ds'' (sw_table quiet_world)))"
    by (simp add: beginDataStoreSession_def quiet_world_def Let_def)
  ultimately show ?thesis
    using backup_session_cleans_up [where c = mem_client and w = quiet_world and endpoint = "''s3''" and ds = "''ds''"
        and serve = aborted_session and publish = Suc and acquire_err = None and S = sample_snapshot
        and k = "S3Prefix sample_snapshot @ ''/drive.fidx''",
        OF mem_removes_all mem_removes_only mem_lists_all serve _ refl]
    unfolding Let_def by (simp add: quiet_world_def)
qed

end
