(* ===== verification/SessionApi.thy ===== *)
theory SessionApi
  imports IndexWriters BackupSession
begin

text \<open>
  The rest of the HTTP/2 API that \<open>ServeHTTP\<close> (\<open>cmd/pmoxs3backuproxy/main.go\<close>) offers inside a session:
  the end of a backup, the previous backup, blobs, and the downloads of a restore; the dispatch of a
  request to its handler; and the run of a session as the requests its client sends.

  A request on an HTTP/2 session carries no ticket of its own: the server of a session has an empty
  table of tickets, so that the branches that need one are closed to it. Of the others only the one
  that issues tickets is left out here; it is modelled with the tickets.
\<close>

section \<open>Requests\<close>

record http_request =
  rq_method :: string
  rq_uri :: string
  rq_query :: "(string, string) gomap"
  rq_body :: reader
  rq_length :: int

text \<open>What a reply carries: nothing, a writer id, a time, the outcome of an upload, or an object.\<close>

datatype session_data =
    NoData
  | WriterData i32
  | TimeData u64
  | ChunkData ChunkUploadInfo
  | ObjectData int bytes

text \<open>
  The codecs and the outside world of a session: JSON decoding of assignments and of chunk sizes, its
  encoding of chunk sizes, the environment of a close, and how an upload of a chunk ends.
\<close>

record 's session_env =
  se_assignments :: "bytes \<Rightarrow> AssignmentRequest result"
  se_decode_sizes :: "bytes \<Rightarrow> (string, u64) gomap"
  se_encode_sizes :: "(string, u64) gomap \<Rightarrow> bytes"
  se_close :: close_env
  se_upload :: "'s s3_client \<Rightarrow> reader \<Rightarrow> session \<Rightarrow> chunkRequest \<Rightarrow> 's \<Rightarrow> bool result \<times> 's"

section \<open>Handlers\<close>

definition finish_backup :: "session \<Rightarrow> session" where
  "finish_backup s = s\<lparr>Finished := True, Published := Suc (Published s)\<rparr>"

definition previous_backup_time :: "'s s3_client \<Rightarrow> 's \<Rightarrow> session \<Rightarrow> u64 reply" where
  "previous_backup_time c st s =
     (case GetLatestSnapshot c st (SelectedDataStore s) (BackupID (SessionSnapshot s))
             (BackupTime (SessionSnapshot s)) of
        Inl e \<Rightarrow> Err 500 e
      | Inr None \<Rightarrow> Err 404 (Error [])
      | Inr (Some mostRecent) \<Rightarrow> Ok (BackupTime mostRecent))"

text \<open>Sending an object: its stated size and the bytes that can be read of it.\<close>

definition send_object :: "object_handle \<Rightarrow> (int \<times> bytes) reply" where
  "send_object obj =
     (case oh_stat obj of
        Inl e \<Rightarrow> Err 404 e
      | Inr stat \<Rightarrow> Ok (ObjectSize stat, rd_data (oh_body obj)))"

text \<open>The chunk sizes kept beside a dynamic index; every failure to read them is ignored.\<close>

definition load_csjson ::
    "(bytes \<Rightarrow> (string, u64) gomap) \<Rightarrow> 's s3_client \<Rightarrow> 's \<Rightarrow> string \<Rightarrow> session \<Rightarrow> session" where
  "load_csjson json_Unmarshal c st key s =
     (case GetObject c st (SelectedDataStore s) (key @ ''.csjson'') of
        Inl e \<Rightarrow> s
      | Inr obj \<Rightarrow>
          (case oh_stat obj of
             Inl e \<Rightarrow> s
           | Inr _ \<Rightarrow>
               (case io_ReadAll (oh_body obj) of
                  Inl e \<Rightarrow> s
                | Inr data \<Rightarrow>
                    s\<lparr>KnownChunksSizes :=
                        foldl (\<lambda>m (k, v). AList.update k v m) (KnownChunksSizes s) (json_Unmarshal data)\<rparr>)))"

definition previous ::
    "(bytes \<Rightarrow> (string, u64) gomap) \<Rightarrow> 's s3_client \<Rightarrow> (string, string) gomap \<Rightarrow> 's \<Rightarrow> session
      \<Rightarrow> (int \<times> bytes) reply \<times> session" where
  "previous json_Unmarshal c q st s =
     (case GetLatestSnapshot c st (SelectedDataStore s) (BackupID (SessionSnapshot s))
             (BackupTime (SessionSnapshot s)) of
        Inl e \<Rightarrow> (Err 500 e, s)
      | Inr None \<Rightarrow> (Err 404 (Error []), s)
      | Inr (Some mostRecent) \<Rightarrow>
          (case find (\<lambda>f. Filename f = str_at q ''archive-name'') (Files mostRecent) of
             None \<Rightarrow> (Err 404 (Error []), s)
           | Some f \<Rightarrow>
               let key = S3Prefix mostRecent @ ''/'' @ Filename f in
               (case GetObject c st (SelectedDataStore s) key of
                  Inl e \<Rightarrow> (Err 404 e, s)
                | Inr obj \<Rightarrow>
                    (case oh_stat obj of
                       Inl e \<Rightarrow> (Err 404 e, s)
                     | Inr _ \<Rightarrow> (send_object obj, load_csjson json_Unmarshal c st key s)))))"

text \<open>\<open>strconv.Atoi\<close> on a 64-bit machine; its error is ignored.\<close>

definition upload_blob ::
    "'s s3_client \<Rightarrow> (string, string) gomap \<Rightarrow> reader \<Rightarrow> 's \<Rightarrow> session \<Rightarrow> unit reply \<times> 's" where
  "upload_blob c q body st s =
     (case PutObject c st (SelectedDataStore s)
             (S3Prefix (SessionSnapshot s) @ ''/'' @ str_at q ''file-name'') body
             (fst (ParseInt (str_at q ''encoded-size'') 64))
             (putOptions (Backups (StorageClasses s)) []) of
        ((Inl e, _), st') \<Rightarrow> (Err 500 e, st')
      | ((Inr _, _), st') \<Rightarrow> (Ok (), st'))"

definition download_blob ::
    "'s s3_client \<Rightarrow> (string, string) gomap \<Rightarrow> 's \<Rightarrow> session \<Rightarrow> (int \<times> bytes) reply" where
  "download_blob c q st s =
     (let blobname = str_at q ''file-name'' in
      if blobname = [] then Err 400 (Error ''missing file-name'')
      else
        (case GetObject c st (SelectedDataStore s) (S3Prefix (SessionSnapshot s) @ ''/'' @ blobname) of
           Inl e \<Rightarrow> Err 404 e
         | Inr obj \<Rightarrow> send_object obj))"

definition download_chunk ::
    "'s s3_client \<Rightarrow> (string, string) gomap \<Rightarrow> 's \<Rightarrow> session \<Rightarrow> (int \<times> bytes) reply" where
  "download_chunk c q st s =
     (case chunkObjectName (str_at q ''digest'') of
        Inl e \<Rightarrow> Err 400 e
      | Inr s3name \<Rightarrow>
          (case GetObject c st (SelectedDataStore s) s3name of
             Inl e \<Rightarrow> Err 404 e
           | Inr obj \<Rightarrow> send_object obj))"

section \<open>Dispatch\<close>

primrec object_reply :: "(int \<times> bytes) reply \<Rightarrow> session_data reply" where
  "object_reply (Ok x) = Ok (ObjectData (fst x) (snd x))"
| "object_reply (Err n e) = Err n e"

definition plain :: "'a \<Rightarrow> 's \<Rightarrow> session \<Rightarrow> ('a outcome \<times> 's \<times> session) option" where
  "plain r st s = Some (Returns r, st, s)"

text \<open>
  The branches of \<open>ServeHTTP\<close> for a session, in its order. No two of their conditions hold at once. The
  value None is a handler that never returns.
\<close>

definition session_handle ::
    "'s session_env \<Rightarrow> 's s3_client \<Rightarrow> http_request \<Rightarrow> 's \<Rightarrow> session
      \<Rightarrow> (session_data reply outcome \<times> 's \<times> session) option" where
  "session_handle env c rq st s =
     (let q = rq_query rq; uri = HasPrefix (rq_uri rq); meth = (\<lambda>m. rq_method rq = m);
          none = map_reply (\<lambda>_. NoData); none' = map_outcome (map_reply (\<lambda>_. NoData))
      in
      if uri ''/finish'' \<and> meth ''POST'' then plain (Ok NoData) st (finish_backup s)
      else if uri ''/previous_backup_time'' \<and> meth ''GET''
      then plain (map_reply TimeData (previous_backup_time c st s)) st s
      else if uri ''/previous?'' \<and> meth ''GET''
      then (case previous (se_decode_sizes env) c q st s of (r, s') \<Rightarrow> plain (object_reply r) st s')
      else if uri ''/fixed_index?'' \<and> meth ''POST''
      then (case fixed_index_post q s of (r, s') \<Rightarrow> plain (map_reply WriterData r) st s')
      else if uri ''/dynamic_index?'' \<and> meth ''POST''
      then (case dynamic_index_post q s of (r, s') \<Rightarrow> plain (map_reply WriterData r) st s')
      else if uri ''/fixed_close?'' \<and> meth ''POST''
      then map_option (\<lambda>(r, st', s'). (none' r, st', s')) (fixed_close (se_close env) c q st s)
      else if uri ''/dynamic_close?'' \<and> meth ''POST''
      then (case dynamic_close (se_encode_sizes env) (se_close env) c q st s of
              (r, st', s') \<Rightarrow> Some (none' r, st', s'))
      else if uri ''/dynamic_index'' \<and> meth ''PUT''
      then (case dynamic_index_put (se_assignments env) (rq_body rq) s of (r, s') \<Rightarrow> Some (none' r, st, s'))
      else if uri ''/fixed_index'' \<and> meth ''PUT''
      then (case fixed_index_put (se_assignments env) (rq_body rq) s of (r, s') \<Rightarrow> Some (none' r, st, s'))
      else if uri ''/fixed_chunk?'' \<or> uri ''/dynamic_chunk?''
      then (case chunk_upload (se_upload env c (rq_body rq) s) (uri ''/dynamic_chunk?'') q (rq_length rq) st s of
              (r, st', s') \<Rightarrow> plain (map_reply ChunkData r) st' s')
      else if uri ''/blob?''
      then (case upload_blob c q (rq_body rq) st s of (r, st') \<Rightarrow> plain (none r) st' s)
      else if uri ''/speedtest'' then plain (Ok NoData) st s
      else if uri ''/download?'' then plain (object_reply (download_blob c q st s)) st s
      else if uri ''/chunk?'' then plain (object_reply (download_chunk c q st s)) st s
      else plain (Ok NoData) st s)"

text \<open>
  A session as the requests of its client. A request that never returns leaves the store alone; what
  it changed in its own writer is not followed.
\<close>

fun serve_requests ::
    "'s session_env \<Rightarrow> 's s3_client \<Rightarrow> http_request list \<Rightarrow> 's \<times> session \<Rightarrow> 's \<times> session" where
  "serve_requests env c [] x = x"
| "serve_requests env c (rq # rqs) (st, s) =
     serve_requests env c rqs
       (case session_handle env c rq st s of None \<Rightarrow> (st, s) | Some (_, st', s') \<Rightarrow> (st', s'))"

text \<open>The server of a new session, as \<open>backup\<close> and \<open>restore\<close> build it: no storage classes are set.\<close>

definition new_session :: "string \<Rightarrow> Snapshot \<Rightarrow> session" where
  "new_session ds S =
     \<lparr>SelectedDataStore = ds, SessionSnapshot = S, Writers = [], CurWriter = 0, Finished = False, Published = 0,
      KnownChunksSizes = [], StorageClasses = \<lparr>Chunks = [], Backups = [], Indexed = []\<rparr>\<rparr>"

definition serve_session ::
    "'s session_env \<Rightarrow> 's s3_client \<Rightarrow> http_request list \<Rightarrow> string \<Rightarrow> Snapshot \<Rightarrow> 's \<Rightarrow> 's \<times> bool" where
  "serve_session env c rqs ds S st =
     (case serve_requests env c rqs (st, new_session ds S) of (st', s') \<Rightarrow> (st', Finished s'))"

section \<open>Lemmas: what a request leaves alone\<close>

text \<open>The keys a session may write in its datastore.\<close>

definition snapshot_area :: "session \<Rightarrow> string \<Rightarrow> bool" where
  "snapshot_area s k \<longleftrightarrow> HasPrefix k (S3Prefix (SessionSnapshot s) @ ''/'') \<or> HasPrefix k ''indexed/''"

definition session_area :: "session \<Rightarrow> string \<Rightarrow> bool" where
  "session_area s k \<longleftrightarrow> snapshot_area s k \<or> HasPrefix k ''chunks/''"

text \<open>An upload is led by this request or by another one, in which case this one stores nothing.\<close>

definition uploads_as_group :: "'s session_env \<Rightarrow> bool" where
  "uploads_as_group env \<longleftrightarrow>
     (\<forall>c body s rq st. se_upload env c body s rq st = leader_upload c body s rq st
        \<or> snd (se_upload env c body s rq st) = st)"

definition same_settings :: "session \<Rightarrow> session \<Rightarrow> bool" where
  "same_settings s s' \<longleftrightarrow> SelectedDataStore s' = SelectedDataStore s \<and> SessionSnapshot s' = SessionSnapshot s
     \<and> StorageClasses s' = StorageClasses s"

named_theorems settings \<open>handlers keep the settings of the session\<close>

lemma same_settings_refl [settings, simp]: "same_settings s s"
  by (simp add: same_settings_def)

lemma same_settings_updates [settings, simp]:
  "same_settings s (set_writer wid w s)" "same_settings s (finish_backup s)"
  "same_settings s (load_csjson json c st key s)"
  by (auto simp: same_settings_def finish_backup_def load_csjson_def split: sum.splits)

lemma same_settings_new_writer [settings]: "same_settings s (snd (new_writer w s))"
  by (simp add: same_settings_def new_writer_def Let_def)

lemma same_settings_post [settings]:
  "same_settings s (snd (fixed_index_post q s))" "same_settings s (snd (dynamic_index_post q s))"
  by (simp_all add: fixed_index_post_def dynamic_index_post_def settings)

lemma same_settings_assign [settings]: "same_settings s (snd (assign_digests req s))"
  by (auto simp: assign_digests_def split: option.split prod.split outcome.split)

lemma same_settings_put [settings]:
  "same_settings s (snd (dynamic_index_put json body s))" "same_settings s (snd (fixed_index_put json body s))"
  by (simp_all add: dynamic_index_put_def fixed_index_put_def settings split: sum.split option.split)

lemma same_settings_previous [settings]: "same_settings s (snd (previous json c q st s))"
  by (simp add: previous_def Let_def split: sum.split option.split)

lemma same_settings_chunk [settings]: "same_settings s (snd (snd (chunk_upload u d q n st s)))"
  by (auto simp: chunk_upload_def Let_def split: sum.split option.split prod.split)

lemma same_settings_close [settings]:
  "fixed_close e c q st s = Some (r, st', s') \<Longrightarrow> same_settings s s'"
  "same_settings s (snd (snd (dynamic_close json e c q st s)))"
  by (auto simp: fixed_close_def dynamic_close_def Let_def
      split: sum.splits option.splits prod.splits outcome.splits loop_end.splits if_splits)

lemma session_area_same: "same_settings s s' \<Longrightarrow> session_area s' k = session_area s k"
  by (simp add: same_settings_def session_area_def snapshot_area_def)

named_theorems untouched \<open>handlers write inside the area of the session only\<close>

lemma HasPrefix_dir: "HasPrefix (p @ CHR ''/'' # name) (p @ ''/'')"
  using HasPrefix_append [of "p @ ''/''" name] by simp

lemma area_key: "snapshot_area s (S3Prefix (SessionSnapshot s) @ CHR ''/'' # name)"
  unfolding snapshot_area_def using HasPrefix_dir by blast

lemma chunk_upload_untouched [untouched]:
  assumes "puts_only c view" "uploads_as_group env" "b \<noteq> SelectedDataStore s \<or> \<not> session_area s k"
  shows "view (fst (snd (chunk_upload (se_upload env c body s) dynamic q n st s))) b k = view st b k"
proof -
  have up: "view (snd (se_upload env c body s request st)) b k = view st b k"
    if parsed: "parseChunkRequest q n = Inr request" for request
  proof -
    obtain d where "chunkObjectName d = Inr (ObjectName request)"
      using parsed by (auto simp: parseChunkRequest_def split: sum.splits prod.splits if_splits)
    then have "HasPrefix (ObjectName request) ''chunks/''"
      by (auto elim!: chunkObjectName_Inr simp: HasPrefix_def)
    then have "b \<noteq> SelectedDataStore s \<or> k \<noteq> ObjectName request"
      using assms(3) unfolding session_area_def by blast
    from storeChunk_only [OF assms(1) this] show ?thesis
      using assms(2) [unfolded uploads_as_group_def, rule_format, of c body s request st]
      by (auto simp: leader_upload_def)
  qed
  show ?thesis
  proof (cases "parseChunkRequest q n")
    case (Inr request)
    obtain r st' where run: "se_upload env c body s request st = (r, st')" by fastforce
    with up [OF Inr] have "view st' b k = view st b k" by simp
    with Inr run show ?thesis
      by (simp add: chunk_upload_def Let_def split: option.split sum.split)
  qed (simp add: chunk_upload_def)
qed

lemma upload_blob_untouched [untouched]:
  assumes "puts_only c view" "b \<noteq> SelectedDataStore s \<or> \<not> snapshot_area s k"
  shows "view (snd (upload_blob c q body st s)) b k = view st b k"
proof -
  have "b \<noteq> SelectedDataStore s \<or> k \<noteq> S3Prefix (SessionSnapshot s) @ ''/'' @ str_at q ''file-name''"
    using assms(2) area_key by auto
  note only = puts_onlyD [OF assms(1) _ this]
  show ?thesis
    unfolding upload_blob_def by (auto split: sum.split prod.split intro: only)
qed

lemma fixed_close_untouched [untouched]:
  assumes laws: "puts_stored c view" "puts_only c view" "copies c view"
    and out: "b \<noteq> SelectedDataStore s \<or> \<not> snapshot_area s k"
    and run: "fixed_close e c q st s = Some (r, st', s')"
  shows "view st' b k = view st b k"
proof -
  have "view t b k = view st b k" if "store_fixed c csum data w st s = (reply, t)" for reply csum data w t
  proof -
    let ?key = "S3Prefix (SessionSnapshot s) @ ''/'' @ FidxName w"
    have "b \<noteq> SelectedDataStore s \<or> k \<noteq> ?key \<and> k \<noteq> ''indexed/'' @ csum @ ''.fidx''"
      using out area_key by (auto simp: snapshot_area_def HasPrefix_def)
    from store_fixed_view(2) [OF laws that refl this] show ?thesis .
  qed
  then show ?thesis
    using run unfolding fixed_close_def Let_def
    by (auto split: option.splits sum.splits prod.splits if_splits loop_end.splits)
qed

lemma dynamic_close_untouched [untouched]:
  assumes laws: "puts_stored c view" "puts_only c view"
    and out: "b \<noteq> SelectedDataStore s \<or> \<not> snapshot_area s k"
  shows "view (fst (snd (dynamic_close json e c q st s))) b k = view st b k"
proof -
  have "view t b k = view st b k" if "store_dynamic c csum data sizes w st s = (reply, t)" for reply csum data sizes w t
  proof -
    let ?key = "S3Prefix (SessionSnapshot s) @ ''/'' @ FidxName w"
    have "b \<noteq> SelectedDataStore s \<or> k \<noteq> ?key \<and> k \<noteq> ?key @ ''.csjson''"
      using out area_key [of s "FidxName w"] area_key [of s "FidxName w @ ''.csjson''"] by auto
    from store_dynamic_view(2) [OF laws that refl this] show ?thesis .
  qed
  then show ?thesis
    unfolding dynamic_close_def Let_def
    by (auto split: option.splits prod.splits outcome.splits)
qed

text \<open>The outcome of a request, if there is one, leaves the store and the session as stated.\<close>

definition lands :: "('s \<Rightarrow> session \<Rightarrow> bool) \<Rightarrow> ('a outcome \<times> 's \<times> session) option \<Rightarrow> bool" where
  "lands P res \<longleftrightarrow> (\<forall>r st' s'. res = Some (r, st', s') \<longrightarrow> P st' s')"

lemma lands_if: "lands P x \<Longrightarrow> lands P y \<Longrightarrow> lands P (if b then x else y)"
  by simp

lemma lands_plain: "P st' s' \<Longrightarrow> lands P (plain r st' s')"
  by (simp add: lands_def plain_def)

lemma lands_pairs:
  "P st (snd x) \<Longrightarrow> lands P (case x of (r, s') \<Rightarrow> plain (f r) st s')"
  "P st (snd x) \<Longrightarrow> lands P (case x of (r, s') \<Rightarrow> Some (g r, st, s'))"
  "P (snd y) s \<Longrightarrow> lands P (case y of (r, st') \<Rightarrow> plain (h r) st' s)"
  "P (fst (snd z)) (snd (snd z)) \<Longrightarrow> lands P (case z of (r, st', s') \<Rightarrow> plain (i r) st' s')"
  "P (fst (snd z)) (snd (snd z)) \<Longrightarrow> lands P (case z of (r, st', s') \<Rightarrow> Some (j r, st', s'))"
  by (auto simp: lands_def plain_def split: prod.splits)

lemma lands_fixed_close:
  "(\<And>r st' s'. fixed_close e c q st s = Some (r, st', s') \<Longrightarrow> P st' s') \<Longrightarrow>
   lands P (map_option (\<lambda>(r, st', s'). (f r, st', s')) (fixed_close e c q st s))"
  by (auto simp: lands_def)

lemmas lands_rules = lands_if lands_plain lands_pairs lands_fixed_close

lemma session_handle_lands:
  assumes laws: "puts_stored c view" "puts_only c view" "copies c view"
    and out: "b \<noteq> SelectedDataStore s \<or> \<not> snapshot_area s k"
    and chunks: "\<And>body dynamic q n. view (fst (snd (chunk_upload (se_upload env c body s) dynamic q n st s))) b k = view st b k"
    and run: "session_handle env c rq st s = Some (r, st', s')"
  shows "same_settings s s' \<and> view st' b k = view st b k"
proof -
  have "lands (\<lambda>st' s'. same_settings s s' \<and> view st' b k = view st b k) (session_handle env c rq st s)"
    unfolding session_handle_def Let_def
    by (intro lands_rules conjI settings refl chunks
        upload_blob_untouched [OF laws(2) out] dynamic_close_untouched [OF laws(1,2) out])
      (auto intro: settings fixed_close_untouched [OF laws(1-3) out])
  with run show ?thesis by (simp add: lands_def)
qed

lemma session_handle_keeps:
  assumes laws: "puts_stored c view" "puts_only c view" "copies c view" "uploads_as_group env"
    and out: "b \<noteq> SelectedDataStore s \<or> \<not> session_area s k"
    and run: "session_handle env c rq st s = Some (r, st', s')"
  shows "same_settings s s' \<and> view st' b k = view st b k"
  using out by (intro session_handle_lands [OF laws(1-3) _ chunk_upload_untouched [OF laws(2,4) out] run])
    (simp add: session_area_def)

text \<open>A stored chunk stays as it is, also when it is uploaded again.\<close>

lemma chunk_upload_keeps_stored:
  assumes "puts_only c view" "finds_stored c view" "uploads_as_group env" "view st b k \<noteq> None"
  shows "view (fst (snd (chunk_upload (se_upload env c body s) dynamic q n st s))) b k = view st b k"
proof -
  have up: "view (snd (se_upload env c body s request st)) b k = view st b k" for request
  proof (cases "b = SelectedDataStore s \<and> k = ObjectName request")
    case True
    with storeChunk_known [OF assms(2)] assms(4) show ?thesis
      using assms(3) [unfolded uploads_as_group_def, rule_format, of c body s request st]
      by (auto simp: leader_upload_def)
  next
    case False
    then have "b \<noteq> SelectedDataStore s \<or> k \<noteq> ObjectName request" by blast
    from storeChunk_only [OF assms(1) this] show ?thesis
      using assms(3) [unfolded uploads_as_group_def, rule_format, of c body s request st]
      by (auto simp: leader_upload_def)
  qed
  have "view st' b k = view st b k" if "se_upload env c body s request st = (r, st')" for request r st'
    using up [of request] that by simp
  then show ?thesis
    by (simp add: chunk_upload_def Let_def split: option.split sum.split prod.split)
qed

lemma session_handle_keeps_chunk:
  assumes laws: "puts_stored c view" "puts_only c view" "copies c view" "finds_stored c view" "uploads_as_group env"
    and k: "HasPrefix k ''chunks/''" "view st b k \<noteq> None"
    and run: "session_handle env c rq st s = Some (r, st', s')"
  shows "view st' b k = view st b k"
proof -
  obtain k' where "k = ''chunks/'' @ k'" using k(1) by (auto simp: HasPrefix_iff)
  then have "\<not> snapshot_area s k" by (simp add: snapshot_area_def S3Prefix_def HasPrefix_def)
  then show ?thesis
    using session_handle_lands [OF laws(1-3) _ chunk_upload_keeps_stored [OF laws(2,4,5) k(2)] run] by blast
qed

lemma serve_requests_keeps:
  assumes laws: "puts_stored c view" "puts_only c view" "copies c view" "uploads_as_group env"
    and out: "b \<noteq> SelectedDataStore s \<or> \<not> session_area s k"
    and run: "serve_requests env c rqs (st, s) = (st', s')"
  shows "same_settings s s' \<and> view st' b k = view st b k"
  using out run
proof (induction rqs arbitrary: st s)
  case (Cons rq rqs)
  obtain st1 s1 where one: "(case session_handle env c rq st s of None \<Rightarrow> (st, s) | Some (_, st', s') \<Rightarrow> (st', s')) = (st1, s1)"
    by fastforce
  then have step: "same_settings s s1 \<and> view st1 b k = view st b k"
    using session_handle_keeps [OF laws Cons.prems(1), of rq st]
    by (cases "session_handle env c rq st s") auto
  moreover have "b \<noteq> SelectedDataStore s1 \<or> \<not> session_area s1 k"
    using Cons.prems(1) step session_area_same [of s s1 k] by (simp add: same_settings_def)
  ultimately show ?case
    using Cons.IH [of s1 st1] Cons.prems(2) one by (simp add: same_settings_def)
qed simp

section \<open>Lemmas: the shape of a session\<close>

text \<open>
  Every map has one entry per key, and the writers have the numbers handed out so far. The number of
  writers opened is counted, as the number of a writer is 32 bits wide.
\<close>

definition writer_wf :: "Writer \<Rightarrow> bool" where
  "writer_wf w \<longleftrightarrow> distinct (map fst (Assignments w)) \<and> distinct (map fst (DynamicChunkSizes w))"

definition session_wf :: "nat \<Rightarrow> session \<Rightarrow> bool" where
  "session_wf n s \<longleftrightarrow> distinct (map fst (Writers s)) \<and> distinct (map fst (KnownChunksSizes s))
     \<and> unat (CurWriter s) \<le> n
     \<and> (\<forall>(wid, w) \<in> set (Writers s). writer_wf w \<and> unat wid \<le> unat (CurWriter s))"

lemma session_wf_writer:
  "session_wf n s \<Longrightarrow> map_of (Writers s) wid = Some w \<Longrightarrow> writer_wf w \<and> unat wid \<le> unat (CurWriter s)"
  by (auto simp: session_wf_def dest!: map_of_SomeD)

lemma set_writer_wf:
  assumes "session_wf n s" "writer_wf w" "unat wid \<le> unat (CurWriter s)"
  shows "session_wf n (set_writer wid w s)"
  using assms by (auto simp: session_wf_def set_writer_def distinct_keys_update set_AList_update)

lemma new_writer_wf:
  assumes "session_wf n s" "writer_wf w" "Suc n < 2 ^ 32"
  shows "session_wf (Suc n) (snd (new_writer w s))" "map_of (Writers s) (CurWriter s + 1) = None"
proof -
  have "unat (CurWriter s) \<le> n" using assms(1) by (simp add: session_wf_def)
  then have "unat (CurWriter s) + 1 < 2 ^ 32" using assms(3) by simp
  then have nxt: "unat (CurWriter s + 1) = unat (CurWriter s) + 1"
    by (simp add: unat_word_ariths)
  then show "map_of (Writers s) (CurWriter s + 1) = None"
    using assms(1) by (fastforce simp: session_wf_def map_of_eq_None_iff)
  have "session_wf (Suc n) (s\<lparr>CurWriter := CurWriter s + 1\<rparr>)"
    using assms(1) nxt by (fastforce simp: session_wf_def)
  then show "session_wf (Suc n) (snd (new_writer w s))"
    using assms(2) by (simp add: new_writer_def Let_def set_writer_wf)
qed

lemma assign_loop_wf: "writer_wf w \<Longrightarrow> writer_wf (snd (assign_loop ds offs good w))"
  by (induction ds offs good w rule: assign_loop.induct)
    (auto simp: writer_wf_def distinct_keys_update split: prod.split)

lemma foldl_update_distinct:
  "distinct (map fst m) \<Longrightarrow> distinct (map fst (foldl (\<lambda>m (k, v). AList.update k v m) m xs))"
  by (induction xs arbitrary: m) (auto simp: distinct_keys_update)

lemma load_known_wf: "writer_wf w \<Longrightarrow> writer_wf (load_known m w)"
  by (simp add: writer_wf_def load_known_def foldl_update_distinct)

named_theorems shape \<open>handlers keep the shape of the session\<close>

lemma session_wf_mono: "session_wf n s \<Longrightarrow> n \<le> m \<Longrightarrow> session_wf m s"
  by (auto simp: session_wf_def)

lemma post_wf:
  assumes "session_wf n s" "Suc n < 2 ^ 32"
  shows "session_wf (Suc n) (snd (fixed_index_post q s))" "session_wf (Suc n) (snd (dynamic_index_post q s))"
  using new_writer_wf(1) [OF assms(1) _ assms(2)]
  by (simp_all add: fixed_index_post_def dynamic_index_post_def zero_writer_def writer_wf_def)

lemma assign_wf [shape]: "session_wf n s \<Longrightarrow> session_wf n (snd (assign_digests req s))"
  using assign_loop_wf
  by (auto simp: assign_digests_def split: option.split prod.split outcome.split
      intro!: set_writer_wf dest: session_wf_writer) (metis snd_conv session_wf_writer)+

lemma put_wf [shape]:
  assumes "session_wf n s"
  shows "session_wf n (snd (dynamic_index_put json body s))" "session_wf n (snd (fixed_index_put json body s))"
  using assms by (simp_all add: dynamic_index_put_def fixed_index_put_def shape split: sum.split option.split)

lemma chunk_wf [shape]:
  assumes "session_wf n s"
  shows "session_wf n (snd (snd (chunk_upload u d q m st s)))"
  using assms
  by (auto simp: chunk_upload_def Let_def writer_wf_def distinct_keys_update
      split: sum.split option.split prod.split intro!: set_writer_wf dest!: session_wf_writer [OF assms])

lemma previous_wf [shape]: "session_wf n s \<Longrightarrow> session_wf n (snd (previous json c q st s))"
  by (simp add: previous_def load_csjson_def session_wf_def foldl_update_distinct Let_def
      split: sum.split option.split)

lemma finish_wf [shape]: "session_wf n s \<Longrightarrow> session_wf n (finish_backup s)"
  by (simp add: finish_backup_def session_wf_def)

lemma fixed_open_wf:
  "writer_wf w \<Longrightarrow> fixed_open e c st ds w = Inr (out, n, w') \<Longrightarrow> writer_wf w'"
  "writer_wf w \<Longrightarrow> fixed_open e c st ds w = Inl (r, w') \<Longrightarrow> writer_wf w'"
  by (auto simp: fixed_open_def writer_wf_def Let_def split: if_splits sum.splits)

lemma fixed_close_wf:
  assumes wf: "session_wf n s" and run: "fixed_close e c q st s = Some (r, st', s')"
  shows "session_wf n s'"
proof -
  let ?wid = "word_of_int (fst (ParseInt (str_at q ''wid'') 32))"
  have "session_wf n (set_writer ?wid w' s)"
    if "map_of (Writers s) ?wid = Some w" "fixed_open e c st (SelectedDataStore s) w \<in> {Inr (out, m, w'), Inl (a, w')}"
    for w w' out m a
    using session_wf_writer [OF wf that(1)] that(2) by (intro set_writer_wf wf) (auto dest: fixed_open_wf)
  then show ?thesis
    using run wf unfolding fixed_close_def Let_def
    by (auto split: option.splits sum.splits prod.splits if_splits loop_end.splits)
qed

lemma dynamic_close_wf [shape]: "session_wf n s \<Longrightarrow> session_wf n (snd (snd (dynamic_close json e c q st s)))"
  by (auto simp: dynamic_close_def Let_def load_known_wf split: option.split prod.split outcome.split
      intro!: set_writer_wf dest: session_wf_writer)

lemma session_handle_wf:
  assumes wf: "session_wf n s" and room: "Suc n < 2 ^ 32" and run: "session_handle env c rq st s = Some (r, st', s')"
  shows "session_wf (Suc n) s'"
proof -
  have wf': "session_wf (Suc n) s" using wf by (rule session_wf_mono) simp
  have "lands (\<lambda>st' s'. session_wf (Suc n) s') (session_handle env c rq st s)"
    unfolding session_handle_def Let_def
    by (intro lands_rules shape wf' post_wf [OF wf room]) (rule fixed_close_wf [OF wf'])
  with run show ?thesis by (simp add: lands_def)
qed

lemma serve_requests_wf:
  "session_wf n s \<Longrightarrow> n + length rqs < 2 ^ 32 \<Longrightarrow>
   session_wf (n + length rqs) (snd (serve_requests env c rqs (st, s)))"
proof (induction rqs arbitrary: n st s)
  case (Cons rq rqs)
  obtain st1 s1 where one: "(case session_handle env c rq st s of None \<Rightarrow> (st, s) | Some (_, st', s') \<Rightarrow> (st', s')) = (st1, s1)"
    by fastforce
  have "session_wf (Suc n) s1"
    using one session_handle_wf [OF Cons.prems(1), of env c rq st] Cons.prems(2) session_wf_mono [OF Cons.prems(1)]
    by (cases "session_handle env c rq st s") auto
  from Cons.IH [OF this, of st1] Cons.prems(2) show ?case by (simp add: one)
qed simp

lemma new_session_wf: "session_wf 0 (new_session ds S)"
  by (simp add: session_wf_def new_session_def)

section \<open>Properties\<close>

text \<open>
  A session writes in its own place only. Whatever requests a client sends, in whatever order, and
  however the handlers end, every object outside the datastore of the session, and in it every
  object that is neither of the snapshot of the session nor a chunk nor a reusable index, is as it
  was before the session; so no request can change another snapshot.
\<close>

theorem session_writes_in_place:
  assumes laws: "puts_stored c view" "puts_only c view" "copies c view" "uploads_as_group env"
    and run: "serve_session env c rqs ds S st = (st', finished)"
    and outside: "b \<noteq> ds \<or> \<not> (HasPrefix k (S3Prefix S @ ''/'') \<or> HasPrefix k ''indexed/'' \<or> HasPrefix k ''chunks/'')"
  shows "view st' b k = view st b k"
proof -
  obtain s' where "serve_requests env c rqs (st, new_session ds S) = (st', s')"
    using run by (auto simp: serve_session_def split: prod.splits)
  from serve_requests_keeps [OF laws _ this] outside show ?thesis
    by (auto simp: new_session_def session_area_def snapshot_area_def)
qed

definition sample_env_api :: "mem_store session_env" where
  "sample_env_api =
     \<lparr>se_assignments = (\<lambda>_. Inl (Error ''no JSON'')), se_decode_sizes = (\<lambda>_. []), se_encode_sizes = (\<lambda>_. []),
      se_close = sample_env, se_upload = leader_upload\<rparr>"

definition blob_request :: http_request where
  "blob_request = \<lparr>rq_method = ''POST'', rq_uri = ''/blob?file-name=a.blob'',
     rq_query = [(''file-name'', ''a.blob''), (''encoded-size'', ''2'')], rq_body = bytes_NewReader [7, 8],
     rq_length = 2\<rparr>"

theorem session_writes_in_place_witness:
  "let st = [((''ds'', ''backups/101|5|vm/a.fidx''), ([1], mem_info [] [] []))]
   in mem_view (fst (serve_session sample_env_api mem_client [blob_request] ''ds'' sample_snapshot st)) ''ds''
        ''backups/101|5|vm/a.fidx'' = Some [1]"
proof -
  let ?st = "[((''ds'', ''backups/101|5|vm/a.fidx''), ([1 :: byte], mem_info [] [] []))]"
  have "uploads_as_group sample_env_api" by (simp add: uploads_as_group_def sample_env_api_def)
  moreover have "\<not> HasPrefix ''backups/101|5|vm/a.fidx'' (S3Prefix sample_snapshot @ ''/'')"
    by (simp add: HasPrefix_def S3Prefix_def sample_snapshot_def zero_snapshot_def)
  ultimately show ?thesis
    using session_writes_in_place [OF mem_puts_stored mem_puts_only mem_copies, of sample_env_api "[blob_request]" "''ds''"
        sample_snapshot ?st _ _ "''ds''" "''backups/101|5|vm/a.fidx''"]
    by (simp add: HasPrefix_def mem_view_def Let_def prod_eq_iff)
qed

text \<open>
  C33: The state of a session stays well formed. After any requests, fewer than \<open>2^32\<close> of them, no
  map of the session has two entries for a key, the numbers of its writers are among those handed
  out, and the next writer to be opened gets a number that no writer has, so that it replaces none.
\<close>

theorem session_stays_well_formed:
  assumes "Suc (length rqs) < 2 ^ 32" and "serve_requests env c rqs (st, new_session ds S) = (st', s')"
  shows "session_wf (length rqs) s' \<and> map_of (Writers s') (CurWriter s' + 1) = None
    \<and> (\<exists>wid. fst (fixed_index_post q s') = Ok wid \<and> map_of (Writers s') wid = None
         \<and> (\<forall>other. other \<noteq> wid \<longrightarrow>
              map_of (Writers (snd (fixed_index_post q s'))) other = map_of (Writers s') other))"
proof -
  have wf: "session_wf (length rqs) s'"
    using serve_requests_wf [OF new_session_wf, of rqs env c st ds S] assms by simp
  have "writer_wf zero_writer" by (simp add: writer_wf_def zero_writer_def)
  from new_writer_wf(2) [OF wf this assms(1)] wf show ?thesis
    by (simp add: fixed_index_post_def new_writer_def Let_def)
qed

theorem session_stays_well_formed_witness:
  "session_wf 1 (snd (serve_requests sample_env_api mem_client [blob_request] ([], new_session ''ds'' sample_snapshot)))"
  using session_stays_well_formed [of "[blob_request]", OF _ prod.collapse [symmetric], of sample_env_api mem_client
      "[]" "''ds''" sample_snapshot] by simp

text \<open>
  Reading an object that is stored: what arrives is the beginning of its bytes, and the size that is
  stated is that of the whole object.
\<close>

definition reads_stored :: "'s s3_client \<Rightarrow> 's view \<Rightarrow> 's \<Rightarrow> string \<Rightarrow> string \<Rightarrow> bool" where
  "reads_stored c view st b k \<longleftrightarrow>
     (\<forall>obj stat. GetObject c st b k = Inr obj \<longrightarrow> oh_stat obj = Inr stat \<longrightarrow>
        (\<exists>d rest. view st b k = Some d \<and> d = rd_data (oh_body obj) @ rest \<and> ObjectSize stat = int (length d)))"

text \<open>A download of a stored chunk.\<close>

lemma download_stored:
  assumes "chunkObjectName d = Inr name" "view st b name = Some v" "reads_stored c view st b name"
    and "SelectedDataStore s = b" "str_at q ''digest'' = d" "download_chunk c q st s = Ok (announced, received)"
  shows "announced = int (length v) \<and> (int (length received) = announced \<longrightarrow> received = v)"
proof -
  obtain h stat where "GetObject c st b name = Inr h" "oh_stat h = Inr stat"
    "announced = ObjectSize stat" "received = rd_data (oh_body h)"
    using assms by (auto simp: download_chunk_def send_object_def split: sum.splits)
  then obtain rest where "v = received @ rest" "announced = int (length v)"
    using assms(2,3) unfolding reads_stored_def by fastforce
  then show ?thesis by simp
qed

text \<open>
  C10: A restore gets back the chunk a backup uploaded. If the upload of a chunk was acknowledged as new,
  and the object is still as the upload left it when a restore session of the datastore asks for
  that digest, then an answer announces the length of the uploaded body, and if as many bytes
  arrive as are announced they are that body.
\<close>

theorem upload_restore_roundtrip:
  assumes laws: "puts_stored c view" "puts_only c view" "stats_stored c view"
    and up: "chunk_upload (leader_upload c body s) dynamic q contentLength st s = (Ok info, st1, s1)" "\<not> InfoKnown info"
    and name: "chunkObjectName (str_at q ''digest'') = Inr name"
    and later: "view st2 (SelectedDataStore s) name = view st1 (SelectedDataStore s) name"
      "reads_stored c view st2 (SelectedDataStore s) name"
    and down: "download_chunk c q2 st2 s2 = Ok (announced, received)" "SelectedDataStore s2 = SelectedDataStore s"
      "str_at q2 ''digest'' = str_at q ''digest''"
  shows "announced = int (length (rd_data body)) \<and> (int (length received) = announced \<longrightarrow> received = rd_data body)"
proof -
  obtain request where parsed: "parseChunkRequest q contentLength = Inr request"
    and store: "storeChunk c st (SelectedDataStore s) request body (Chunks (StorageClasses s)) = (Inr False, st1)"
    using up by (auto simp: chunk_upload_def leader_upload_def Let_def split: sum.splits option.splits prod.splits)
  have pos: "0 < EncodedSize request" and obj: "ObjectName request = name"
    using parsed name by (auto simp: parseChunkRequest_def split: sum.splits prod.splits if_splits)
  have stored: "view st1 (SelectedDataStore s) name = Some (rd_data body)"
    using storeBufferedChunk_correct(1) [OF laws _ pos, of st _ body _ _ st1 False]
      storeStreamedChunk_correct(1) [OF laws _ pos, of st _ body _ _ st1 False] store obj
    by (auto simp: storeChunk_def split: if_splits)
  have "view st2 (SelectedDataStore s) name = Some (rd_data body)" using stored later(1) by simp
  from download_stored [OF name this later(2) down(2,3,1)] show ?thesis .
qed

text \<open>A chunk of three bytes, uploaded and downloaded again.\<close>

definition chunk_query :: "(string, string) gomap" where
  "chunk_query = [(''digest'', sample_digest 1), (''encoded-size'', ''3''), (''size'', ''3''), (''wid'', ''1'')]"

definition chunk_name :: string where
  "chunk_name = ''chunks/'' @ slice 0 2 (sample_digest 1) @ ''/'' @ slice 2 4 (sample_digest 1)
     @ ''/'' @ drop 4 (sample_digest 1)"

definition chunk_store :: mem_store where
  "chunk_store = [((''ds'', chunk_name), ([1, 2, 3], mem_info chunk_name [1, 2, 3] []))]"

lemma chunk_query_name: "chunkObjectName (str_at chunk_query ''digest'') = Inr chunk_name"
  by (simp add: chunk_query_def str_at_Cons chunkObjectName_def sample_digest_def chunk_name_def)

lemma chunk_query_parsed:
  "parseChunkRequest chunk_query 3 = Inr \<lparr>Digest = sample_digest 1, EncodedSize = 3, RequestSize = 3, WriterID = 1,
     ObjectName = chunk_name\<rparr>"
  using chunk_query_name
  by (simp add: parseChunkRequest_def chunk_query_def str_at_Cons ParseInt_def ParseUint64_def ParseUint_def
      digit_val_def)

lemma chunk_stored:
  "storeChunk mem_client [] ''ds'' \<lparr>Digest = sample_digest 1, EncodedSize = 3, RequestSize = 3, WriterID = 1,
     ObjectName = chunk_name\<rparr> (bytes_NewReader [1, 2, 3]) [] = (Inr False, chunk_store)"
  by (simp add: storeChunk_def maxBufferedChunkBytes_def storeBufferedChunk_def io_ReadFull_def putOptions_def
      bytes_NewReader_def no_trailing_def io_Discard_def mem_client_def isObjectNotFound_def
      no_such_key_def mem_put_def chunk_store_def)

theorem upload_restore_roundtrip_witness:
  "case download_chunk mem_client chunk_query chunk_store (sample_session sample_writer) of
     Ok (announced, received) \<Rightarrow> announced = 3 \<and> (int (length received) = announced \<longrightarrow> received = [1, 2, 3])
   | Err n e \<Rightarrow> False"
proof -
  let ?s = "sample_session sample_writer"
  obtain info s1 where up: "chunk_upload (leader_upload mem_client (bytes_NewReader [1, 2, 3]) ?s) False
      chunk_query 3 [] ?s = (Ok info, chunk_store, s1)" "\<not> InfoKnown info"
    using chunk_query_parsed chunk_stored
    by (simp add: chunk_upload_def leader_upload_def sample_session_def Let_def)
  have reads: "reads_stored mem_client mem_view chunk_store ''ds'' chunk_name"
    by (simp add: reads_stored_def mem_client_def mem_get_def chunk_store_def mem_view_def bytes_NewReader_def mem_info_def)
  have ds: "SelectedDataStore ?s = ''ds''" by (simp add: sample_session_def)
  have down: "download_chunk mem_client chunk_query chunk_store ?s = Ok (3, [1, 2, 3])"
    using chunk_query_name
    by (simp add: download_chunk_def send_object_def mem_client_def mem_get_def chunk_store_def ds bytes_NewReader_def
        mem_info_def)
  show ?thesis
    using upload_restore_roundtrip [OF mem_puts_stored mem_puts_only mem_stats_stored up chunk_query_name refl _ down refl refl]
      reads ds down by (simp add: bytes_NewReader_def)
qed

end
