(* ===== verification/ProxyApi.thy ===== *)
theory ProxyApi
  imports Reports SessionApi Base64
begin

text \<open>
  The HTTP/1.1 side of \<open>ServeHTTP\<close> (\<open>cmd/pmoxs3backuproxy/main.go\<close>): tickets and their expiry, the datastore
  API behind a ticket, and the upgrade of a connection to a session (\<open>hijack.go\<close>).

  A client of an account is created by \<open>minio.New\<close>, a parameter; the JSON and form decoders deliver
  their fields. Building a tag set and putting it is one parameter as well: \<open>set_tags\<close> stands for
  \<open>tags.NewTags\<close> followed by \<open>PutObjectTagging\<close>. A handler is one function here, and what other requests do while it runs is left out; for the
  requests for a ticket, whose steps others can see, the theory \<open>Logins\<close> adds it.
\<close>

section \<open>Tickets\<close>

text \<open>
  The regular expression \<open>PBSAuthCookie=([^;]+)\<close> on the header: the leftmost place where it matches,
  as far as it reaches.
\<close>

fun cookie_ticket :: "string \<Rightarrow> string option" where
  "cookie_ticket [] = None"
| "cookie_ticket (x # xs) =
     (let rest = drop (length ''PBSAuthCookie='') (x # xs);
          value = takeWhile (\<lambda>ch. ch \<noteq> CHR '';'') rest
      in if HasPrefix (x # xs) ''PBSAuthCookie='' \<and> value \<noteq> [] then Some value else cookie_ticket xs)"

declare cookie_ticket.simps [simp del]

text \<open>
  The HTTP/1.1 server: its tickets, the connections of the process by user name, the process with its
  caches, the token files, and the object store.
\<close>

record 's Server =
  Auth :: "(string, 's TicketEntry) gomap"
  connectionList :: "(string, 's s3_client) gomap"
  px_process :: proxy_process
  px_files :: fs
  px_store :: 's

definition server_caches :: "'s Server \<Rightarrow> proxy_caches" where
  "server_caches a = pp_caches (px_process a)"

definition with_caches :: "proxy_caches \<Rightarrow> 's Server \<Rightarrow> 's Server" where
  "with_caches pc a = a\<lparr>px_process := (px_process a)\<lparr>pp_caches := pc\<rparr>\<rparr>"

definition authenticate :: "string \<Rightarrow> 's Server \<Rightarrow> 's TicketEntry option" where
  "authenticate cookie a =
     (case cookie_ticket cookie of None \<Rightarrow> None | Some t \<Rightarrow> map_of (Auth a) t)"

text \<open>One round of the ticket collector.\<close>

definition ticketGC :: "u64 \<Rightarrow> 's Server \<Rightarrow> 's Server" where
  "ticketGC now a = a\<lparr>Auth := filter (\<lambda>(_, te). \<not> ExpireAt te < now) (Auth a)\<rparr>"

record ticket_settings =
  S3Endpoint :: string
  TicketExpire :: u64

text \<open>
  Issuing a ticket to a user name and password. The random ticket, the time and the time at which the
  bucket list is cached are arguments. A user name that has a connection gets a ticket for it. This is
  a login that no other one of its name overlaps: the code registers the client before the object store has
  answered and removes it after a refusal, which only other logins can see (theory \<open>Logins\<close>).
\<close>

definition access_ticket ::
    "ticket_settings \<Rightarrow> (string \<Rightarrow> string \<Rightarrow> string \<Rightarrow> 's s3_client result) \<Rightarrow> string \<Rightarrow> u64 \<Rightarrow> int
      \<Rightarrow> string \<Rightarrow> string \<Rightarrow> 's Server \<Rightarrow> string reply \<times> 's Server" where
  "access_ticket cfg minio_New ticket now later user password a =
     (let username = hd (Split user CHR ''@'');
          te = \<lparr>AccessKeyID = username, SecretAccessKey = password, Endpoint = S3Endpoint cfg, Client = None,
                ExpireAt = now + TicketExpire cfg\<rparr>;
          issue = (\<lambda>c a. (Ok ticket, a\<lparr>Auth := AList.update ticket (te\<lparr>Client := Some c\<rparr>) (Auth a)\<rparr>))
      in case map_of (connectionList a) username of
           Some c \<Rightarrow> issue c a
         | None \<Rightarrow>
             (case minio_New (Endpoint te) username password of
                Inl e \<Rightarrow> (Err 403 e, a)
              | Inr c \<Rightarrow>
                  (case ListBuckets c (px_store a) of
                     Inl e \<Rightarrow> (Err 403 e, a)
                   | Inr buckets \<Rightarrow>
                       let pc = server_caches a;
                           lists = Store later (username @ ''@'' @ Endpoint te) buckets (bucketListCache pc)
                       in issue c (with_caches (pc\<lparr>bucketListCache := lists\<rparr>)
                            (a\<lparr>connectionList := AList.update username c (connectionList a)\<rparr>)))))"

section \<open>The datastore API\<close>

text \<open>
  The snapshot a request names, and the tags of its manifest. The tag set is put by \<open>set_tags\<close> on a
  bucket and key.
\<close>

type_synonym 's set_tags = "'s \<Rightarrow> string \<Rightarrow> string \<Rightarrow> (string, string) gomap \<Rightarrow> unit result \<times> 's"

definition requested :: "(string, string) gomap \<Rightarrow> string \<Rightarrow> Snapshot" where
  "requested q ds = (InitWithQuery q zero_snapshot)\<lparr>Datastore := ds\<rparr>"

definition notes_get :: "'s s3_client \<Rightarrow> 's \<Rightarrow> string \<Rightarrow> (string, string) gomap \<Rightarrow> string reply" where
  "notes_get c st ds q =
     (case ReadTags c st (requested q ds) of
        Inl e \<Rightarrow> Err 500 e
      | Inr existingTags \<Rightarrow>
          Ok (case map_of existingTags ''note'' of
                Some tagvalue \<Rightarrow> string_of_bytes (fst (RawStdEncoding_DecodeString tagvalue))
              | None \<Rightarrow> []))"

text \<open>An error of \<open>ReadTags\<close> is ignored, and its nil map cannot be assigned to.\<close>

definition notes_put ::
    "'s set_tags \<Rightarrow> 's s3_client \<Rightarrow> 's \<Rightarrow> string \<Rightarrow> (string, string) gomap \<Rightarrow> string
      \<Rightarrow> unit reply outcome \<times> 's \<times> bool" where
  "notes_put set_tags c st ds q note =
     (let ss = requested q ds in
      case ReadTags c st ss of
        Inl e \<Rightarrow> (Panics ''assignment to entry in nil map'', st, False)
      | Inr existingTags \<Rightarrow>
          let existingTags = AList.update ''note'' (RawStdEncoding_EncodeToString (bytes_of_string note)) existingTags
          in (case set_tags st ds (S3Prefix ss @ ''/index.json.blob'') existingTags of
                (Inl e, st') \<Rightarrow> (Returns (Err 500 e), st', False)
              | (Inr _, st') \<Rightarrow> (Returns (Ok ()), st', True)))"

definition protected_get :: "'s s3_client \<Rightarrow> 's \<Rightarrow> string \<Rightarrow> (string, string) gomap \<Rightarrow> bool reply" where
  "protected_get c st ds q =
     (case ReadTags c st (requested q ds) of
        Inl e \<Rightarrow> Err 500 e
      | Inr existingTags \<Rightarrow> Ok (map_of existingTags ''protected'' = Some ''true''))"

text \<open>
  The toggle. The parameters come from the form. The last component tells whether a change was
  published; a failure to set the tag is only logged.
\<close>

definition protected_put ::
    "'s set_tags \<Rightarrow> 's s3_client \<Rightarrow> 's \<Rightarrow> string \<Rightarrow> (string, string) gomap \<Rightarrow> Snapshot reply \<times> 's \<times> bool" where
  "protected_put set_tags c st ds form =
     (let ss = (InitWithForm form zero_snapshot)\<lparr>Datastore := ds\<rparr> in
      case ReadTags c st ss of
        Inl e \<Rightarrow> (Err 500 e, st, False)
      | Inr existingTags \<Rightarrow>
          let existingTags = AList.update ''protected''
                (case map_of existingTags ''protected'' of
                   Some tagvalue \<Rightarrow> if tagvalue = ''true'' then ''false'' else ''true''
                 | None \<Rightarrow> ''true'') existingTags
          in (case set_tags st ds (S3Prefix ss @ ''/index.json.blob'') existingTags of
                (Inl e, st') \<Rightarrow> (Ok ss, st', False)
              | (Inr _, st') \<Rightarrow> (Ok ss, st', True)))"

definition files_get ::
    "report_flags \<Rightarrow> report_env \<Rightarrow> 's s3_client \<Rightarrow> 's \<Rightarrow> string \<Rightarrow> (string, string) gomap \<Rightarrow> proxy_caches
      \<Rightarrow> SnapshotFile list reply outcome \<times> proxy_caches" where
  "files_get fl env c st ds q pc =
     (case GetFiles c st (requested q ds) of
        Panics m \<Rightarrow> (Panics m, pc)
      | Returns ss \<Rightarrow>
          if reportEncryption fl then
            (case FillSnapshotCryptModes (re_clock env) [0] (re_zstd env) (re_manifest env) c st [ss]
                    (manifestCryptModeCache pc) of
               (filled, cache') \<Rightarrow> (Returns (Ok (Files (filled ! 0))), pc\<lparr>manifestCryptModeCache := cache'\<rparr>))
          else (Returns (Ok (Files ss)), pc))"

definition s3stats_get ::
    "report_flags \<Rightarrow> report_env \<Rightarrow> 's s3_client \<Rightarrow> 's \<Rightarrow> string \<Rightarrow> proxy_caches \<Rightarrow> bytes reply \<times> proxy_caches" where
  "s3stats_get fl env c st ds pc =
     (if \<not> reportGCStats fl then (Err 404 (Error ''GC usage reporting is disabled''), pc)
      else
        (case re_clock env ds of (now, later) \<Rightarrow>
         (case Get now later ds (read_report c st ds) (usageStatsCache pc) of
            (Inl e, cache') \<Rightarrow> (Err 404 e, pc\<lparr>usageStatsCache := cache'\<rparr>)
          | (Inr (stats, fresh), cache') \<Rightarrow> (Ok stats, pc\<lparr>usageStatsCache := cache'\<rparr>))))"

definition upload_backup_log ::
    "storageClassPolicy \<Rightarrow> 's s3_client \<Rightarrow> 's \<Rightarrow> string \<Rightarrow> (string, string) gomap \<Rightarrow> reader \<Rightarrow> int
      \<Rightarrow> unit reply \<times> 's \<times> bool" where
  "upload_backup_log classes c st ds q body contentLength =
     (case PutObject c st ds (S3Prefix (InitWithQuery q zero_snapshot) @ ''/client.log.blob'') body contentLength
             (putOptions (Backups classes) []) of
        ((Inl e, _), st') \<Rightarrow> (Err 500 e, st', False)
      | ((Inr _, _), st') \<Rightarrow> (Ok (), st', True))"

text \<open>A deletion always ends with a publication; the caches of this process are dropped before it too.\<close>

definition snapshots_delete ::
    "'s s3_client \<Rightarrow> 's \<Rightarrow> string \<Rightarrow> (string, string) gomap \<Rightarrow> proxy_caches
      \<Rightarrow> Snapshot reply \<times> 's \<times> proxy_caches" where
  "snapshots_delete c st ds form pc =
     (let ss = (InitWithForm form zero_snapshot)\<lparr>Datastore := ds\<rparr>;
          pc = invalidateDataStoreCachesLocal ds pc
      in case Delete c st ss of
           (None, st') \<Rightarrow> (Ok ss, st', pc)
         | (Some e, st') \<Rightarrow> (Err 500 e, st', pc))"

text \<open>After a listing error the status is 500, but the (empty) list is still selected from and sent.\<close>

definition snapshots_get ::
    "(string, string) gomap \<Rightarrow> Snapshot list result \<Rightarrow> nat \<times> Snapshot list" where
  "snapshots_get q listing =
     (let id = str_at q ''backup-id''; bcktype = str_at q ''backup-type'';
          snapshots = (case listing of Inl e \<Rightarrow> [] | Inr ss \<Rightarrow> ss);
          returned = (if id \<noteq> [] then filter (\<lambda>S. BackupID S = id \<and> BackupType S = bcktype) snapshots else [])
      in (case listing of Inl e \<Rightarrow> 500 | Inr _ \<Rightarrow> 200, if returned \<noteq> [] \<or> id \<noteq> [] then returned else snapshots))"

definition list_buckets ::
    "int \<Rightarrow> int \<Rightarrow> 's s3_client \<Rightarrow> 's \<Rightarrow> 's TicketEntry \<Rightarrow> string list ttlCache
      \<Rightarrow> string list reply \<times> string list ttlCache" where
  "list_buckets now later c st C cache =
     (case Get now later (AccessKeyID C @ ''@'' @ Endpoint C) (ListBuckets c st) cache of
        (Inl e, cache') \<Rightarrow> (Err 500 e, cache')
      | (Inr (buckets, fresh), cache') \<Rightarrow> (Ok buckets, cache'))"

section \<open>The upgrade of a connection\<close>

text \<open>
  A hijacked connection: what it will still deliver, and whether it was closed. The buffered reader
  that comes with it may be missing, and holds bytes the server had read ahead. The second result is
  the connection when it had to be closed.
\<close>

record net_conn =
  conn_data :: bytes
  conn_closed :: bool

definition hijackWithBuffered ::
    "bool \<Rightarrow> (net_conn \<times> reader option) result \<Rightarrow> nat \<Rightarrow> net_conn result \<times> net_conn option" where
  "hijackWithBuffered hijacker hijack buffered =
     (if \<not> hijacker then (Inl (Error ''protocol upgrade is not supported by this connection''), None)
      else
        (case hijack of
           Inl e \<Rightarrow> (Inl e, None)
         | Inr (conn, None) \<Rightarrow> (Inr conn, None)
         | Inr (conn, Some bufrw) \<Rightarrow>
             if buffered = 0 then (Inr conn, None)
             else
               (case io_ReadFull bufrw buffered of
                  Inl e \<Rightarrow> (Inl (Wrap ''read buffered bytes after upgrade'' e), Some (conn\<lparr>conn_closed := True\<rparr>))
                | Inr (pending, _) \<Rightarrow> (Inr (conn\<lparr>conn_data := pending @ conn_data conn\<rparr>), None))))"

section \<open>Lemmas: cookies\<close>

lemma cookie_ticket_unfold:
  "cookie_ticket s =
     (if s = [] then None
      else let value = takeWhile (\<lambda>ch. ch \<noteq> CHR '';'') (drop 14 s)
           in if HasPrefix s ''PBSAuthCookie='' \<and> value \<noteq> [] then Some value else cookie_ticket (tl s))"
  by (cases s) (simp_all add: cookie_ticket.simps Let_def numeral_eq_Suc)

lemma cookie_ticket_value:
  assumes "ticket \<noteq> []" "CHR '';'' \<notin> set ticket"
  shows "cookie_ticket (''PBSAuthCookie='' @ ticket) = Some ticket"
proof -
  have "takeWhile (\<lambda>ch. ch \<noteq> CHR '';'') (drop 14 (''PBSAuthCookie='' @ ticket)) = ticket"
    using assms(2) by (auto simp: takeWhile_eq_all_conv)
  moreover have "HasPrefix (''PBSAuthCookie='' @ ticket) ''PBSAuthCookie=''" by (simp add: HasPrefix_def)
  ultimately show ?thesis
    using assms(1) by (subst cookie_ticket_unfold) (simp only: Let_def, simp)
qed

section \<open>Lemmas: tags and connections\<close>

text \<open>A tag set that was put is the one that is read back.\<close>

definition tags_stored :: "'s set_tags \<Rightarrow> 's s3_client \<Rightarrow> bool" where
  "tags_stored set_tags c \<longleftrightarrow>
     (\<forall>st b k m st'. set_tags st b k m = (Inr (), st') \<longrightarrow>
        (\<exists>m'. GetObjectTagging c st' b k = Inr m' \<and> map_of m' = map_of m))"

lemma mem_tags_stored: "tags_stored (PutObjectTagging mem_client) mem_client"
  by (auto simp: tags_stored_def mem_client_def map_of_update split: option.splits)

lemma requested_form: "(InitWithForm form zero_snapshot)\<lparr>Datastore := ds\<rparr> = requested form ds"
  by (simp add: requested_def InitWithForm_def InitWithQuery_def)

text \<open>Both answers read the tags of the manifest and nothing else.\<close>

lemma tags_answers:
  assumes "ReadTags c st (requested q ds) = Inr m"
  shows "protected_get c st ds q = Ok (map_of m ''protected'' = Some ''true'')"
    and "notes_get c st ds q = Ok (case map_of m ''note'' of
      Some v \<Rightarrow> string_of_bytes (fst (RawStdEncoding_DecodeString v)) | None \<Rightarrow> [])"
  using assms by (simp_all add: protected_get_def notes_get_def)

lemma set_tags_read:
  assumes "tags_stored set_tags c" "set_tags st ds (S3Prefix (requested q ds) @ ''/index.json.blob'') m = (Inr (), st')"
  obtains m' where "ReadTags c st' (requested q ds) = Inr m'" "map_of m' = map_of m"
  using assms unfolding tags_stored_def ReadTags_def requested_def by fastforce

lemma notes_put_ok:
  assumes "notes_put set_tags c st ds q note = (Returns (Ok ()), st', published)"
  obtains m where "ReadTags c st (requested q ds) = Inr m" "published"
    "set_tags st ds (S3Prefix (requested q ds) @ ''/index.json.blob'')
       (AList.update ''note'' (RawStdEncoding_EncodeToString (bytes_of_string note)) m) = (Inr (), st')"
  using assms by (auto simp: notes_put_def Let_def split: sum.splits prod.splits)

lemma protected_put_published:
  assumes "protected_put set_tags c st ds form = (r, st', True)"
  obtains m where "ReadTags c st (requested form ds) = Inr m" "r = Ok (requested form ds)"
    "set_tags st ds (S3Prefix (requested form ds) @ ''/index.json.blob'')
       (AList.update ''protected'' (if map_of m ''protected'' = Some ''true'' then ''false'' else ''true'') m)
     = (Inr (), st')"
  using assms
  by (auto simp: protected_put_def requested_form Let_def split: sum.splits prod.splits option.splits if_splits)

text \<open>
  No byte is lost in an upgrade: what the server had buffered, then what the connection still delivers.
\<close>

lemma hijack_keeps_bytes:
  assumes "buffered \<le> length (rd_data bufrw)"
  shows "hijackWithBuffered True (Inr (conn, Some bufrw)) buffered =
    (Inr (conn\<lparr>conn_data := take buffered (rd_data bufrw) @ conn_data conn\<rparr>), None)"
  using assms by (simp add: hijackWithBuffered_def io_ReadFull_def)

section \<open>Properties\<close>

text \<open>
  C36: Notes and protection are kept apart and read back. After a note was set, reading it gives that
  note, whatever bytes it holds, and the protection is as before. After the protection was
  toggled, reading it gives the opposite of before, and the note is as before.
\<close>

theorem notes_and_protection_roundtrip:
  assumes law: "tags_stored set_tags c"
  shows "(notes_put set_tags c st ds q note = (Returns (Ok ()), st', published) \<longrightarrow>
      notes_get c st' ds q = Ok note \<and> protected_get c st' ds q = protected_get c st ds q)
    \<and> (protected_put set_tags c st ds q = (r, st', True) \<longrightarrow>
      (\<exists>p. protected_get c st ds q = Ok p \<and> protected_get c st' ds q = Ok (\<not> p))
      \<and> notes_get c st' ds q = notes_get c st ds q)"
proof (intro conjI impI; (elim notes_put_ok protected_put_published)?)
  fix m
  assume old: "ReadTags c st (requested q ds) = Inr m"
  {
    assume "set_tags st ds (S3Prefix (requested q ds) @ ''/index.json.blob'')
       (AList.update ''note'' (RawStdEncoding_EncodeToString (bytes_of_string note)) m) = (Inr (), st')"
    from set_tags_read [OF law this] obtain m' where new: "ReadTags c st' (requested q ds) = Inr m'"
      "map_of m' = map_of (AList.update ''note'' (RawStdEncoding_EncodeToString (bytes_of_string note)) m)" by blast
    show "notes_get c st' ds q = Ok note" "protected_get c st' ds q = protected_get c st ds q"
      by (simp_all add: tags_answers [OF new(1)] tags_answers [OF old] new(2) map_of_update)
  }
  {
    assume "set_tags st ds (S3Prefix (requested q ds) @ ''/index.json.blob'')
       (AList.update ''protected'' (if map_of m ''protected'' = Some ''true'' then ''false'' else ''true'') m)
       = (Inr (), st')"
    from set_tags_read [OF law this] obtain m' where new: "ReadTags c st' (requested q ds) = Inr m'"
      "map_of m' = map_of (AList.update ''protected''
         (if map_of m ''protected'' = Some ''true'' then ''false'' else ''true'') m)" by blast
    show "\<exists>p. protected_get c st ds q = Ok p \<and> protected_get c st' ds q = Ok (\<not> p)"
      "notes_get c st' ds q = notes_get c st ds q"
      by (simp_all add: tags_answers [OF new(1)] tags_answers [OF old] new(2) map_of_update)
  }
qed

definition tagged_store :: mem_store where
  "tagged_store = [((''ds'', ''backups/101|5|vm/index.json.blob''), ([1], mem_info [] [1] []))]"

definition tagged_query :: "(string, string) gomap" where
  "tagged_query = [(''backup-id'', ''101''), (''backup-time'', ''5''), (''backup-type'', ''vm'')]"

lemma tagged_key:
  "S3Prefix (requested tagged_query ''ds'') = ''backups/101|5|vm''" "Datastore (requested tagged_query ''ds'') = ''ds''"
proof -
  have five: "format_nat (unat (5 :: u64)) = ''5''"
    by (simp add: format_nat.simps digit_char_def char_of_def bit_simps)
  then have "ParseUint64 ''5'' = (5, None)" using ParseUint64_format [of 5] by simp
  then show "S3Prefix (requested tagged_query ''ds'') = ''backups/101|5|vm''"
    using five by (simp add: requested_def InitWithQuery_def S3Prefix_def tagged_query_def str_at_def zero_snapshot_def)
  show "Datastore (requested tagged_query ''ds'') = ''ds''" by (simp add: requested_def)
qed

theorem notes_and_protection_roundtrip_witness:
  "let put = protected_put (PutObjectTagging mem_client) mem_client tagged_store ''ds'' tagged_query
   in protected_get mem_client tagged_store ''ds'' tagged_query = Ok False
      \<and> protected_get mem_client (fst (snd put)) ''ds'' tagged_query = Ok True"
proof -
  have put: "protected_put (PutObjectTagging mem_client) mem_client tagged_store ''ds'' tagged_query
      = (Ok (requested tagged_query ''ds''), fst (snd (protected_put (PutObjectTagging mem_client) mem_client
           tagged_store ''ds'' tagged_query)), True)"
    unfolding protected_put_def requested_form
    by (simp add: Let_def ReadTags_def tagged_key mem_client_def tagged_store_def mem_info_def)
  have "protected_get mem_client tagged_store ''ds'' tagged_query = Ok False"
    by (simp add: protected_get_def ReadTags_def tagged_key mem_client_def tagged_store_def mem_info_def)
  with notes_and_protection_roundtrip [OF mem_tags_stored, of _ _ _ _ _ _, THEN conjunct2, rule_format, OF put]
  show ?thesis by (auto simp: Let_def)
qed

text \<open>
  C40: A password is looked at once. While a user name has a connection, a request for a ticket with
  any password gets one, and the cookie with that ticket is authenticated as that user, with the
  client of the connection.
\<close>

theorem ticket_ignores_password:
  assumes "map_of (connectionList a) (hd (Split user CHR ''@'')) = Some c"
    and "ticket \<noteq> []" "CHR '';'' \<notin> set ticket"
  shows "\<exists>a' te. access_ticket cfg minio_New ticket now later user password a = (Ok ticket, a')
    \<and> authenticate (''PBSAuthCookie='' @ ticket) a' = Some te
    \<and> AccessKeyID te = hd (Split user CHR ''@'') \<and> Client te = Some c"
  using assms cookie_ticket_value [OF assms(2,3)]
  by (simp add: access_ticket_def authenticate_def map_of_update Let_def)

definition idle_server :: "'s \<Rightarrow> 's Server" where
  "idle_server st = \<lparr>Auth = [], connectionList = [], px_process = sample_process, px_files = [], px_store = st\<rparr>"

theorem ticket_ignores_password_witness:
  "\<exists>a' te. access_ticket \<lparr>S3Endpoint = ''s3'', TicketExpire = 60\<rparr> (\<lambda>_ _ _. Inl (Error ''denied'')) ''t'' 5 5
      ''root@pbs'' ''wrong'' ((idle_server tagged_store)\<lparr>connectionList := [(''root'', mem_client)]\<rparr>) = (Ok ''t'', a')
    \<and> authenticate (''PBSAuthCookie='' @ ''t'') a' = Some te
    \<and> AccessKeyID te = hd (Split ''root@pbs'' CHR ''@'') \<and> Client te = Some mem_client"
  by (rule ticket_ignores_password) simp_all

end
