(* ===== verification/ProxyServer.thy ===== *)
theory ProxyServer
  imports ProxyApi
begin

text \<open>
  The dispatch of \<open>ServeHTTP\<close> (\<open>cmd/pmoxs3backuproxy/main.go\<close>) for the HTTP/1.1 server, whose
  \<open>H2Ticket\<close> is nil: a request changes the server, its caches, the token files and the object store.
  A request is one step here; the requests for a ticket, taken apart and interleaved, are in \<open>Logins\<close>.

  The conditions of \<open>ServeHTTP\<close> that a request can meet exclude one another, so that running through all
  of them and taking the first that holds come to the same.
\<close>

section \<open>Requests and answers\<close>

text \<open>
  A request with its headers and form, and what its connection gives when it is hijacked: whether it
  can be, the connection with its buffered reader, and how many bytes that reader holds.
\<close>

record http1_request = http_request +
  rq_cookie :: string
  rq_content_type :: string
  rq_form :: "(string, string) gomap"
  rq_form_err :: "goerr option"
  rq_hijacker :: bool
  rq_hijack :: "(net_conn \<times> reader option) result"
  rq_buffered :: nat

datatype session_kind = BackupKind | RestoreKind

datatype http1_data =
    Silent
  | VersionData
  | NoteData string
  | FilesData "SnapshotFile list"
  | ProtectedData bool
  | SnapshotData Snapshot
  | StatsData bytes
  | StatusData DataStoreStatus "u64 option"
  | NamespaceData string
  | GroupsData "Group list"
  | SnapshotsData nat "Snapshot list"
  | BucketsData "string list"
  | TicketData string
  | SessionData session_kind net_conn string Snapshot

text \<open>
  The settings of the server, and what one request meets outside it: the reports, the clients, the tag
  calls, the read of the token file, the calls of a publication, and the times.
\<close>

record 's http1_env =
  h1_flags :: report_flags
  h1_settings :: ticket_settings
  h1_classes :: storageClassPolicy
  h1_reports :: report_env
  h1_minio_New :: "string \<Rightarrow> string \<Rightarrow> string \<Rightarrow> 's s3_client result"
  h1_set_tags :: "'s s3_client \<Rightarrow> 's set_tags"
  h1_credentials :: "bytes \<Rightarrow> string \<times> string"
  h1_read_err :: "goerr option"
  h1_calls :: fs_calls
  h1_ticks :: "DataStoreUsage ttlCache list"
  h1_ticket :: string
  h1_now :: int
  h1_later :: int
  h1_unix :: u64

section \<open>The datastore API\<close>

definition announce :: "'s http1_env \<Rightarrow> string \<Rightarrow> bool \<Rightarrow> 's Server \<Rightarrow> 's Server" where
  "announce env ds changed a =
     (if changed then
        (case publishDataStoreCacheInvalidation (h1_calls env) (h1_now env) ds (px_process a) (px_files a) of
           (p, f) \<Rightarrow> a\<lparr>px_process := p, px_files := f\<rparr>)
      else a)"

definition synced :: "'s http1_env \<Rightarrow> string \<Rightarrow> 's Server \<Rightarrow> 's Server" where
  "synced env ds a =
     a\<lparr>px_process := syncDataStoreCacheInvalidation (h1_read_err env) ds (px_files a) (px_process a)\<rparr>"

text \<open>
  The block for \<open>/api2/json/admin/datastore/\<close>, from the branches on the action down. The time of the cache
  lookups is the one of the reports.
\<close>

definition datastore_api ::
    "'s http1_env \<Rightarrow> 's s3_client \<Rightarrow> string \<Rightarrow> string \<Rightarrow> string \<Rightarrow> http1_request \<Rightarrow> 's Server
      \<Rightarrow> http1_data reply outcome \<times> 's Server" where
  "datastore_api env c accessKey ds action rq a =
     (let q = rq_query rq; st = px_store a; pc = server_caches a; fl = h1_flags env;
          act = HasPrefix action; meth = (\<lambda>m. rq_method rq = m)
      in
      if act ''notes'' \<and> meth ''GET'' then (Returns (map_reply NoteData (notes_get c st ds q)), a)
      else if act ''notes'' \<and> meth ''PUT''
      then (case notes_put (h1_set_tags env c) c st ds q (str_at (rq_form rq) ''notes'') of
              (r, st', changed) \<Rightarrow>
                (map_outcome (map_reply (\<lambda>_. Silent)) r, announce env ds changed (a\<lparr>px_store := st'\<rparr>)))
      else if act ''files'' \<and> meth ''GET''
      then (case files_get fl (h1_reports env) c st ds q pc of
              (r, pc') \<Rightarrow> (map_outcome (map_reply FilesData) r, with_caches pc' a))
      else if act ''protected'' \<and> meth ''GET'' then (Returns (map_reply ProtectedData (protected_get c st ds q)), a)
      else if act ''protected'' \<and> meth ''PUT''
      then (case protected_put (h1_set_tags env c) c st ds (rq_form rq) of
              (r, st', changed) \<Rightarrow>
                (Returns (map_reply SnapshotData r), announce env ds changed (a\<lparr>px_store := st'\<rparr>)))
      else if action = ''gc'' \<or> action = ''prune'' then (Returns (Err 501 (Error ''Not implemented'')), a)
      else if action = ''s3stats'' \<and> meth ''GET''
      then (case s3stats_get fl (h1_reports env) c st ds pc of
              (r, pc') \<Rightarrow> (Returns (map_reply StatsData r), with_caches pc' a))
      else if action = ''status''
      then (case status_handler fl (h1_now env) ds (h1_ticks env) pc of
              (status, started, pc') \<Rightarrow> (Returns (Ok (StatusData status started)), with_caches pc' a))
      else if act ''namespace''
      then (if \<not> meth ''GET'' then (Returns (Err 501 (Error ''Not implemented'')), a)
            else (Returns (Ok (NamespaceData ''Root'')), a))
      else if act ''groups''
      then (case listSnapshotsCached fl (h1_reports env) c st ds pc of
              (listing, pc') \<Rightarrow> (Returns (Ok (GroupsData (groups_handler accessKey listing))), with_caches pc' a))
      else if act ''upload-backup-log'' \<and> meth ''POST''
      then (case upload_backup_log (h1_classes env) c st ds q (rq_body rq) (rq_length rq) of
              (r, st', changed) \<Rightarrow>
                (Returns (map_reply (\<lambda>_. Silent) r), announce env ds changed (a\<lparr>px_store := st'\<rparr>)))
      else if act ''snapshots'' \<and> meth ''DELETE''
      then (case snapshots_delete c st ds (rq_form rq) pc of
              (r, st', pc') \<Rightarrow>
                (Returns (map_reply SnapshotData r), announce env ds True (with_caches pc' (a\<lparr>px_store := st'\<rparr>))))
      else if act ''snapshots'' \<and> meth ''GET''
      then (case listSnapshotsCached fl (h1_reports env) c st ds pc of
              (listing, pc') \<Rightarrow>
                (case snapshots_get q listing of
                   (status, snapshots) \<Rightarrow> (Returns (Ok (SnapshotsData status snapshots)), with_caches pc' a)))
      else (Returns (Ok Silent), a))"

section \<open>The other branches\<close>

text \<open>
  The switch to a session. The headers have been sent when the connection is taken over, so that a
  failure there leaves the status 101.
\<close>

definition start_session :: "session_kind \<Rightarrow> http1_request \<Rightarrow> http1_data reply" where
  "start_session kind rq =
     (if \<not> rq_hijacker rq then Err 500 (Error ''protocol upgrade is not supported by this connection'')
      else
        (case fst (hijackWithBuffered (rq_hijacker rq) (rq_hijack rq) (rq_buffered rq)) of
           Inl e \<Rightarrow> Err 101 e
         | Inr conn \<Rightarrow> Ok (SessionData kind conn (str_at (rq_query rq) ''store'')
                             (InitWithQuery (rq_query rq) zero_snapshot))))"

definition is_ticket_request :: "http1_request \<Rightarrow> bool" where
  "is_ticket_request rq \<longleftrightarrow>
     (rq_uri rq = ''//api2/json/access/ticket'' \<or> rq_uri rq = ''/api2/json/access/ticket'') \<and> rq_method rq = ''POST''"

definition ticket_credentials :: "'s http1_env \<Rightarrow> http1_request \<Rightarrow> (string \<times> string) result" where
  "ticket_credentials env rq =
     (if rq_content_type rq = ''application/json'' then
        (case io_ReadAll (rq_body rq) of Inl e \<Rightarrow> Inl e | Inr body \<Rightarrow> Inr (h1_credentials env body))
      else
        (case rq_form_err rq of
           Some e \<Rightarrow> Inl e
         | None \<Rightarrow> Inr (str_at (rq_form rq) ''username'', str_at (rq_form rq) ''password'')))"

definition ticket_request ::
    "'s http1_env \<Rightarrow> http1_request \<Rightarrow> 's Server \<Rightarrow> http1_data reply \<times> 's Server" where
  "ticket_request env rq a =
     (if is_ticket_request rq then
        (case ticket_credentials env rq of
           Inl e \<Rightarrow> (Err 400 e, a)
         | Inr (user, password) \<Rightarrow>
             (case access_ticket (h1_settings env) (h1_minio_New env) (h1_ticket env) (h1_unix env) (h1_later env)
                     user password a of
                (r, a') \<Rightarrow> (map_reply TicketData r, a')))
      else (Ok Silent, a))"

text \<open>
  A request that no branch takes gets an empty answer. Every ticket that is stored has its client; one
  without could not be used.
\<close>

definition authenticated_request ::
    "'s http1_env \<Rightarrow> 's TicketEntry \<Rightarrow> http1_request \<Rightarrow> 's Server \<Rightarrow> http1_data reply outcome \<times> 's Server" where
  "authenticated_request env C rq a =
     (let path = Split (rq_uri rq) CHR ''/''; uri = HasPrefix (rq_uri rq) in
      if uri ''/api2/json/version'' then (Returns (Ok VersionData), a)
      else if 7 \<le> length path \<and> uri ''/api2/json/admin/datastore/''
      then (case Client C of
              None \<Rightarrow> (Panics nil_dereference, synced env (path ! 5) a)
            | Some c \<Rightarrow> datastore_api env c (AccessKeyID C) (path ! 5) (path ! 6) rq (synced env (path ! 5) a))
      else if rq_uri rq = ''/api2/json/admin/datastore'' \<and> rq_method rq = ''GET''
      then (case Client C of
              None \<Rightarrow> (Panics nil_dereference, a)
            | Some c \<Rightarrow>
                (case list_buckets (h1_now env) (h1_later env) c (px_store a) C (bucketListCache (server_caches a)) of
                   (r, cache') \<Rightarrow>
                     (Returns (map_reply BucketsData r),
                      with_caches ((server_caches a)\<lparr>bucketListCache := cache'\<rparr>) a)))
      else if uri ''//api2/json/backup'' then (Returns (start_session BackupKind rq), a)
      else if uri ''//api2/json/reader'' then (Returns (start_session RestoreKind rq), a)
      else (case ticket_request env rq a of (r, a') \<Rightarrow> (Returns r, a')))"

definition ServeHTTP :: "'s http1_env \<Rightarrow> http1_request \<Rightarrow> 's Server \<Rightarrow> http1_data reply outcome \<times> 's Server" where
  "ServeHTTP env rq a =
     (if HasPrefix (rq_uri rq) ''/fixed_chunk?'' \<or> HasPrefix (rq_uri rq) ''/dynamic_chunk?''
      then (Returns (Err 401 (Error ''chunk upload requires an authenticated backup session'')), a)
      else
        (case authenticate (rq_cookie rq) a of
           Some C \<Rightarrow> authenticated_request env C rq a
         | None \<Rightarrow> (case ticket_request env rq a of (r, a') \<Rightarrow> (Returns r, a'))))"

section \<open>Lemmas: what a request can change\<close>

lemma announce_fields [simp]:
  "Auth (announce env ds changed a) = Auth a"
  "connectionList (announce env ds changed a) = connectionList a"
  "px_store (announce env ds changed a) = px_store a"
  by (simp_all add: announce_def split: prod.split)

lemma synced_fields [simp]:
  "Auth (synced env ds a) = Auth a"
  "connectionList (synced env ds a) = connectionList a"
  "px_store (synced env ds a) = px_store a"
  by (simp_all add: synced_def)

lemma with_caches_fields [simp]:
  "Auth (with_caches pc a) = Auth a"
  "connectionList (with_caches pc a) = connectionList a"
  "px_store (with_caches pc a) = px_store a"
  by (simp_all add: with_caches_def)

lemma with_own_caches [simp]: "with_caches (server_caches a) a = a"
  by (simp add: with_caches_def server_caches_def)

text \<open>The effects of the datastore API: on the caches only, or through one of the four handlers that write.\<close>

inductive api_effect ::
    "'s http1_env \<Rightarrow> 's s3_client \<Rightarrow> string \<Rightarrow> http1_request \<Rightarrow> 's Server \<Rightarrow> 's Server \<Rightarrow> bool"
  for env c ds rq a where
  on_caches: "api_effect env c ds rq a (with_caches pc a)"
| on_note:
    "rq_method rq = ''PUT'' \<Longrightarrow>
     notes_put (h1_set_tags env c) c (px_store a) ds (rq_query rq) note = (r, st', changed) \<Longrightarrow>
     api_effect env c ds rq a (announce env ds changed (a\<lparr>px_store := st'\<rparr>))"
| on_protection:
    "rq_method rq = ''PUT'' \<Longrightarrow>
     protected_put (h1_set_tags env c) c (px_store a) ds (rq_form rq) = (r', st', changed) \<Longrightarrow>
     api_effect env c ds rq a (announce env ds changed (a\<lparr>px_store := st'\<rparr>))"
| on_log:
    "rq_method rq = ''POST'' \<Longrightarrow>
     upload_backup_log (h1_classes env) c (px_store a) ds (rq_query rq) (rq_body rq) (rq_length rq)
       = (r'', st', changed) \<Longrightarrow>
     api_effect env c ds rq a (announce env ds changed (a\<lparr>px_store := st'\<rparr>))"
| on_snapshot:
    "rq_method rq = ''DELETE'' \<Longrightarrow>
     snapshots_delete c (px_store a) ds (rq_form rq) (server_caches a) = (r''', st', pc) \<Longrightarrow>
     api_effect env c ds rq a (announce env ds True (with_caches pc (a\<lparr>px_store := st'\<rparr>)))"

lemma effect_none: "api_effect env c ds rq a a"
  using on_caches [of env c ds rq a "server_caches a"] by simp

lemma effect_if:
  "(b \<Longrightarrow> api_effect env c ds rq a (snd x)) \<Longrightarrow> api_effect env c ds rq a (snd y) \<Longrightarrow>
   api_effect env c ds rq a (snd (if b then x else y))"
  by simp

lemma effect_pair: "api_effect env c ds rq a a' \<Longrightarrow> api_effect env c ds rq a (snd (r, a'))"
  by simp

lemma effect_case:
  "(\<And>x y. p = (x, y) \<Longrightarrow> api_effect env c ds rq a (snd (f x y))) \<Longrightarrow>
   api_effect env c ds rq a (snd (case p of (x, y) \<Rightarrow> f x y))"
  by (cases p) simp

lemma datastore_api_effect: "api_effect env c ds rq a (snd (datastore_api env c accessKey ds action rq a))"
  unfolding datastore_api_def Let_def
  by (intro effect_if effect_case effect_pair)
    (auto intro: effect_none on_caches on_note on_protection on_log on_snapshot)

text \<open>Requests outside the datastore API leave the store alone; all but one of them leave the tickets alone.\<close>

lemma access_ticket_store: "px_store (snd (access_ticket cfg mn t now later u p a)) = px_store a"
  by (auto simp: access_ticket_def Let_def split: option.split sum.split)

lemma ticket_request_store: "px_store (snd (ticket_request env rq a)) = px_store a"
  by (simp add: ticket_request_def access_ticket_store case_prod_unfold split: sum.split)

text \<open>A request of the datastore API, with its ticket and datastore.\<close>

definition on_datastore :: "http1_request \<Rightarrow> 's Server \<Rightarrow> 's s3_client \<Rightarrow> string \<Rightarrow> bool" where
  "on_datastore rq a c ds \<longleftrightarrow>
     (\<exists>te. authenticate (rq_cookie rq) a = Some te \<and> Client te = Some c) \<and> ds = Split (rq_uri rq) CHR ''/'' ! 5"

inductive served ::
    "'s http1_env \<Rightarrow> http1_request \<Rightarrow> 's Server \<Rightarrow> 's Server \<Rightarrow> bool" for env rq a where
  by_datastore_api: "on_datastore rq a c ds \<Longrightarrow> api_effect env c ds rq (synced env ds a) a' \<Longrightarrow> served env rq a a'"
| by_ticket: "served env rq a (snd (ticket_request env rq a))"
| by_caches: "Auth a' = Auth a \<Longrightarrow> connectionList a' = connectionList a \<Longrightarrow> px_store a' = px_store a \<Longrightarrow>
    served env rq a a'"

lemma served_split:
  "served env rq a (snd x) \<Longrightarrow> served env rq a (snd y) \<Longrightarrow> served env rq a (snd (if b then x else y))"
  "served env rq a (snd p) \<Longrightarrow> served env rq a (snd (case p of (r, a') \<Rightarrow> (f r, a')))"
  by (simp_all add: case_prod_unfold)

lemma authenticated_served:
  assumes "authenticate (rq_cookie rq) a = Some C"
  shows "served env rq a (snd (authenticated_request env C rq a))"
proof -
  have api: "served env rq a (snd (case Client C of
        None \<Rightarrow> (Panics nil_dereference, synced env ds a)
      | Some c \<Rightarrow> datastore_api env c (AccessKeyID C) ds action rq (synced env ds a)))"
    if "ds = Split (rq_uri rq) CHR ''/'' ! 5" for ds action
  proof (cases "Client C")
    case None
    then show ?thesis by (simp add: by_caches)
  next
    case (Some c)
    then have "on_datastore rq a c ds" using assms that by (simp add: on_datastore_def)
    with Some show ?thesis by (simp add: by_datastore_api datastore_api_effect)
  qed
  have buckets: "served env rq a (snd (case Client C of
        None \<Rightarrow> (Panics nil_dereference, a)
      | Some c \<Rightarrow> (case f c of (r, cache') \<Rightarrow>
          (g r, with_caches ((server_caches a)\<lparr>bucketListCache := cache'\<rparr>) a))))" for f g
    by (simp add: by_caches split: option.split prod.split)
  show ?thesis
    unfolding authenticated_request_def Let_def
    by (intro served_split api refl buckets by_ticket) (simp_all add: by_caches)
qed

lemma ServeHTTP_served:
  assumes "ServeHTTP env rq a = (r, a')"
  shows "served env rq a a'"
proof -
  have "served env rq a (snd (ServeHTTP env rq a))"
  proof (cases "authenticate (rq_cookie rq) a")
    case None
    show ?thesis
      unfolding ServeHTTP_def None option.case by (intro served_split by_ticket) (simp add: by_caches)
  next
    case (Some C)
    show ?thesis
      unfolding ServeHTTP_def Some option.case
      by (intro served_split authenticated_served [OF Some]) (simp add: by_caches)
  qed
  with assms show ?thesis by simp
qed

section \<open>Lemmas: tickets\<close>

lemma map_of_filter_values:
  "distinct (map fst m) \<Longrightarrow> map_of (filter (\<lambda>(_, v). P v) m) k =
     (case map_of m k of Some v \<Rightarrow> if P v then Some v else None | None \<Rightarrow> None)"
  by (induction m) (auto simp: map_of_eq_None_iff split: option.splits)

lemma api_effect_tickets:
  "api_effect env c ds rq a a' \<Longrightarrow> Auth a' = Auth a \<and> connectionList a' = connectionList a"
  by (induction rule: api_effect.induct) simp_all

text \<open>Only requests for a ticket touch tickets and connections.\<close>

lemma other_requests_keep_tickets:
  assumes "ServeHTTP env rq a = (r, a')" "\<not> is_ticket_request rq"
  shows "Auth a' = Auth a \<and> connectionList a' = connectionList a"
  using ServeHTTP_served [OF assms(1)]
proof cases
  case (by_datastore_api c ds)
  from api_effect_tickets [OF this(2)] show ?thesis by simp
next
  case by_ticket
  with assms(2) show ?thesis by (simp add: ticket_request_def)
qed simp

section \<open>Lemmas: writes and announcements\<close>

definition tags_keep_bytes :: "'s set_tags \<Rightarrow> 's view \<Rightarrow> bool" where
  "tags_keep_bytes set_tags view \<longleftrightarrow> (\<forall>st b k m b' k'. view (snd (set_tags st b k m)) b' k' = view st b' k')"

text \<open>
  A write to the object store that reported an error. It may have taken effect all the same, as when the
  answer is lost after the store has committed it.
\<close>

definition failed_write :: "'s set_tags \<Rightarrow> 's s3_client \<Rightarrow> string \<Rightarrow> 's \<Rightarrow> 's \<Rightarrow> bool" where
  "failed_write set_tags c ds st st' \<longleftrightarrow>
     (\<exists>k m e. set_tags st ds k m = (Inl e, st'))
     \<or> (\<exists>k r n opts e used. PutObject c st ds k r n opts = ((Inl e, used), st'))"

lemma failed_writeI:
  "set_tags st ds k m = (res, st') \<Longrightarrow> res \<noteq> Inr () \<Longrightarrow> failed_write set_tags c ds st st'"
  "PutObject c st ds k r n opts = ((res', used), st') \<Longrightarrow> res' \<noteq> Inr () \<Longrightarrow> failed_write set_tags c ds st st'"
  unfolding failed_write_def by (cases res; force) (cases res'; force)

lemma notes_put_cases:
  assumes "notes_put set_tags c st ds q note = (r, st', changed)"
  obtains "st' = st" "\<not> changed"
  | m res where "set_tags st ds (S3Prefix (requested q ds) @ ''/index.json.blob'') m = (res, st')"
      "changed \<longleftrightarrow> res = Inr ()"
proof (cases "ReadTags c st (requested q ds)")
  case (Inr m)
  let ?m = "AList.update ''note'' (RawStdEncoding_EncodeToString (bytes_of_string note)) m"
  obtain res st1 where "set_tags st ds (S3Prefix (requested q ds) @ ''/index.json.blob'') ?m = (res, st1)"
    by fastforce
  with assms Inr show thesis
    by (intro that(2) [of ?m res]) (auto simp: notes_put_def Let_def split: sum.splits)
qed (use assms that(1) in \<open>simp add: notes_put_def\<close>)

lemma protected_put_cases:
  assumes "protected_put set_tags c st ds form = (r, st', changed)"
  obtains "st' = st" "\<not> changed"
  | m res where "set_tags st ds (S3Prefix (requested form ds) @ ''/index.json.blob'') m = (res, st')"
      "changed \<longleftrightarrow> res = Inr ()"
proof (cases "ReadTags c st (requested form ds)")
  case (Inr m)
  let ?m = "AList.update ''protected'' (case map_of m ''protected'' of
      Some tagvalue \<Rightarrow> if tagvalue = ''true'' then ''false'' else ''true'' | None \<Rightarrow> ''true'') m"
  obtain res st1 where "set_tags st ds (S3Prefix (requested form ds) @ ''/index.json.blob'') ?m = (res, st1)"
    by fastforce
  with assms Inr show thesis
    by (intro that(2) [of ?m res]) (auto simp: protected_put_def requested_form Let_def split: sum.splits)
qed (use assms that(1) in \<open>simp add: protected_put_def requested_form\<close>)

lemma upload_backup_log_cases:
  assumes "upload_backup_log classes c st ds q body n = (r, st', changed)"
  obtains res used where "PutObject c st ds (S3Prefix (requested q ds) @ ''/client.log.blob'') body n
      (putOptions (Backups classes) []) = ((res, used), st')" "changed \<longleftrightarrow> res = Inr ()"
proof -
  have key: "S3Prefix (InitWithQuery q zero_snapshot) = S3Prefix (requested q ds)"
    by (simp add: requested_def S3Prefix_def)
  obtain res used st1 where "PutObject c st ds (S3Prefix (requested q ds) @ ''/client.log.blob'') body n
      (putOptions (Backups classes) []) = ((res, used), st1)" by (metis prod.exhaust)
  with assms key show thesis
    by (intro that [of res used]) (auto simp: upload_backup_log_def split: sum.splits)
qed

lemma snapshots_delete_store:
  "snapshots_delete c st ds form pc = (r, st', pc') \<Longrightarrow> st' = snd (Delete c st (requested form ds))"
  by (auto simp: snapshots_delete_def requested_form Let_def split: prod.splits option.splits)

lemma Delete_other_bucket:
  assumes "removes_only c view" "b \<noteq> Datastore S"
  shows "view (snd (Delete c st S)) b k = view st b k"
  using assms unfolding Delete_def removes_only_def
  by (auto split: sum.split prod.split) (metis snd_conv)

lemma announce_drops:
  "caches_dropped ds (server_caches (announce env ds True a))"
  by (auto simp: announce_def server_caches_def publishDataStoreCacheInvalidation_def Let_def invalidate_local_drops
      split: prod.splits sum.splits)

text \<open>The keys a request of the datastore API may write.\<close>

definition may_write :: "http1_request \<Rightarrow> string \<Rightarrow> string \<Rightarrow> bool" where
  "may_write rq ds k \<longleftrightarrow>
     rq_method rq = ''POST'' \<and> k = S3Prefix (requested (rq_query rq) ds) @ ''/client.log.blob''
     \<or> rq_method rq = ''DELETE'' \<and> HasPrefix k (S3Prefix (requested (rq_form rq) ds) @ ''/'')"

lemma api_effect_writes:
  assumes laws: "removes_only c view" "lists_prefix c" "puts_only c view"
      "tags_keep_bytes (h1_set_tags env c) view"
    and out: "b \<noteq> ds \<or> \<not> may_write rq ds k"
    and run: "api_effect env c ds rq a a'"
  shows "view (px_store a') b k = view (px_store a) b k"
proof -
  have tags: "view st' b k = view st b k" if "h1_set_tags env c st ds key m = (res, st')" for st st' key m res
    using laws(4) that unfolding tags_keep_bytes_def by (metis snd_conv)
  from run show ?thesis
  proof cases
    case (on_note nt r st' changed)
    from on_note(3) show ?thesis
      by (cases rule: notes_put_cases) (simp_all add: on_note(1) tags)
  next
    case (on_protection r st' changed)
    from on_protection(3) show ?thesis
      by (cases rule: protected_put_cases) (simp_all add: on_protection(1) tags)
  next
    case (on_log r st' changed)
    from on_log(3) obtain res used where
      put: "PutObject c (px_store a) ds (S3Prefix (requested (rq_query rq) ds) @ ''/client.log.blob'') (rq_body rq)
        (rq_length rq) (putOptions (Backups (h1_classes env)) []) = ((res, used), st')"
      by (rule upload_backup_log_cases)
    have "b \<noteq> ds \<or> k \<noteq> S3Prefix (requested (rq_query rq) ds) @ ''/client.log.blob''"
      using out on_log(2) by (auto simp: may_write_def)
    from puts_onlyD [OF laws(3) put this] show ?thesis by (simp add: on_log(1))
  next
    case (on_snapshot r st' pc)
    have ds: "Datastore (requested (rq_form rq) ds) = ds" by (simp add: requested_def)
    have "view (snd (Delete c (px_store a) (requested (rq_form rq) ds))) b k = view (px_store a) b k"
    proof (cases "b = ds")
      case True
      then have "\<not> HasPrefix k (S3Prefix (requested (rq_form rq) ds) @ ''/'')"
        using out on_snapshot(2) by (auto simp: may_write_def)
      from Delete_only_prefix [OF laws(1,2) this] show ?thesis .
    qed (use Delete_other_bucket [OF laws(1)] ds in metis)
    then show ?thesis by (simp add: on_snapshot(1) snapshots_delete_store [OF on_snapshot(3)])
  qed simp
qed

lemma api_effect_announced:
  assumes run: "api_effect env c ds rq a a'" and changed: "px_store a' \<noteq> px_store a"
  shows "caches_dropped ds (server_caches a')
    \<or> rq_method rq \<noteq> ''DELETE'' \<and> failed_write (h1_set_tags env c) c ds (px_store a) (px_store a')"
  using run
proof cases
  case (on_note nt r st' changed')
  from on_note(3) changed on_note(2) show ?thesis
    by (cases rule: notes_put_cases) (auto simp: on_note(1) announce_drops intro: failed_writeI)
next
  case (on_protection r st' changed')
  from on_protection(3) changed on_protection(2) show ?thesis
    by (cases rule: protected_put_cases) (auto simp: on_protection(1) announce_drops intro: failed_writeI)
next
  case (on_log r st' changed')
  from on_log(3) changed on_log(2) show ?thesis
    by (cases rule: upload_backup_log_cases) (auto simp: on_log(1) announce_drops intro: failed_writeI)
next
  case on_snapshot
  then show ?thesis by (simp add: announce_drops)
qed (use changed in simp)

section \<open>Properties\<close>

text \<open>
  C9: The HTTP/1.1 API writes only what the request names. If the bytes under some bucket and key
  differ after a request, then the request was authenticated, the bucket is the datastore of its URI, and
  either it was a POST and the key is the client log of the snapshot in its query, or it was a
  DELETE and the key is under the prefix of the snapshot in its form. So no request without a ticket
  changes a stored byte, and none reaches chunks, shared indexes or another snapshot.
\<close>

theorem http1_writes_in_place:
  assumes run: "ServeHTTP env rq a = (r, a')"
    and laws: "\<And>c. \<exists>te. authenticate (rq_cookie rq) a = Some te \<and> Client te = Some c \<Longrightarrow>
      removes_only c view \<and> lists_prefix c \<and> puts_only c view \<and> tags_keep_bytes (h1_set_tags env c) view"
    and changed: "view (px_store a') b k \<noteq> view (px_store a) b k"
  shows "authenticate (rq_cookie rq) a \<noteq> None \<and> b = Split (rq_uri rq) CHR ''/'' ! 5 \<and> may_write rq b k"
  using ServeHTTP_served [OF run]
proof cases
  case (by_datastore_api c ds)
  then have auth: "authenticate (rq_cookie rq) a \<noteq> None" "ds = Split (rq_uri rq) CHR ''/'' ! 5"
    by (auto simp: on_datastore_def)
  have l: "removes_only c view" "lists_prefix c" "puts_only c view" "tags_keep_bytes (h1_set_tags env c) view"
    using laws [of c] by_datastore_api(1) by (auto simp: on_datastore_def)
  have "b = ds \<and> may_write rq ds k"
    using api_effect_writes [OF l _ by_datastore_api(2), of b k] changed by auto
  with auth show ?thesis by blast
next
  case by_ticket
  with changed show ?thesis by (simp add: ticket_request_store)
next
  case by_caches
  with changed show ?thesis by simp
qed

text \<open>
  C26: A change is announced, unless the store said that it failed. If a request leaves the object store
  different from before, then afterwards no cache of the process holds an answer derived from the
  datastore of the request, and no usage figure of it counts as fresh. The exception is exact: the
  request is not a deletion, and the change was made by one tag call or upload on that datastore which
  reported an error although it took effect. A deletion is announced however it ends.
\<close>

theorem http1_changes_are_announced:
  assumes run: "ServeHTTP env rq a = (r, a')" and changed: "px_store a' \<noteq> px_store a"
  defines "ds \<equiv> Split (rq_uri rq) CHR ''/'' ! 5"
  shows "caches_dropped ds (server_caches a')
    \<or> rq_method rq \<noteq> ''DELETE'' \<and> (\<exists>te c. authenticate (rq_cookie rq) a = Some te \<and> Client te = Some c
        \<and> failed_write (h1_set_tags env c) c ds (px_store a) (px_store a'))"
  using ServeHTTP_served [OF run]
proof cases
  case (by_datastore_api c ds')
  then have "ds' = ds" and c: "\<exists>te. authenticate (rq_cookie rq) a = Some te \<and> Client te = Some c"
    by (simp_all add: on_datastore_def ds_def)
  with api_effect_announced [OF by_datastore_api(2)] changed show ?thesis by auto
next
  case by_ticket
  with changed show ?thesis by (simp add: ticket_request_store)
next
  case by_caches
  with changed show ?thesis by simp
qed

section \<open>A server in use\<close>

definition quiet_flags :: report_flags where
  "quiet_flags = \<lparr>reportDataStoreUsage = False, reportArchiveSize = False, reportEncryption = False,
     reportGCStats = False, snapshotSizeMode = SnapshotSizeLogical, datastoreCapacity = 0\<rparr>"

definition sample_http1_env :: "mem_store http1_env" where
  "sample_http1_env =
     \<lparr>h1_flags = quiet_flags, h1_settings = \<lparr>S3Endpoint = ''s3'', TicketExpire = 60\<rparr>,
      h1_classes = \<lparr>Chunks = [], Backups = [], Indexed = []\<rparr>,
      h1_reports = \<lparr>re_clock = (\<lambda>_. (5, 5)), re_size_order = [], re_mode_order = [],
        re_zstd = (\<lambda>_. Inl (Error ''zstd'')), re_manifest = (\<lambda>_. Inl (Error ''json'')),
        re_stats = (\<lambda>_. Inl (Error ''json''))\<rparr>,
      h1_minio_New = (\<lambda>_ _ _. Inr mem_client), h1_set_tags = PutObjectTagging,
      h1_credentials = (\<lambda>_. (''root@pbs'', ''secret'')), h1_read_err = None, h1_calls = good_calls, h1_ticks = [],
      h1_ticket = ''t'', h1_now = 5, h1_later = 5, h1_unix = 5\<rparr>"

definition login_request :: http1_request where
  "login_request =
     \<lparr>rq_method = ''POST'', rq_uri = ''/api2/json/access/ticket'', rq_query = [], rq_body = bytes_NewReader [],
      rq_length = 0, rq_cookie = [], rq_content_type = ''application/json'', rq_form = [], rq_form_err = None,
      rq_hijacker = False, rq_hijack = Inl (Error ''hijack''), rq_buffered = 0\<rparr>"

definition delete_request :: http1_request where
  "delete_request = login_request\<lparr>rq_method := ''DELETE'', rq_uri := ''/api2/json/admin/datastore/ds/snapshots'',
     rq_cookie := ''PBSAuthCookie=t'', rq_form := tagged_query\<rparr>"

definition root_ticket :: "mem_store TicketEntry" where
  "root_ticket = \<lparr>AccessKeyID = ''root'', SecretAccessKey = ''secret'', Endpoint = ''s3'', Client = Some mem_client,
     ExpireAt = 65\<rparr>"

definition used_server :: "mem_store Server" where
  "used_server = (idle_server tagged_store)\<lparr>Auth := [(''t'', root_ticket)]\<rparr>"

lemma sample_cookie: "cookie_ticket ''PBSAuthCookie=t'' = Some ''t''" "cookie_ticket [] = None"
  using cookie_ticket_value [of "''t''"] by (simp_all add: cookie_ticket.simps)

lemma used_server_client:
  "(\<exists>te. authenticate (rq_cookie delete_request) used_server = Some te \<and> Client te = Some c) \<Longrightarrow> c = mem_client"
  by (auto simp: delete_request_def login_request_def used_server_def authenticate_def sample_cookie root_ticket_def)

lemma mem_tags_keep_bytes: "tags_keep_bytes (PutObjectTagging mem_client) mem_view"
  by (auto simp: tags_keep_bytes_def mem_view_def mem_client_def map_of_update split: option.splits if_splits)

lemma delete_effect:
  "px_store (snd (ServeHTTP sample_http1_env delete_request used_server)) = []"
proof -
  have del: "snd (Delete mem_client tagged_store (requested tagged_query ''ds'')) = []"
    by (simp add: Delete_def tagged_key mem_client_def tagged_store_def mem_info_def HasPrefix_def)
  have "snapshots_delete mem_client tagged_store ''ds'' tagged_query pc =
      (let (e, st) = Delete mem_client tagged_store (requested tagged_query ''ds'')
       in (case e of None \<Rightarrow> Ok (requested tagged_query ''ds'') | Some e \<Rightarrow> Err 500 e, st,
           invalidateDataStoreCachesLocal ''ds'' pc))" for pc
    by (simp add: snapshots_delete_def requested_form Let_def split: prod.split option.split)
  with del have run: "fst (snd (snapshots_delete mem_client tagged_store ''ds'' tagged_query pc)) = []" for pc
    by (simp add: case_prod_unfold)
  have path: "Split ''/api2/json/admin/datastore/ds/snapshots'' CHR ''/''
      = [[], ''api2'', ''json'', ''admin'', ''datastore'', ''ds'', ''snapshots'']"
    by simp
  show ?thesis
    using run
    by (simp add: ServeHTTP_def authenticated_request_def datastore_api_def path Let_def delete_request_def
        login_request_def used_server_def idle_server_def authenticate_def sample_cookie root_ticket_def HasPrefix_def
        case_prod_unfold)
qed

theorem http1_writes_in_place_witness:
  "''ds'' = Split (rq_uri delete_request) CHR ''/'' ! 5
   \<and> may_write delete_request ''ds'' ''backups/101|5|vm/index.json.blob''"
proof -
  have "mem_view (px_store (snd (ServeHTTP sample_http1_env delete_request used_server))) ''ds''
      ''backups/101|5|vm/index.json.blob'' \<noteq> mem_view (px_store used_server) ''ds'' ''backups/101|5|vm/index.json.blob''"
    unfolding delete_effect by (simp add: mem_view_def used_server_def idle_server_def tagged_store_def)
  moreover have "removes_only c mem_view \<and> lists_prefix c \<and> puts_only c mem_view
      \<and> tags_keep_bytes (h1_set_tags sample_http1_env c) mem_view"
    if "\<exists>te. authenticate (rq_cookie delete_request) used_server = Some te \<and> Client te = Some c" for c
    using used_server_client [OF that] by (simp add: mem_laws mem_tags_keep_bytes sample_http1_env_def)
  ultimately show ?thesis
    using http1_writes_in_place [of sample_http1_env delete_request used_server, OF prod.collapse [symmetric],
        of mem_view "''ds''" "''backups/101|5|vm/index.json.blob''"] by blast
qed

theorem http1_changes_are_announced_witness:
  "caches_dropped ''ds'' (server_caches (snd (ServeHTTP sample_http1_env delete_request used_server)))"
proof -
  have "px_store (snd (ServeHTTP sample_http1_env delete_request used_server)) \<noteq> px_store used_server"
    unfolding delete_effect by (simp add: used_server_def idle_server_def tagged_store_def)
  from http1_changes_are_announced [OF prod.collapse [symmetric] this] show ?thesis
    by (simp add: delete_request_def)
qed

end
