(* ===== verification/Logins.thy ===== *)
theory Logins
  imports ProxyServer
begin

text \<open>
  Requests for a ticket, running at the same time (the last branch of \<open>ServeHTTP\<close> in
  \<open>cmd/pmoxs3backuproxy/main.go\<close>). \<open>net/http\<close> runs every request in a goroutine of its own, and \<open>connectionList\<close> is
  a plain map that no lock protects: a login registers its client there before the object store has
  answered for it, and takes it out again when the answer is an error.

  A login is a process with a phase, and a step of it is one access to the shared maps or one call.
  The steps of any number of logins, of other requests and of the ticket collector interleave freely.
  Single accesses to a map are atomic here; in Go, unsynchronised ones can also crash the process.
\<close>

section \<open>A login, step by step\<close>

datatype 's login_phase =
    Arrived
  | Unknown
  | Created "'s s3_client"
  | Registered
  | Probing "'s s3_client option"
  | Refused goerr
  | Listed "string list"
  | Known
  | Taken "'s s3_client option"
  | Answered "string reply"
  | Crashed

record 's login =
  lg_entry :: "'s TicketEntry"
  lg_ticket :: string
  lg_phase :: "'s login_phase"

definition login_user :: "'s login \<Rightarrow> string" where
  "login_user l = AccessKeyID (lg_entry l)"

definition new_login :: "'s http1_env \<Rightarrow> string \<Rightarrow> string \<Rightarrow> 's login" where
  "new_login env user password =
     \<lparr>lg_entry = \<lparr>AccessKeyID = hd (Split user CHR ''@''), SecretAccessKey = password,
        Endpoint = S3Endpoint (h1_settings env), Client = None,
        ExpireAt = h1_unix env + TicketExpire (h1_settings env)\<rparr>,
      lg_ticket = h1_ticket env, lg_phase = Arrived\<rparr>"

text \<open>
  The lookup; the new client; its registration; the read of the map before the probe, whose nil value
  would be dereferenced; the probe; the removal after a refusal; the bucket list stored in its cache; the
  second read of the map; and the ticket.
\<close>

definition login_step :: "'s http1_env \<Rightarrow> 's login \<Rightarrow> 's Server \<Rightarrow> 's login \<times> 's Server" where
  "login_step env l a =
     (let username = login_user l; te = lg_entry l; goto = (\<lambda>p. l\<lparr>lg_phase := p\<rparr>) in
      case lg_phase l of
        Arrived \<Rightarrow>
          (case map_of (connectionList a) username of Some _ \<Rightarrow> (goto Known, a) | None \<Rightarrow> (goto Unknown, a))
      | Unknown \<Rightarrow>
          (case h1_minio_New env (Endpoint te) username (SecretAccessKey te) of
             Inl e \<Rightarrow> (goto (Answered (Err 403 e)), a)
           | Inr c \<Rightarrow> (goto (Created c), a))
      | Created c \<Rightarrow> (goto Registered, a\<lparr>connectionList := AList.update username c (connectionList a)\<rparr>)
      | Registered \<Rightarrow> (goto (Probing (map_of (connectionList a) username)), a)
      | Probing None \<Rightarrow> (goto Crashed, a)
      | Probing (Some c) \<Rightarrow>
          (case ListBuckets c (px_store a) of
             Inl e \<Rightarrow> (goto (Refused e), a)
           | Inr buckets \<Rightarrow> (goto (Listed buckets), a))
      | Refused e \<Rightarrow>
          (goto (Answered (Err 403 e)), a\<lparr>connectionList := AList.delete username (connectionList a)\<rparr>)
      | Listed buckets \<Rightarrow>
          (goto Known,
           with_caches ((server_caches a)\<lparr>bucketListCache :=
             Store (h1_later env) (username @ ''@'' @ Endpoint te) buckets (bucketListCache (server_caches a))\<rparr>) a)
      | Known \<Rightarrow> (goto (Taken (map_of (connectionList a) username)), a)
      | Taken client \<Rightarrow>
          (goto (Answered (Ok (lg_ticket l))),
           a\<lparr>Auth := AList.update (lg_ticket l) (te\<lparr>Client := client\<rparr>) (Auth a)\<rparr>)
      | Answered r \<Rightarrow> (l, a)
      | Crashed \<Rightarrow> (l, a))"

text \<open>A login that nothing interrupts is the handler of \<open>ProxyApi\<close>.\<close>

lemma delete_update_new: "map_of m k = None \<Longrightarrow> AList.delete k (AList.update k v m) = m"
  by (induction m) (auto simp: AList.delete_eq filter_id_conv map_of_eq_None_iff split: if_splits)

lemma login_alone:
  assumes "access_ticket (h1_settings env) (h1_minio_New env) (h1_ticket env) (h1_unix env) (h1_later env) user password a
    = (r, a')"
  shows "((\<lambda>(l, a). login_step env l a) ^^ 8) (new_login env user password, a)
    = ((new_login env user password)\<lparr>lg_phase := Answered r\<rparr>, a')"
proof (cases "map_of (connectionList a) (hd (Split user CHR ''@''))")
  case (Some c)
  with assms show ?thesis
    by (auto simp: numeral_eq_Suc login_step_def new_login_def login_user_def access_ticket_def Let_def)
next
  case new: None
  show ?thesis
  proof (cases "h1_minio_New env (S3Endpoint (h1_settings env)) (hd (Split user CHR ''@'')) password")
    case (Inl e)
    with new assms show ?thesis
      by (auto simp: numeral_eq_Suc login_step_def new_login_def login_user_def access_ticket_def Let_def)
  next
    case (Inr c)
    with new assms show ?thesis
      by (auto simp: numeral_eq_Suc login_step_def new_login_def login_user_def access_ticket_def Let_def map_of_update
          delete_update_new server_caches_def with_caches_def split: sum.splits)
  qed
qed

section \<open>Logins and requests together\<close>

text \<open>
  Two records beside the program: the clients, by user name, for which a probe was answered by the object
  store without an error, and the user names of which a login looked up its connection while another
  login of the same name was between its own lookup and the answer to its probe.
\<close>

record 's login_sys =
  ls_server :: "'s Server"
  ls_logins :: "nat \<Rightarrow> 's login option"
  accepted :: "(string \<times> 's s3_client) set"
  raced :: "string set"

fun unsettled :: "'s login_phase \<Rightarrow> bool" where
  "unsettled Unknown = True"
| "unsettled (Created c) = True"
| "unsettled Registered = True"
| "unsettled (Probing r) = True"
| "unsettled (Refused e) = True"
| "unsettled _ = False"

fun probe_accepts :: "'s login_phase \<Rightarrow> 's \<Rightarrow> 's s3_client set" where
  "probe_accepts (Probing (Some c)) st = (case ListBuckets c st of Inl e \<Rightarrow> {} | Inr buckets \<Rightarrow> {c})"
| "probe_accepts _ st = {}"

text \<open>The phases of the logins of one user name.\<close>

definition phases :: "(nat \<Rightarrow> 's login option) \<Rightarrow> string \<Rightarrow> nat \<Rightarrow> 's login_phase option" where
  "phases logins u i =
     (case logins i of Some l \<Rightarrow> if login_user l = u then Some (lg_phase l) else None | None \<Rightarrow> None)"

definition others_unsettled :: "(nat \<Rightarrow> 's login_phase option) \<Rightarrow> nat \<Rightarrow> bool" where
  "others_unsettled ph i \<longleftrightarrow> (\<exists>j p. j \<noteq> i \<and> ph j = Some p \<and> unsettled p)"

definition overlap :: "(nat \<Rightarrow> 's login option) \<Rightarrow> nat \<Rightarrow> 's login \<Rightarrow> string set" where
  "overlap logins i l =
     (case lg_phase l of
        Arrived \<Rightarrow> if others_unsettled (phases logins (login_user l)) i then {login_user l} else {}
      | _ \<Rightarrow> {})"

definition advance :: "'s http1_env \<Rightarrow> nat \<Rightarrow> 's login_sys \<Rightarrow> 's login_sys" where
  "advance env i s =
     (case ls_logins s i of
        None \<Rightarrow> s
      | Some l \<Rightarrow>
          (case login_step env l (ls_server s) of
             (l', a') \<Rightarrow>
               s\<lparr>ls_server := a', ls_logins := (ls_logins s)(i \<mapsto> l'),
                 accepted := accepted s \<union> {login_user l} \<times> probe_accepts (lg_phase l) (px_store (ls_server s)),
                 raced := raced s \<union> overlap (ls_logins s) i l\<rparr>))"

definition login_start :: "'s login_sys \<Rightarrow> bool" where
  "login_start s \<longleftrightarrow>
     Auth (ls_server s) = [] \<and> connectionList (ls_server s) = [] \<and> ls_logins s = (\<lambda>_. None)
     \<and> accepted s = {} \<and> raced s = {}"

inductive login_sys_step :: "'s login_sys \<Rightarrow> 's login_sys \<Rightarrow> bool" where
  arrive:
    "ls_logins s i = None \<Longrightarrow> is_ticket_request rq \<Longrightarrow> ticket_credentials env rq = Inr (user, password) \<Longrightarrow>
     login_sys_step s (s\<lparr>ls_logins := (ls_logins s)(i \<mapsto> new_login env user password)\<rparr>)"
| progress: "login_sys_step s (advance env i s)"
| request:
    "ServeHTTP env rq (ls_server s) = (r, a') \<Longrightarrow> \<not> is_ticket_request rq \<Longrightarrow>
     login_sys_step s (s\<lparr>ls_server := a'\<rparr>)"
| collect: "login_sys_step s (s\<lparr>ls_server := ticketGC now (ls_server s)\<rparr>)"
| outside: "login_sys_step s (s\<lparr>ls_server := (ls_server s)\<lparr>px_store := st\<rparr>\<rparr>)"

section \<open>One user name\<close>

text \<open>
  What a step of a login does to the connection of its own user name: the connection before, the phases,
  the connection after, and the clients the step saw accepted.
\<close>

inductive phase_step ::
    "'s s3_client option \<Rightarrow> 's login_phase \<Rightarrow> 's login_phase \<Rightarrow> 's s3_client option \<Rightarrow> 's s3_client set \<Rightarrow> bool" where
  known: "phase_step (Some c) Arrived Known (Some c) {}"
| unknown: "phase_step None Arrived Unknown None {}"
| no_client: "phase_step r Unknown (Answered x) r {}"
| created: "phase_step r Unknown (Created c) r {}"
| registered: "phase_step r (Created c) Registered (Some c) {}"
| probing: "phase_step r Registered (Probing r) r {}"
| crashed: "phase_step r (Probing None) Crashed r {}"
| refused: "phase_step r (Probing (Some c)) (Refused e) r {}"
| listed: "phase_step r (Probing (Some c)) (Listed b) r {c}"
| removed: "phase_step r (Refused e) (Answered x) None {}"
| cached: "phase_step r (Listed b) Known r {}"
| taken: "phase_step r Known (Taken r) r {}"
| issued: "phase_step r (Taken r') (Answered x) r {}"
| answered: "phase_step r (Answered x) (Answered x) r {}"
| stuck: "phase_step r Crashed Crashed r {}"

lemma login_step_effect:
  assumes "login_step env l a = (l', a')"
  shows "lg_entry l' = lg_entry l" "lg_ticket l' = lg_ticket l"
    and "phase_step (map_of (connectionList a) (login_user l)) (lg_phase l) (lg_phase l')
      (map_of (connectionList a') (login_user l)) (probe_accepts (lg_phase l) (px_store a))"
    and "u \<noteq> login_user l \<Longrightarrow> map_of (connectionList a') u = map_of (connectionList a) u"
    and "Auth a' = (case lg_phase l of
        Taken r \<Rightarrow> AList.update (lg_ticket l) ((lg_entry l)\<lparr>Client := r\<rparr>) (Auth a) | _ \<Rightarrow> Auth a)"
  using assms unfolding login_step_def Let_def
  by (auto simp: map_of_update map_of_delete intro: phase_step.intros
      split: login_phase.splits option.splits sum.splits)

text \<open>
  The invariant of a user name without overlapping logins: the connection, the accepted clients, and the
  phases of its logins.
\<close>

definition settled :: "'s s3_client option \<Rightarrow> 's s3_client set \<Rightarrow> (nat \<Rightarrow> 's login_phase option) \<Rightarrow> bool" where
  "settled r acc ph \<longleftrightarrow> (\<exists>c. r = Some c \<and> c \<in> acc) \<and> (\<forall>i p. ph i = Some p \<longrightarrow> \<not> unsettled p)"

fun phase_ok ::
    "'s s3_client option \<Rightarrow> 's s3_client set \<Rightarrow> (nat \<Rightarrow> 's login_phase option) \<Rightarrow> 's login_phase \<Rightarrow> bool" where
  "phase_ok r acc ph Unknown = (r = None)"
| "phase_ok r acc ph (Created c) = (r = None)"
| "phase_ok r acc ph Registered = (r \<noteq> None)"
| "phase_ok r acc ph (Probing r') = (r' = r \<and> r \<noteq> None)"
| "phase_ok r acc ph (Listed b) = settled r acc ph"
| "phase_ok r acc ph Known = settled r acc ph"
| "phase_ok r acc ph (Taken r') = (\<exists>c. r' = Some c \<and> c \<in> acc)"
| "phase_ok r acc ph _ = True"

definition user_ok :: "'s s3_client option \<Rightarrow> 's s3_client set \<Rightarrow> (nat \<Rightarrow> 's login_phase option) \<Rightarrow> bool" where
  "user_ok r acc ph \<longleftrightarrow>
     (\<forall>i p. ph i = Some p \<longrightarrow> phase_ok r acc ph p)
     \<and> (\<forall>i j p q. ph i = Some p \<longrightarrow> ph j = Some q \<longrightarrow> unsettled p \<longrightarrow> unsettled q \<longrightarrow> i = j)
     \<and> (r \<noteq> None \<longrightarrow> settled r acc ph \<or> (\<exists>i p. ph i = Some p \<and> unsettled p))"

text \<open>
  A step between phases before or after the window keeps who is in it; a step within the window, into it and
  out of it concerns one login only, and the others of its name are then elsewhere.
\<close>

lemma user_okD:
  assumes "user_ok r acc ph" "ph i = Some p"
  shows "phase_ok r acc ph p"
    and "unsettled p \<Longrightarrow> ph j = Some q \<Longrightarrow> j \<noteq> i \<Longrightarrow> \<not> unsettled q"
    and "unsettled p \<Longrightarrow> ph j = Some q \<Longrightarrow> j \<noteq> i \<Longrightarrow> acc \<subseteq> acc' \<Longrightarrow> phase_ok r' acc' ph' q"
proof -
  show ok: "phase_ok r acc ph p" "unsettled p \<Longrightarrow> ph j = Some q \<Longrightarrow> j \<noteq> i \<Longrightarrow> \<not> unsettled q"
    using assms unfolding user_ok_def by blast+
  assume *: "unsettled p" "ph j = Some q" "j \<noteq> i" "acc \<subseteq> acc'"
  have "\<not> settled r acc ph" using assms(2) *(1) unfolding settled_def by blast
  moreover have "phase_ok r acc ph q" using assms(1) *(2) unfolding user_ok_def by blast
  ultimately show "phase_ok r' acc' ph' q" using ok(2) [OF *(1-3)] *(4) by (cases q) auto
qed

lemma settled_upd:
  assumes "\<And>p. ph i = Some p \<Longrightarrow> \<not> unsettled p" "\<not> unsettled p'"
  shows "settled r acc (ph(i \<mapsto> p')) = settled r acc ph"
proof -
  have "(\<forall>j q. (ph(i \<mapsto> p')) j = Some q \<longrightarrow> \<not> unsettled q) \<longleftrightarrow> (\<forall>j q. ph j = Some q \<longrightarrow> \<not> unsettled q)"
    using assms by (metis fun_upd_apply option.inject)
  then show ?thesis unfolding settled_def by blast
qed

lemma user_ok_outside:
  assumes ok: "user_ok r acc ph" and out: "\<And>p. ph i = Some p \<Longrightarrow> \<not> unsettled p" "\<not> unsettled p'"
    and p': "phase_ok r acc ph p'"
  shows "user_ok r acc (ph(i \<mapsto> p'))"
proof -
  have same: "phase_ok r acc (ph(i \<mapsto> p')) q = phase_ok r acc ph q" for q
    using settled_upd [of ph i p' r acc] out by (cases q) auto
  have "r \<noteq> None \<Longrightarrow> settled r acc (ph(i \<mapsto> p')) \<or> (\<exists>j q. (ph(i \<mapsto> p')) j = Some q \<and> unsettled q)"
  proof -
    assume "r \<noteq> None"
    with ok consider "settled r acc ph" | j q where "ph j = Some q" "unsettled q" unfolding user_ok_def by blast
    then show ?thesis
    proof cases
      case (2 j q)
      then have "j \<noteq> i" using out(1) by blast
      with 2 show ?thesis by (intro disjI2 exI [of _ j] exI [of _ q]) simp
    qed (simp add: settled_upd out)
  qed
  then show ?thesis using ok p' out(2) unfolding user_ok_def same by (auto split: if_splits)
qed

lemma user_ok_inside:
  assumes ok: "user_ok r acc ph" "ph i = Some p" "unsettled p" and p': "unsettled p'" "phase_ok r' acc ph' p'"
  shows "user_ok r' acc (ph(i \<mapsto> p'))"
proof -
  have "phase_ok r' acc (ph(i \<mapsto> p')) p'" using p' by (cases p') auto
  moreover note user_okD(3) [OF ok(1,2,3), of _ _ acc] user_okD(2) [OF ok]
  ultimately show ?thesis using p'(1) unfolding user_ok_def by (auto split: if_splits)
qed

lemma user_ok_enter:
  assumes ok: "user_ok None acc ph" and none: "\<And>j q. ph j = Some q \<Longrightarrow> \<not> unsettled q"
  shows "user_ok None acc (ph(i \<mapsto> Unknown))"
proof -
  have "phase_ok None acc ph' q" if "ph j = Some q" for j q ph'
  proof -
    have "phase_ok None acc ph q" using ok that unfolding user_ok_def by blast
    then show ?thesis using none [OF that] by (cases q) (auto simp: settled_def)
  qed
  then show ?thesis using none unfolding user_ok_def by (auto split: if_splits)
qed

lemma user_ok_leave:
  assumes ok: "user_ok r acc ph" "ph i = Some p" "unsettled p" and p': "\<not> unsettled p'" "acc \<subseteq> acc'"
    and left: "r' = None \<and> p' = Answered x \<or> p' = Listed b \<and> (\<exists>c. r' = Some c \<and> c \<in> acc')"
  shows "user_ok r' acc' (ph(i \<mapsto> p'))"
proof -
  have "\<not> unsettled q" if "(ph(i \<mapsto> p')) j = Some q" for j q
    using that user_okD(2) [OF ok] p'(1) by (auto split: if_splits)
  then have "settled r' acc' (ph(i \<mapsto> p')) \<or> r' = None \<and> p' = Answered x"
    and none: "\<And>j q. (ph(i \<mapsto> p')) j = Some q \<Longrightarrow> \<not> unsettled q"
    using left unfolding settled_def by blast+
  moreover have "phase_ok r' acc' (ph(i \<mapsto> p')) q" if "ph j = Some q" "j \<noteq> i" for j q
    using user_okD(3) [OF ok that p'(2)] .
  ultimately show ?thesis using left unfolding user_ok_def by (auto split: if_splits)
qed

lemma user_ok_step:
  assumes step: "phase_step r p p' r' new" and ok: "user_ok r acc ph" and ph: "ph i = Some p"
    and alone: "p = Arrived \<Longrightarrow> \<not> others_unsettled ph i"
  shows "user_ok r' (acc \<union> new) (ph(i \<mapsto> p'))"
  using step
proof cases
  case (known c)
  have "\<not> unsettled q" if "ph j = Some q" for j q
    using that alone ph known unfolding others_unsettled_def by (cases "j = i") auto
  then have "settled r acc ph" using ok known unfolding user_ok_def by blast
  with known ph ok show ?thesis by (auto intro!: user_ok_outside)
next
  case unknown
  have "\<not> unsettled q" if "ph j = Some q" for j q
    using that alone ph unknown unfolding others_unsettled_def by (cases "j = i") auto
  with ok unknown show ?thesis by (auto intro: user_ok_enter)
next
  case (no_client x)
  with user_okD(1) [OF ok ph] show ?thesis using user_ok_leave [OF ok ph, of "Answered x" acc None x] by simp
next
  case (created c)
  with user_okD(1) [OF ok ph] show ?thesis using user_ok_inside [OF ok ph, of "Created c" r] by simp
next
  case (registered c)
  then show ?thesis using user_ok_inside [OF ok ph, of Registered "Some c"] by simp
next
  case probing
  with user_okD(1) [OF ok ph] show ?thesis using user_ok_inside [OF ok ph, of "Probing r" r] by simp
next
  case crashed
  with user_okD(1) [OF ok ph] show ?thesis by auto
next
  case (refused c e)
  then show ?thesis using user_ok_inside [OF ok ph, of "Refused e" r] by simp
next
  case (listed c b)
  with user_okD(1) [OF ok ph] show ?thesis
    using user_ok_leave [OF ok ph, of "Listed b" "acc \<union> {c}" r _ b] by auto
next
  case (removed e x)
  then show ?thesis using user_ok_leave [OF ok ph, of "Answered x" acc None x] by simp
next
  case (cached b)
  with user_okD(1) [OF ok ph] ph show ?thesis by (auto intro!: user_ok_outside [OF ok])
next
  case taken
  with user_okD(1) [OF ok ph] have "settled r acc ph" by simp
  then obtain c where "r = Some c" "c \<in> acc" unfolding settled_def by blast
  with taken ph user_ok_outside [OF ok, of i "Taken r"] show ?thesis by simp
qed (use ph in \<open>auto intro!: user_ok_outside [OF ok]\<close>)

section \<open>The invariant\<close>

definition accepted_for :: "'s login_sys \<Rightarrow> string \<Rightarrow> 's s3_client set" where
  "accepted_for s u = {c. (u, c) \<in> accepted s}"

definition connection :: "'s login_sys \<Rightarrow> string \<Rightarrow> 's s3_client option" where
  "connection s u = map_of (connectionList (ls_server s)) u"

definition names_ok :: "'s login_sys \<Rightarrow> bool" where
  "names_ok s \<longleftrightarrow> (\<forall>u. u \<notin> raced s \<longrightarrow> user_ok (connection s u) (accepted_for s u) (phases (ls_logins s) u))"

definition tickets_ok :: "'s login_sys \<Rightarrow> bool" where
  "tickets_ok s \<longleftrightarrow>
     distinct (map fst (Auth (ls_server s)))
     \<and> (\<forall>t te. map_of (Auth (ls_server s)) t = Some te \<longrightarrow> AccessKeyID te \<notin> raced s \<longrightarrow>
          (\<exists>c. Client te = Some c \<and> c \<in> accepted_for s (AccessKeyID te)))"

definition login_inv :: "'s login_sys \<Rightarrow> bool" where
  "login_inv s \<longleftrightarrow> names_ok s \<and> tickets_ok s"

lemma phases_upd:
  "phases (logins(i \<mapsto> l)) u = (phases logins u)(i := if login_user l = u then Some (lg_phase l) else None)"
  by (auto simp: phases_def)

lemma advance_Some:
  assumes "ls_logins s i = Some l" "login_step env l (ls_server s) = (l', a')"
  shows "advance env i s = s\<lparr>ls_server := a', ls_logins := (ls_logins s)(i \<mapsto> l'),
    accepted := accepted s \<union> {login_user l} \<times> probe_accepts (lg_phase l) (px_store (ls_server s)),
    raced := raced s \<union> overlap (ls_logins s) i l\<rparr>"
  using assms by (simp add: advance_def)

lemma names_ok_advance:
  assumes l: "ls_logins s i = Some l" "login_step env l (ls_server s) = (l', a')" and ok: "names_ok s"
  shows "names_ok (advance env i s)"
  unfolding names_ok_def
proof (intro allI impI)
  fix u
  let ?t = "advance env i s" and ?ph = "phases (ls_logins s) u"
  note t = advance_Some [OF l] and eff = login_step_effect [OF l(2)]
  assume u: "u \<notin> raced ?t"
  then have old: "user_ok (connection s u) (accepted_for s u) ?ph"
    using ok by (simp add: t names_ok_def)
  have user: "login_user l' = login_user l" by (simp add: login_user_def eff(1))
  show "user_ok (connection ?t u) (accepted_for ?t u) (phases (ls_logins ?t) u)"
  proof (cases "u = login_user l")
    case True
    have at: "?ph i = Some (lg_phase l)" using l(1) True by (simp add: phases_def)
    have alone: "\<not> others_unsettled ?ph i" if "lg_phase l = Arrived"
      using u that True by (simp add: t overlap_def split: if_splits)
    have "phase_step (connection s u) (lg_phase l) (lg_phase l') (connection ?t u)
        (probe_accepts (lg_phase l) (px_store (ls_server s)))"
      using eff(3) True by (simp add: t connection_def)
    from user_ok_step [OF this old at alone]
    have "user_ok (connection ?t u) (accepted_for s u \<union> probe_accepts (lg_phase l) (px_store (ls_server s)))
        (?ph(i \<mapsto> lg_phase l'))" .
    moreover have "accepted_for ?t u = accepted_for s u \<union> probe_accepts (lg_phase l) (px_store (ls_server s))"
      using True by (auto simp: t accepted_for_def)
    moreover have "phases (ls_logins ?t) u = ?ph(i \<mapsto> lg_phase l')"
      using True user by (simp add: t phases_upd)
    ultimately show ?thesis by simp
  next
    case False
    then have "?ph i = None" using l(1) by (simp add: phases_def)
    then have "phases (ls_logins ?t) u = ?ph" using False user by (auto simp: t phases_upd)
    moreover have "accepted_for ?t u = accepted_for s u" using False by (auto simp: t accepted_for_def)
    moreover have "connection ?t u = connection s u" using eff(4) [OF False] by (simp add: t connection_def)
    ultimately show ?thesis using old by simp
  qed
qed

lemma tickets_ok_advance:
  assumes l: "ls_logins s i = Some l" "login_step env l (ls_server s) = (l', a')" and ok: "names_ok s" "tickets_ok s"
  shows "tickets_ok (advance env i s)"
proof -
  let ?t = "advance env i s"
  note t = advance_Some [OF l] and eff = login_step_effect [OF l(2)]
  have more: "accepted_for s u \<subseteq> accepted_for ?t u" "raced s \<subseteq> raced ?t" for u
    by (auto simp: t accepted_for_def)
  show ?thesis
  proof (cases "\<exists>r. lg_phase l = Taken r")
    case True
    then obtain r where r: "lg_phase l = Taken r" ..
    have new: "\<exists>c. r = Some c \<and> c \<in> accepted_for s (login_user l)" if "login_user l \<notin> raced s"
    proof -
      have "user_ok (connection s (login_user l)) (accepted_for s (login_user l)) (phases (ls_logins s) (login_user l))"
        using ok(1) that by (simp add: names_ok_def)
      moreover have "phases (ls_logins s) (login_user l) i = Some (Taken r)" using l(1) r by (simp add: phases_def)
      ultimately show ?thesis using user_okD(1) by fastforce
    qed
    have auth: "Auth (ls_server ?t) = AList.update (lg_ticket l) ((lg_entry l)\<lparr>Client := r\<rparr>) (Auth (ls_server s))"
      using eff(5) r by (simp add: t)
    have "\<exists>c. Client te = Some c \<and> c \<in> accepted_for ?t (AccessKeyID te)"
      if te: "map_of (Auth (ls_server ?t)) k = Some te" "AccessKeyID te \<notin> raced ?t" for k te
    proof (cases "k = lg_ticket l")
      case True
      then have "te = (lg_entry l)\<lparr>Client := r\<rparr>" using te(1) by (simp add: auth map_of_update)
      then show ?thesis using new te(2) more by (auto simp: login_user_def)
    next
      case False
      then have "map_of (Auth (ls_server s)) k = Some te" using te(1) by (simp add: auth map_of_update)
      then show ?thesis using ok(2) te(2) more unfolding tickets_ok_def by blast
    qed
    moreover have "distinct (map fst (Auth (ls_server ?t)))"
      using ok(2) by (simp add: auth tickets_ok_def distinct_update)
    ultimately show ?thesis unfolding tickets_ok_def by blast
  next
    case False
    then have "Auth (ls_server ?t) = Auth (ls_server s)" using eff(5) by (simp add: t split: login_phase.split)
    then show ?thesis using ok(2) more unfolding tickets_ok_def by (metis subsetD)
  qed
qed

lemma login_inv_cong:
  assumes "login_inv s" "ls_logins t = ls_logins s" "accepted t = accepted s" "raced t = raced s"
    and "connectionList (ls_server t) = connectionList (ls_server s)"
    and "distinct (map fst (Auth (ls_server t)))"
    and "\<And>k te. map_of (Auth (ls_server t)) k = Some te \<Longrightarrow> map_of (Auth (ls_server s)) k = Some te"
  shows "login_inv t"
proof -
  have "names_ok t"
    using assms(1-5) unfolding login_inv_def names_ok_def connection_def accepted_for_def by simp
  moreover have "tickets_ok t"
    using assms(1,3,4,6,7) unfolding login_inv_def tickets_ok_def accepted_for_def by metis
  ultimately show ?thesis by (simp add: login_inv_def)
qed

lemma map_of_ticketGC:
  "distinct (map fst (Auth a)) \<Longrightarrow> map_of (Auth (ticketGC now a)) k =
     (case map_of (Auth a) k of Some te \<Rightarrow> if ExpireAt te < now then None else Some te | None \<Rightarrow> None)"
  by (simp add: ticketGC_def map_of_filter_values split: option.split)

lemma login_inv_step: "login_sys_step s t \<Longrightarrow> login_inv s \<Longrightarrow> login_inv t"
proof (induction rule: login_sys_step.induct)
  case (arrive s i rq env user password)
  let ?l = "new_login env user password"
  have "user_ok (connection s u) (accepted_for s u) (phases ((ls_logins s)(i \<mapsto> ?l)) u)" if "u \<notin> raced s" for u
  proof -
    have old: "user_ok (connection s u) (accepted_for s u) (phases (ls_logins s) u)"
      using arrive.prems that by (simp add: login_inv_def names_ok_def)
    have none: "phases (ls_logins s) u i = None" using arrive.hyps(1) by (simp add: phases_def)
    show ?thesis
    proof (cases "login_user ?l = u")
      case True
      then show ?thesis using user_ok_outside [OF old, of i Arrived] none by (simp add: phases_upd new_login_def)
    next
      case False
      then have "phases ((ls_logins s)(i \<mapsto> ?l)) u = phases (ls_logins s) u" using none by (auto simp: phases_upd)
      with old show ?thesis by simp
    qed
  qed
  then show ?case
    using arrive.prems by (simp add: login_inv_def names_ok_def tickets_ok_def connection_def accepted_for_def)
next
  case (progress s env i)
  show ?case
  proof (cases "ls_logins s i")
    case None
    with progress show ?thesis by (simp add: advance_def)
  next
    case (Some l)
    obtain l' a' where "login_step env l (ls_server s) = (l', a')" by fastforce
    with Some progress show ?thesis by (simp add: login_inv_def names_ok_advance tickets_ok_advance)
  qed
next
  case (request env rq s r a')
  from other_requests_keep_tickets [OF request.hyps] request.prems show ?case
    by (intro login_inv_cong [OF request.prems]) (simp_all add: login_inv_def tickets_ok_def)
next
  case (collect s now)
  then have "distinct (map fst (Auth (ls_server s)))" by (simp add: login_inv_def tickets_ok_def)
  then show ?case
    by (intro login_inv_cong [OF collect])
      (auto simp: map_of_ticketGC ticketGC_def distinct_map_filter split: option.splits if_splits)
next
  case (outside s st)
  then show ?case by (intro login_inv_cong [OF outside]) (simp_all add: login_inv_def tickets_ok_def)
qed

lemma login_inv_start: "login_start s \<Longrightarrow> login_inv s"
  by (simp add: login_start_def login_inv_def names_ok_def tickets_ok_def user_ok_def connection_def phases_def)

interpretation login_machine: stepper login_start login_sys_step login_inv
  by unfold_locales (fact login_inv_start, rule login_inv_step)

section \<open>Properties\<close>

text \<open>
  C14: Access needs a client the object store has accepted, as long as the logins of a name do not
  overlap. Any number of logins, of other requests of any kind, rounds of the ticket collector and changes
  in the object store interleave in any way. In every state they can reach, a cookie
  authenticates as a user name none of whose logins overlapped only with a ticket that carries a client for
  which, under that name, the object store answered a probe without an error; so the client is not nil
  either. Logins overlap when one looks up the connection of its name while another of the same name is
  between its own lookup and the answer to its probe. A round of the ticket collector takes access away
  from exactly the tickets that have expired.
\<close>

theorem authentication_needs_accepted_account:
  assumes "login_start s0" "login_sys_step\<^sup>*\<^sup>* s0 s"
  shows "(authenticate cookie (ls_server s) = Some te \<longrightarrow> AccessKeyID te \<notin> raced s \<longrightarrow>
      (\<exists>c. Client te = Some c \<and> (AccessKeyID te, c) \<in> accepted s))
    \<and> authenticate cookie (ticketGC now (ls_server s)) =
      (case authenticate cookie (ls_server s) of
         Some te \<Rightarrow> if ExpireAt te < now then None else Some te | None \<Rightarrow> None)"
proof -
  have inv: "tickets_ok s" using login_machine.reachable_inv [OF assms] by (simp add: login_inv_def)
  have "\<exists>c. Client te = Some c \<and> (AccessKeyID te, c) \<in> accepted s"
    if "authenticate cookie (ls_server s) = Some te" "AccessKeyID te \<notin> raced s"
  proof -
    from that(1) obtain t where "map_of (Auth (ls_server s)) t = Some te"
      by (auto simp: authenticate_def split: option.splits)
    with inv that(2) show ?thesis unfolding tickets_ok_def accepted_for_def by blast
  qed
  moreover have "authenticate cookie (ticketGC now (ls_server s)) =
      (case authenticate cookie (ls_server s) of
         Some te \<Rightarrow> if ExpireAt te < now then None else Some te | None \<Rightarrow> None)"
    using inv by (simp add: authenticate_def map_of_ticketGC tickets_ok_def split: option.split)
  ultimately show ?thesis by blast
qed

text \<open>Runs of logins, for concrete schedules.\<close>

definition advances :: "('s http1_env \<times> nat) list \<Rightarrow> 's login_sys \<Rightarrow> 's login_sys" where
  "advances es s = foldl (\<lambda>s (env, i). advance env i s) s es"

lemma advances_run: "login_sys_step\<^sup>*\<^sup>* s (advances es s)"
  by (induction es arbitrary: s)
    (auto simp: advances_def intro: converse_rtranclp_into_rtranclp login_sys_step.progress)

lemma advance_fields:
  "ls_server (advance env i s) =
     (case ls_logins s i of None \<Rightarrow> ls_server s | Some l \<Rightarrow> snd (login_step env l (ls_server s)))"
  "ls_logins (advance env i s) =
     (case ls_logins s i of None \<Rightarrow> ls_logins s
      | Some l \<Rightarrow> (ls_logins s)(i \<mapsto> fst (login_step env l (ls_server s))))"
  "accepted (advance env i s) =
     (case ls_logins s i of None \<Rightarrow> accepted s
      | Some l \<Rightarrow> accepted s \<union> {login_user l} \<times> probe_accepts (lg_phase l) (px_store (ls_server s)))"
  by (simp_all add: advance_def case_prod_unfold split: option.split)

lemmas run_simps = advances_def advance_fields login_step_def new_login_def login_user_def map_of_update map_of_delete

definition fresh_sys :: "'s Server \<Rightarrow> 's login_sys" where
  "fresh_sys a = \<lparr>ls_server = a, ls_logins = (\<lambda>_. None), accepted = {}, raced = {}\<rparr>"

definition arrived :: "nat \<Rightarrow> 's http1_env \<Rightarrow> string \<Rightarrow> string \<Rightarrow> 's login_sys \<Rightarrow> 's login_sys" where
  "arrived i env user password s = s\<lparr>ls_logins := (ls_logins s)(i \<mapsto> new_login env user password)\<rparr>"

text \<open>
  The first login is registered when the second one finds its connection; then the second goes on first, or
  the first does.
\<close>

definition race :: "'s http1_env \<Rightarrow> 's http1_env \<Rightarrow> string \<times> string \<Rightarrow> string \<times> string \<Rightarrow> 's Server \<Rightarrow> 's login_sys" where
  "race env env2 up up2 a =
     advances [(env2, 1)] (arrived 1 env2 (fst up2) (snd up2)
       (advances [(env, 0), (env, 0), (env, 0)] (arrived 0 env (fst up) (snd up) (fresh_sys a))))"

lemma race_run:
  assumes "is_ticket_request rq" "ticket_credentials env rq = Inr up"
    and "is_ticket_request rq2" "ticket_credentials env2 rq2 = Inr up2"
  shows "login_sys_step\<^sup>*\<^sup>* (fresh_sys a) (advances es (race env env2 up up2 a))"
proof -
  let ?s1 = "arrived 0 env (fst up) (snd up) (fresh_sys a)"
  let ?s2 = "advances [(env, 0), (env, 0), (env, 0)] ?s1"
  let ?s3 = "arrived 1 env2 (fst up2) (snd up2) ?s2"
  have "login_sys_step (fresh_sys a) ?s1"
    unfolding arrived_def using assms(1,2) by (intro login_sys_step.arrive) (simp_all add: fresh_sys_def)
  moreover have "ls_logins ?s2 1 = None"
    by (simp add: run_simps arrived_def fresh_sys_def split: option.split)
  then have "login_sys_step ?s2 ?s3"
    unfolding arrived_def [of 1] using assms(3,4) by (intro login_sys_step.arrive) simp_all
  ultimately have "login_sys_step\<^sup>*\<^sup>* (fresh_sys a) ?s3"
    using advances_run [of ?s1] by (meson converse_rtranclp_into_rtranclp rtranclp.rtrancl_into_rtrancl)
  then show ?thesis unfolding race_def by (meson advances_run rtranclp_trans)
qed

lemma race_state:
  assumes "map_of (connectionList a) (hd (Split (fst up) CHR ''@'')) = None"
    and "hd (Split (fst up2) CHR ''@'') = hd (Split (fst up) CHR ''@'')"
    and "h1_minio_New env (S3Endpoint (h1_settings env)) (hd (Split (fst up) CHR ''@'')) (snd up) = Inr c"
  shows "ls_server (race env env2 up up2 a)
      = a\<lparr>connectionList := AList.update (hd (Split (fst up) CHR ''@'')) c (connectionList a)\<rparr>"
    and "ls_logins (race env env2 up up2 a)
      = [0 \<mapsto> (new_login env (fst up) (snd up))\<lparr>lg_phase := Registered\<rparr>,
         1 \<mapsto> (new_login env2 (fst up2) (snd up2))\<lparr>lg_phase := Known\<rparr>]"
    and "accepted (race env env2 up up2 a) = {}"
  using assms by (simp_all add: race_def run_simps arrived_def fresh_sys_def Let_def)

text \<open>
  C39: Overlapping logins give access that the object store refused. Let a server have no connection for a
  user name, and let the object store refuse the client made from some password. If a second login for
  the same name, with any password, looks up the connection while the first waits for that answer, then
  both ends are possible in which the first is answered with 403 and no client of any name was ever
  accepted: the second is given a ticket that authenticates as the user and carries the refused client, or
  one that carries a nil client, on which the handlers of the datastore API panic.
\<close>

theorem overlapping_logins_bypass_refusal:
  fixes env env2 :: "'s http1_env"
  assumes requests: "is_ticket_request rq" "ticket_credentials env rq = Inr up"
      "is_ticket_request rq2" "ticket_credentials env2 rq2 = Inr up2"
    and name: "hd (Split (fst up) CHR ''@'') = u" "hd (Split (fst up2) CHR ''@'') = u"
    and new: "map_of (connectionList a) u = None"
    and refused: "h1_minio_New env (S3Endpoint (h1_settings env)) u (snd up) = Inr c" "ListBuckets c (px_store a) = Inl e"
    and cookie: "cookie_ticket cookie = Some (h1_ticket env2)"
  shows "\<forall>client \<in> {Some c, None}. \<exists>s l te.
      login_sys_step\<^sup>*\<^sup>* (fresh_sys a) s \<and> accepted s = {}
      \<and> ls_logins s 0 = Some l \<and> lg_phase l = Answered (Err 403 e)
      \<and> authenticate cookie (ls_server s) = Some te \<and> AccessKeyID te = u \<and> Client te = client"
proof -
  let ?s = "race env env2 up up2 a"
  let ?first = "[(env, 0), (env, 0), (env, 0 :: nat)]" and ?second = "[(env2, 1), (env2, 1 :: nat)]"
  note state = race_state [of a up up2 env c env2, unfolded name, OF new refl refused(1)]
  have "accepted (advances (?second @ ?first) ?s) = {}"
    "\<exists>l. ls_logins (advances (?second @ ?first) ?s) 0 = Some l \<and> lg_phase l = Answered (Err 403 e)"
    "\<exists>te. authenticate cookie (ls_server (advances (?second @ ?first) ?s)) = Some te \<and> AccessKeyID te = u \<and> Client te = Some c"
    using refused(2) name cookie by (simp_all add: run_simps state authenticate_def Let_def)
  moreover have "accepted (advances (?first @ ?second) ?s) = {}"
    "\<exists>l. ls_logins (advances (?first @ ?second) ?s) 0 = Some l \<and> lg_phase l = Answered (Err 403 e)"
    "\<exists>te. authenticate cookie (ls_server (advances (?first @ ?second) ?s)) = Some te \<and> AccessKeyID te = u \<and> Client te = None"
    using refused(2) name cookie by (simp_all add: run_simps state authenticate_def Let_def)
  moreover note race_run [OF requests, of a]
  ultimately show ?thesis by blast
qed

section \<open>A login, and two at once\<close>

definition denying_client :: "mem_store s3_client" where
  "denying_client = mem_client\<lparr>ListBuckets := (\<lambda>_. Inl (Error ''denied''))\<rparr>"

theorem overlapping_logins_bypass_refusal_witness:
  "\<exists>s te. login_sys_step\<^sup>*\<^sup>* (fresh_sys (idle_server tagged_store)) s \<and> accepted s = {}
     \<and> authenticate ''PBSAuthCookie=t'' (ls_server s) = Some te \<and> AccessKeyID te = ''root'' \<and> Client te = None"
proof -
  let ?env = "sample_http1_env\<lparr>h1_minio_New := (\<lambda>_ _ _. Inr denying_client)\<rparr>"
  have "is_ticket_request login_request" "ticket_credentials ?env login_request = Inr (''root@pbs'', ''secret'')"
    by (simp_all add: is_ticket_request_def login_request_def ticket_credentials_def sample_http1_env_def)
  moreover have "map_of (connectionList (idle_server tagged_store)) ''root'' = None" by (simp add: idle_server_def)
  moreover have "ListBuckets denying_client (px_store (idle_server tagged_store)) = Inl (Error ''denied'')"
    by (simp add: denying_client_def)
  ultimately have "\<forall>client \<in> {Some denying_client, None}. \<exists>s l te.
      login_sys_step\<^sup>*\<^sup>* (fresh_sys (idle_server tagged_store)) s \<and> accepted s = {}
      \<and> ls_logins s 0 = Some l \<and> lg_phase l = Answered (Err 403 (Error ''denied''))
      \<and> authenticate ''PBSAuthCookie=t'' (ls_server s) = Some te \<and> AccessKeyID te = ''root'' \<and> Client te = client"
    by (intro overlapping_logins_bypass_refusal [of login_request ?env "(''root@pbs'', ''secret'')" login_request ?env
          "(''root@pbs'', ''secret'')"]) (simp_all add: sample_cookie sample_http1_env_def)
  then show ?thesis by blast
qed

definition solo :: "'s Server \<Rightarrow> 's login \<Rightarrow> (string \<times> 's s3_client) set \<Rightarrow> 's login_sys" where
  "solo a l acc = \<lparr>ls_server = a, ls_logins = [0 \<mapsto> l], accepted = acc, raced = {}\<rparr>"

lemma alone_no_overlap: "overlap [i \<mapsto> l] i l' = {}"
  by (auto simp: overlap_def others_unsettled_def phases_def split: login_phase.split option.splits if_splits)

lemma solo_fields: "ls_server (solo a l acc) = a" "accepted (solo a l acc) = acc" "raced (solo a l acc) = {}"
  by (simp_all add: solo_def)

lemma advance_solo:
  "advance env 0 (solo a l acc) = solo (snd (login_step env l a)) (fst (login_step env l a))
     (acc \<union> {login_user l} \<times> probe_accepts (lg_phase l) (px_store a))"
  by (simp add: advance_def solo_def alone_no_overlap case_prod_unfold)

definition one_login :: "mem_store login_sys" where
  "one_login = advances (replicate 8 (sample_http1_env, 0))
     (solo (idle_server tagged_store) (new_login sample_http1_env ''root@pbs'' ''secret'') {})"

lemma sample_settings:
  "h1_minio_New sample_http1_env ep u p = Inr mem_client" "ListBuckets mem_client st = Inr (remdups (map (\<lambda>((b, k), _). b) st))"
  "connectionList (idle_server st) = []" "Auth (idle_server st) = []"
  "new_login sample_http1_env ''root@pbs'' ''secret'' = \<lparr>lg_entry = root_ticket\<lparr>Client := None\<rparr>, lg_ticket = ''t'', lg_phase = Arrived\<rparr>"
  by (simp_all add: sample_http1_env_def idle_server_def mem_client_def new_login_def root_ticket_def)

lemma one_login_result:
  "map_of (Auth (ls_server one_login)) ''t'' = Some root_ticket" "accepted one_login = {(''root'', mem_client)}"
  "raced one_login = {}"
proof -
  let ?u = "login_user \<lparr>lg_entry = root_ticket\<lparr>Client := None\<rparr>, lg_ticket = ''t'', lg_phase = Arrived\<rparr>"
  have user: "?u = ''root''" "AccessKeyID root_ticket = ''root''" by (simp_all add: login_user_def root_ticket_def)
  have ticket: "root_ticket\<lparr>Client := Some mem_client\<rparr> = root_ticket" by (simp add: root_ticket_def)
  show "map_of (Auth (ls_server one_login)) ''t'' = Some root_ticket" "accepted one_login = {(''root'', mem_client)}"
    "raced one_login = {}"
    by (simp_all add: one_login_def advances_def numeral_eq_Suc advance_solo solo_fields login_step_def login_user_def
        sample_settings user ticket)
qed

theorem authentication_needs_accepted_account_witness:
  "login_sys_step\<^sup>*\<^sup>* (fresh_sys (idle_server tagged_store)) one_login
   \<and> authenticate ''PBSAuthCookie=t'' (ls_server one_login) = Some root_ticket
   \<and> (\<exists>c. Client root_ticket = Some c \<and> (AccessKeyID root_ticket, c) \<in> accepted one_login)"
proof -
  let ?s = "fresh_sys (idle_server tagged_store)"
  have first: "login_sys_step ?s (?s\<lparr>ls_logins := (ls_logins ?s)(0 \<mapsto> new_login sample_http1_env ''root@pbs'' ''secret'')\<rparr>)"
    by (rule login_sys_step.arrive [of _ _ login_request])
      (simp_all add: fresh_sys_def is_ticket_request_def login_request_def ticket_credentials_def sample_http1_env_def)
  have "?s\<lparr>ls_logins := (ls_logins ?s)(0 \<mapsto> l)\<rparr> = solo (idle_server tagged_store) l {}" for l
    by (simp add: fresh_sys_def solo_def)
  note converse_rtranclp_into_rtranclp [OF first [unfolded this] advances_run]
  then have run: "login_sys_step\<^sup>*\<^sup>* ?s one_login" unfolding one_login_def .
  have "login_start ?s" by (simp add: login_start_def fresh_sys_def idle_server_def)
  moreover have auth: "authenticate ''PBSAuthCookie=t'' (ls_server one_login) = Some root_ticket"
    by (simp add: authenticate_def sample_cookie one_login_result)
  ultimately have "\<exists>c. Client root_ticket = Some c \<and> (AccessKeyID root_ticket, c) \<in> accepted one_login"
    using authentication_needs_accepted_account [OF _ run] one_login_result(3) by blast
  with run auth show ?thesis by blast
qed

end
