(* ===== verification/CollectorRun.thy ===== *)
theory CollectorRun
  imports UsageStats Invalidation
begin

text \<open>
  \<open>main\<close> of \<open>cmd/garbagecollector/main.go\<close>, from the arguments to the exit: the lock, the three
  listings, the mark phase, the tagging of corrupt snapshots, the sweep, the report, and the
  publications in between. It is a function from the state of the bucket and of the token directory
  to their next state and to how the process ends: nothing else changes the bucket while it runs. The lock
  keeps backup and restore sessions out; requests of the HTTP/1.1 API are not kept out by the code, and are
  not interleaved with the run here.

  The mutex (\<open>juju/mutex\<close>), the clock and the JSON encoder are outside; whether the lock was
  acquired, the time of the mark phase and the encoder are arguments. A publication is a parameter
  too, a function on the state of the token directory, instantiated in \<open>CollectorStart\<close>. It is also given
  the store at the time, which the code does not look at, and which tells theorems when it was made.
\<close>

section \<open>Configuration, state and exits\<close>

record gc_config =
  gc_endpoint :: string
  gc_bucket :: string
  gc_retentionDays :: u64
  gc_chunkGraceHours :: u64

datatype gc_exit =
    Fatal string
  | NoSnapshots
  | Finished

text \<open>The world a run acts on: the store and the token directory.\<close>

record ('s, 'n) world =
  w_store :: 's
  w_tokens :: 'n

section \<open>Operations\<close>

text \<open>The loaders that \<open>main\<close> hands to the mark phase.\<close>

definition gc_loadIndex :: "'s s3_client \<Rightarrow> 's \<Rightarrow> string \<Rightarrow> object_info \<Rightarrow> parsedIndex result" where
  "gc_loadIndex c st bucket obj = loadIndexFromS3 c st bucket obj"

definition gc_loadChecksum :: "'s s3_client \<Rightarrow> 's \<Rightarrow> string \<Rightarrow> object_info \<Rightarrow> string result" where
  "gc_loadChecksum c st bucket obj = fst (getObjectMetadata c st bucket obj)"

text \<open>The marker of the snapshot an index belongs to.\<close>

definition corrupted_key :: "string \<Rightarrow> string" where
  "corrupted_key objectName =
     (let parts = Split objectName CHR ''/'' in strings_Join (butlast parts) ''/'' @ ''/corrupted'')"

fun tag_references ::
    "('s \<Rightarrow> 'n \<Rightarrow> 'n) \<Rightarrow> 's s3_client \<Rightarrow> string \<Rightarrow> string list \<Rightarrow> ('s, 'n) world
      \<Rightarrow> string option \<times> ('s, 'n) world" where
  "tag_references publish c bucket [] w = (None, w)"
| "tag_references publish c bucket (objectName # names) w =
     (case PutObject c (w_store w) bucket (corrupted_key objectName)
             (bytes_NewReader (bytes_of_string ''CORRUPTED'')) 9
             \<lparr>StorageClass = [], PutMetadata = [], ContentType = []\<rparr> of
        ((Inl e, _), st) \<Rightarrow> (Some ''Error tagging as corrupt'', w\<lparr>w_store := st\<rparr>)
      | ((Inr _, _), st) \<Rightarrow>
          tag_references publish c bucket names
            (w\<lparr>w_store := st, w_tokens := publish st (w_tokens w)\<rparr>))"

definition tag_missing ::
    "('s \<Rightarrow> 'n \<Rightarrow> 'n) \<Rightarrow> 's s3_client \<Rightarrow> string \<Rightarrow> (string, string list) gomap \<Rightarrow> ('s, 'n) world
      \<Rightarrow> string option \<times> ('s, 'n) world" where
  "tag_missing publish c bucket missing w =
     tag_references publish c bucket (concat (map snd missing)) w"

text \<open>Inventory and mark phase: the plan, or what the process dies with.\<close>

definition gc_inventory ::
    "'s s3_client \<Rightarrow> 's \<Rightarrow> gc_config \<Rightarrow> int \<Rightarrow> int \<Rightarrow> gcPlan option result" where
  "gc_inventory c st cfg grace markTime =
     (case listObjectsFully None c st (gc_bucket cfg) ''backups/'' of
        Inl e \<Rightarrow> Inl (Wrap ''Unable to list backup objects safely'' e)
      | Inr backups \<Rightarrow>
          (case SnapshotsFromObjects backups (gc_bucket cfg) True of
             Inl e \<Rightarrow> Inl (Wrap ''Unable to parse snapshots safely'' e)
           | Inr snapshots \<Rightarrow>
               if snapshots = [] then Inr None
               else
                 (case listObjectsFully None c st (gc_bucket cfg) ''indexed/'' of
                    Inl e \<Rightarrow> Inl (Wrap ''Unable to list copied indexes safely'' e)
                  | Inr indexed \<Rightarrow>
                      (case listObjectsFully None c st (gc_bucket cfg) ''chunks/'' of
                         Inl e \<Rightarrow> Inl (Wrap ''Unable to list chunks safely'' e)
                       | Inr chunks \<Rightarrow>
                           (case refreshExpiredSnapshotProtection c st (gc_bucket cfg) snapshots backups
                                   markTime (gc_retentionDays cfg) of
                              Inl e \<Rightarrow> Inl (Wrap ''Unable to verify snapshot protection'' e)
                            | Inr snapshots \<Rightarrow>
                                (case buildGCPlan snapshots backups indexed chunks markTime
                                        (gc_retentionDays cfg) grace
                                        (gc_loadIndex c st (gc_bucket cfg))
                                        (gc_loadChecksum c st (gc_bucket cfg)) of
                                   Inl e \<Rightarrow> Inl (Wrap ''mark phase failed'' e)
                                 | Inr plan \<Rightarrow> Inr (Some plan)))))))"

text \<open>The sweep, with a publication before and after it, and the report.\<close>

definition gc_sweep ::
    "(UsageStats \<Rightarrow> bytes result) \<Rightarrow> ('s \<Rightarrow> 'n \<Rightarrow> 'n) \<Rightarrow> 's s3_client \<Rightarrow> gc_config \<Rightarrow> int \<Rightarrow> gcPlan
      \<Rightarrow> ('s, 'n) world \<Rightarrow> gc_exit \<times> ('s, 'n) world" where
  "gc_sweep json_Marshal publish c cfg now plan w =
     (let w = w\<lparr>w_tokens := publish (w_store w) (w_tokens w)\<rparr> in
      case executeGCPlan None c (w_store w) (gc_bucket cfg) plan of
        (Some e, st) \<Rightarrow>
          (Fatal ''Garbage-collection sweep failed'', w\<lparr>w_store := st, w_tokens := publish st (w_tokens w)\<rparr>)
      | (None, st) \<Rightarrow>
          let w = w\<lparr>w_store := st, w_tokens := publish st (w_tokens w)\<rparr>;
              st = writeUsageStats json_Marshal now c (w_store w) (gc_bucket cfg) (knownChunks plan)
                     (chunkSizes plan) (archiveSizes plan)
          in (Finished, w\<lparr>w_store := st, w_tokens := publish st (w_tokens w)\<rparr>))"

definition gc_main ::
    "(UsageStats \<Rightarrow> bytes result) \<Rightarrow> ('s \<Rightarrow> 'n \<Rightarrow> 'n) \<Rightarrow> bool \<Rightarrow> 's s3_client \<Rightarrow> gc_config \<Rightarrow> int \<Rightarrow> int
      \<Rightarrow> ('s, 'n) world \<Rightarrow> gc_exit \<times> ('s, 'n) world" where
  "gc_main json_Marshal publish acquired c cfg markTime reportTime w =
     (case hoursDuration (gc_chunkGraceHours cfg) of
        Inl e \<Rightarrow> (Fatal ''Invalid chunk grace period'', w)
      | Inr grace \<Rightarrow>
          if \<not> acquired then (Fatal ''Failed to acquire Lock'', w)
          else
            (case BucketExists c (w_store w) (gc_bucket cfg) of
               Inl e \<Rightarrow> (Fatal ''Unable to access specified bucket'', w)
             | Inr False \<Rightarrow> (Fatal ''Specified bucket does not exist'', w)
             | Inr True \<Rightarrow>
                 (case gc_inventory c (w_store w) cfg grace markTime of
                    Inl e \<Rightarrow> (Fatal ''nothing was deleted'', w)
                  | Inr None \<Rightarrow> (NoSnapshots, w)
                  | Inr (Some plan) \<Rightarrow>
                      if missingChunks plan \<noteq> []
                      then (case tag_missing publish c (gc_bucket cfg) (missingChunks plan) w of
                              (Some m, w') \<Rightarrow> (Fatal m, w')
                            | (None, w') \<Rightarrow>
                                (Fatal ''Integrity check found missing referenced chunks; nothing was deleted'',
                                 w'\<lparr>w_tokens := publish (w_store w') (w_tokens w')\<rparr>))
                      else gc_sweep json_Marshal publish c cfg reportTime plan w)))"

section \<open>Lemmas: listings and keys\<close>

lemma list_fully_Inr:
  "list_fully_loop objs = Inr r \<Longrightarrow> r = filter (\<lambda>obj. \<not> isDirectoryMarker obj) objs"
  "list_fully_loop objs = Inr r \<Longrightarrow> obj \<in> set objs \<Longrightarrow> ListErr obj = None"
  by (induction objs arbitrary: r) (auto split: option.splits if_splits sum.splits)

lemma listObjectsFully_Inr:
  assumes "listObjectsFully None c st bucket prefix = Inr r"
  shows "r = filter (\<lambda>obj. \<not> isDirectoryMarker obj) (ListObjects c st bucket prefix)"
    and "lists_prefix c \<Longrightarrow> obj \<in> set r \<Longrightarrow> HasPrefix (Key obj) prefix"
proof -
  from assms have loop: "list_fully_loop (ListObjects c st bucket prefix) = Inr r"
    by (auto simp: listObjectsFully_def split: sum.splits)
  then show r: "r = filter (\<lambda>obj. \<not> isDirectoryMarker obj) (ListObjects c st bucket prefix)"
    by (rule list_fully_Inr)
  show "HasPrefix (Key obj) prefix" if "lists_prefix c" "obj \<in> set r"
    using that r list_fully_Inr(2) [OF loop, of obj] by (auto simp: lists_prefix_def)
qed

lemma index_not_marker: "is_index_key (Key obj) \<Longrightarrow> \<not> isDirectoryMarker obj"
  by (auto simp: is_index_key_def isDirectoryMarker_def HasSuffix_iff)

text \<open>The key of the chunk with a digest.\<close>

definition chunk_key :: "string \<Rightarrow> string" where
  "chunk_key d = ''chunks/'' @ take 2 d @ ''/'' @ take 2 (drop 2 d) @ ''/'' @ drop 4 d"

lemma parseIndex_digests:
  assumes "parseIndex key data meta = Inr idx" "d \<in> set (digests idx)"
  obtains bs where "d = hex_EncodeToString bs" "length bs = 32"
proof -
  define payload where "payload = drop 4096 data"
  from parseIndex_InrD(5) [OF assms(1), folded payload_def]
  consider (fixed) "32 dvd length payload" "digests idx = map hex_EncodeToString (chunks_of 32 payload)"
    | (dynamic) "40 dvd length payload"
        "digests idx = map (\<lambda>e. hex_EncodeToString (slice 8 40 e)) (chunks_of 40 payload)"
    by blast
  then show ?thesis
  proof cases
    case fixed
    from fixed(2) assms(2) obtain bs where "bs \<in> set (chunks_of 32 payload)" "d = hex_EncodeToString bs"
      by auto
    with length_chunk [OF fixed(1)] that show ?thesis by blast
  next
    case dynamic
    from dynamic(2) assms(2) obtain e where e: "e \<in> set (chunks_of 40 payload)"
      "d = hex_EncodeToString (slice 8 40 e)" by auto
    from length_chunk [OF dynamic(1) e(1)] have "length (slice 8 40 e) = 32" by simp
    with e(2) that show ?thesis by blast
  qed
qed

lemma loadIndex_digests:
  assumes "loadIndexFromS3 c st bucket obj = Inr idx" "d \<in> set (digests idx)"
  obtains bs where "d = hex_EncodeToString bs" "length bs = 32"
proof -
  from assms(1) obtain data csum where "parseIndex (Key obj) data csum = Inr idx"
    by (auto simp: loadIndexFromS3_def split: sum.splits if_splits)
  from parseIndex_digests [OF this assms(2)] that show ?thesis by blast
qed

lemma chunkDigestFromKey_chunk_key:
  "length bs = 32 \<Longrightarrow> chunkDigestFromKey (chunk_key (hex_EncodeToString bs)) = Inr (hex_EncodeToString bs)"
  unfolding chunk_key_def by (rule chunkDigestFromKey_key) simp_all

text \<open>Keys of different areas of the bucket differ in their first character.\<close>

lemma hd_keys:
  "hd (chunk_key d) = CHR ''c''"
  "HasPrefix k ''backups/'' \<Longrightarrow> hd k = CHR ''b''"
  "HasPrefix k ''indexed/'' \<Longrightarrow> hd k = CHR ''i''"
  "HasPrefix k ''chunks/'' \<Longrightarrow> hd k = CHR ''c''"
  "hd UsageStatsObject = CHR ''u''"
  by (auto simp: chunk_key_def HasPrefix_iff UsageStatsObject_def)

lemma hd_prefix: "snapshotPrefixForObject k = Inr p \<Longrightarrow> hd k = CHR ''b''"
  by (rule hd_keys(2)) (auto simp: snapshotPrefixForObject_def split: if_splits)

lemma hd_corrupted_key:
  assumes "HasPrefix k ''backups/''"
  shows "hd (corrupted_key k) = CHR ''b''"
proof -
  obtain rest where k: "k = ''backups/'' @ rest" using assms by (auto simp: HasPrefix_iff)
  have "Split k CHR ''/'' = ''backups'' # Split rest CHR ''/''"
    using Split_append_sep [of "CHR ''/''" "''backups''" rest] by (simp add: k)
  then have "butlast (Split k CHR ''/'') = ''backups'' # butlast (Split rest CHR ''/'')" by simp
  then show ?thesis by (cases "butlast (Split rest CHR ''/'')") (simp_all add: corrupted_key_def Let_def)
qed

section \<open>Lemmas: what a run leaves alone\<close>

lemma writeUsageStats_keeps:
  assumes "puts_only c view" "k \<noteq> UsageStatsObject"
  shows "view (writeUsageStats json now c st bucket known sizes archives) b k = view st b k"
  using assms by (auto simp: writeUsageStats_def puts_only_def split: sum.splits)

lemma tag_references_keeps:
  assumes "puts_only c view" "\<forall>n \<in> set names. k \<noteq> corrupted_key n"
  shows "view (w_store (snd (tag_references publish c bucket names w))) b k = view (w_store w) b k"
  using assms(2)
proof (induction names arbitrary: w)
  case (Cons n names)
  obtain r used st where put: "PutObject c (w_store w) bucket (corrupted_key n)
      (bytes_NewReader (bytes_of_string ''CORRUPTED'')) 9
      \<lparr>StorageClass = [], PutMetadata = [], ContentType = []\<rparr> = ((r, used), st)"
    by (metis surj_pair)
  have "view st b k = view (w_store w) b k"
    using assms(1) Cons.prems put unfolding puts_only_def by (metis list.set_intros(1) snd_conv)
  with Cons put show ?case by (cases r) simp_all
qed simp

lemma gc_inventory_SomeE:
  assumes "gc_inventory c st cfg grace t = Inr (Some plan)"
  obtains backups snapshots0 indexed chunks snapshots where
    "listObjectsFully None c st (gc_bucket cfg) ''backups/'' = Inr backups"
    "SnapshotsFromObjects backups (gc_bucket cfg) True = Inr snapshots0" "snapshots0 \<noteq> []"
    "listObjectsFully None c st (gc_bucket cfg) ''indexed/'' = Inr indexed"
    "listObjectsFully None c st (gc_bucket cfg) ''chunks/'' = Inr chunks"
    "refreshExpiredSnapshotProtection c st (gc_bucket cfg) snapshots0 backups t
       (gc_retentionDays cfg) = Inr snapshots"
    "buildGCPlan snapshots backups indexed chunks t (gc_retentionDays cfg) grace
       (gc_loadIndex c st (gc_bucket cfg)) (gc_loadChecksum c st (gc_bucket cfg)) = Inr plan"
  using assms by (auto simp: gc_inventory_def split: sum.splits if_splits)

text \<open>The areas of the bucket a plan touches.\<close>

lemma plan_areas:
  assumes "gc_inventory c st cfg grace t = Inr (Some plan)" "lists_prefix c"
  shows "obj \<in> set (backupObjects plan) \<Longrightarrow> hd (Key obj) = CHR ''b''"
    and "obj \<in> set (indexedObjects plan) \<Longrightarrow> hd (Key obj) = CHR ''i''"
    and "obj \<in> set (chunkObjects plan) \<Longrightarrow> hd (Key obj) = CHR ''c''"
    and "name \<in> set (concat (map snd (missingChunks plan))) \<Longrightarrow> HasPrefix name ''backups/''"
proof -
  from assms(1) obtain backups snapshots0 indexed chunks snapshots where
    *: "listObjectsFully None c st (gc_bucket cfg) ''backups/'' = Inr backups"
    "listObjectsFully None c st (gc_bucket cfg) ''indexed/'' = Inr indexed"
    "listObjectsFully None c st (gc_bucket cfg) ''chunks/'' = Inr chunks"
    "buildGCPlan snapshots backups indexed chunks t (gc_retentionDays cfg) grace
       (gc_loadIndex c st (gc_bucket cfg)) (gc_loadChecksum c st (gc_bucket cfg)) = Inr plan"
    by (rule gc_inventory_SomeE)
  note listed = * (1-3) [THEN listObjectsFully_Inr(2) [OF _ assms(2)]]
  show "hd (Key obj) = CHR ''b''" if "obj \<in> set (backupObjects plan)"
    using that listed(1) hd_keys(2) by (simp add: build_deletes(2) [OF *(4)])
  show "hd (Key obj) = CHR ''i''" if "obj \<in> set (indexedObjects plan)"
    using that listed(2) hd_keys(3) by (simp add: build_deletes(3) [OF *(4)])
  show "hd (Key obj) = CHR ''c''" if "obj \<in> set (chunkObjects plan)"
    using that listed(3) hd_keys(4) by (simp add: build_deletes(4) [OF *(4)])
  show "HasPrefix name ''backups/''" if "name \<in> set (concat (map snd (missingChunks plan)))"
  proof -
    from that obtain d names where dn: "(d, names) \<in> set (missingChunks plan)" "name \<in> set names" by auto
    then have "(d, names) \<in> set (knownChunks plan)"
      using *(4) by (auto elim!: buildGCPlan_InrE simp: mark_missing_def)
    then have "names = references (gc_loadIndex c st (gc_bucket cfg))
        (kept_indexes t (gc_retentionDays cfg) snapshots backups) d"
      by (rule known_entry [OF *(4)])
    with dn(2) obtain obj where "obj \<in> set backups" "name = Key obj"
      by (auto simp: set_references kept_indexes_def live_indexes_def)
    with listed(1) show ?thesis by simp
  qed
qed

lemma tag_references_error:
  "fst (tag_references publish c bucket names w) \<in> {None, Some ''Error tagging as corrupt''}"
  by (induction names arbitrary: w) (auto split: prod.splits sum.splits)

lemma tag_missing_error:
  "tag_missing publish c bucket missing w = (Some m, w') \<Longrightarrow> m = ''Error tagging as corrupt''"
  using tag_references_error [of publish c bucket "concat (map snd missing)" w] by (simp add: tag_missing_def)

lemma gc_main_cases:
  assumes "gc_main json publish acquired c cfg t t2 w = (exit, w')"
  obtains (untouched) "w' = w"
  | (tagged) grace plan where "hoursDuration (gc_chunkGraceHours cfg) = Inr grace" "gc_inventory c (w_store w) cfg grace t = Inr (Some plan)"
      "missingChunks plan \<noteq> []"
      "w_store w' = w_store (snd (tag_missing publish c (gc_bucket cfg) (missingChunks plan) w))"
      "exit = Fatal (case fst (tag_missing publish c (gc_bucket cfg) (missingChunks plan) w) of
         Some m \<Rightarrow> m
       | None \<Rightarrow> ''Integrity check found missing referenced chunks; nothing was deleted'')"
      "exit = Fatal ''Error tagging as corrupt'' \<or> w_tokens w' \<in> range (publish (w_store w'))"
  | (swept) grace plan where "hoursDuration (gc_chunkGraceHours cfg) = Inr grace" "gc_inventory c (w_store w) cfg grace t = Inr (Some plan)"
      "missingChunks plan = []" "gc_sweep json publish c cfg t2 plan w = (exit, w')"
proof -
  consider "w' = w"
    | grace plan where "hoursDuration (gc_chunkGraceHours cfg) = Inr grace" "gc_inventory c (w_store w) cfg grace t = Inr (Some plan)"
      "(if missingChunks plan \<noteq> []
        then (case tag_missing publish c (gc_bucket cfg) (missingChunks plan) w of
                (Some m, w') \<Rightarrow> (Fatal m, w')
              | (None, w') \<Rightarrow>
                  (Fatal ''Integrity check found missing referenced chunks; nothing was deleted'',
                   w'\<lparr>w_tokens := publish (w_store w') (w_tokens w')\<rparr>))
        else gc_sweep json publish c cfg t2 plan w) = (exit, w')"
    using assms unfolding gc_main_def by (auto split: sum.splits option.splits if_splits bool.splits)
  then show ?thesis
  proof cases
    case (2 grace plan)
    then show ?thesis
      using tagged [OF 2(1,2)] swept [OF 2(1,2)]
      by (cases "missingChunks plan = []") (auto dest: tag_missing_error split: prod.splits option.splits)
  qed (rule untouched)
qed

text \<open>
  A run that changed the store ends with a publication, made when the store was already as the run
  leaves it, unless the writing of a marker failed.
\<close>

lemma gc_sweep_publishes_last:
  assumes "gc_sweep json publish c cfg t plan w = (exit, w')"
  obtains n where "w_tokens w' = publish (w_store w') n"
  using assms unfolding gc_sweep_def Let_def by (auto split: prod.splits option.splits)

lemma gc_main_publishes_last:
  assumes run: "gc_main json publish acquired c cfg t t2 w = (exit, w')" and changed: "w_store w' \<noteq> w_store w"
    and exit: "exit \<noteq> Fatal ''Error tagging as corrupt''"
  obtains n where "w_tokens w' = publish (w_store w') n"
  using run
proof (cases rule: gc_main_cases)
  case (tagged grace plan)
  with exit that show ?thesis by blast
next
  case (swept grace plan)
  then show ?thesis using gc_sweep_publishes_last that by metis
qed (use changed in simp)

lemma gc_main_finished:
  assumes "gc_main json publish acquired c cfg t t2 w = (Finished, w')"
  obtains grace plan where "hoursDuration (gc_chunkGraceHours cfg) = Inr grace"
    "gc_inventory c (w_store w) cfg grace t = Inr (Some plan)" "missingChunks plan = []"
    "gc_sweep json publish c cfg t2 plan w = (Finished, w')"
  using assms unfolding gc_main_def
  by (auto split: sum.splits option.splits if_splits bool.splits prod.splits)

text \<open>The tagging loop writes every marker or stops at the first failure.\<close>

lemma tag_references_stored:
  assumes "puts_only c view" "puts_stored c view"
    and "tag_references publish c bucket names w = (None, w')" "k \<in> corrupted_key ` set names"
  shows "view (w_store w') bucket k = Some (bytes_of_string ''CORRUPTED'')"
  using assms(3,4)
proof (induction names arbitrary: w)
  case (Cons x names)
  obtain r used st where put: "PutObject c (w_store w) bucket (corrupted_key x)
      (bytes_NewReader (bytes_of_string ''CORRUPTED'')) 9
      \<lparr>StorageClass = [], PutMetadata = [], ContentType = []\<rparr> = ((r, used), st)"
    by (metis surj_pair)
  with Cons.prems(1) have r: "r = Inr ()" by (cases r) auto
  let ?w = "w\<lparr>w_store := st, w_tokens := publish st (w_tokens w)\<rparr>"
  have rest: "tag_references publish c bucket names ?w = (None, w')"
    using Cons.prems(1) put r by simp
  show ?case
  proof (cases "k \<in> corrupted_key ` set names")
    case False
    have "view st bucket (corrupted_key x) = Some (bytes_of_string ''CORRUPTED'')"
      using puts_storedD(1) [OF assms(2) put [unfolded r]]
      by (simp add: bytes_NewReader_def bytes_of_string_def)
    with tag_references_keeps [OF assms(1), of names k publish bucket ?w bucket] rest False Cons.prems(2)
    show ?thesis by auto
  qed (rule Cons.IH [OF rest])
qed simp

lemma gc_sweep_store:
  assumes "gc_sweep json publish c cfg t2 plan w = (exit, w')"
  obtains e st where "executeGCPlan None c (w_store w) (gc_bucket cfg) plan = (e, st)"
    "w_store w' = (if e = None then writeUsageStats json t2 c st (gc_bucket cfg) (knownChunks plan)
       (chunkSizes plan) (archiveSizes plan) else st)"
    "exit = Finished \<longleftrightarrow> e = None"
  using assms by (auto simp: gc_sweep_def Let_def split: prod.splits option.splits)

text \<open>A chunk that a kept index lists is not in the plan.\<close>

lemma kept_chunk_not_planned:
  assumes "gc_inventory c st cfg grace t = Inr (Some plan)"
    and "obj \<in> set (ListObjects c st (gc_bucket cfg) ''backups/'')" "is_index_key (Key obj)"
    and "obj \<notin> set (backupObjects plan)"
    and "loadIndexFromS3 c st (gc_bucket cfg) obj = Inr idx" "d \<in> set (digests idx)"
  shows "chunk_key d \<notin> Key ` set (chunkObjects plan)"
proof -
  from assms(1) obtain backups snapshots0 indexed chunks snapshots where
    *: "listObjectsFully None c st (gc_bucket cfg) ''backups/'' = Inr backups"
    "buildGCPlan snapshots backups indexed chunks t (gc_retentionDays cfg) grace
       (gc_loadIndex c st (gc_bucket cfg)) (gc_loadChecksum c st (gc_bucket cfg)) = Inr plan"
    by (rule gc_inventory_SomeE)
  let ?load = "gc_loadIndex c st (gc_bucket cfg)"
  let ?kept = "kept_indexes t (gc_retentionDays cfg) snapshots backups"
  have "obj \<in> set backups"
    using listObjectsFully_Inr(1) [OF *(1)] assms(2) index_not_marker [OF assms(3)] by simp
  then have "obj \<in> set ?kept"
    using assms(3,4) build_deletes(2) [OF *(2)] by (simp add: kept_indexes_def live_indexes_def)
  moreover have "index_of ?load obj = idx"
    using assms(5) by (simp add: gc_loadIndex_def index_of_Inr)
  ultimately have ref: "is_referenced ?load ?kept d"
    using assms(6) by (auto simp: is_referenced_def list_ex_iff)
  obtain bs where bs: "d = hex_EncodeToString bs" "length bs = 32"
    using loadIndex_digests [OF assms(5,6)] .
  have "digest_of_chunk x = d" if "Key x = chunk_key d" for x
    using that chunkDigestFromKey_chunk_key [OF bs(2)] bs(1) by (simp add: digest_of_chunk_def)
  with ref show ?thesis by (auto simp: build_deletes(4) [OF *(2)] swept_def)
qed

lemma tagged_keeps_chunk:
  assumes "gc_inventory c (w_store w) cfg grace t = Inr (Some plan)" "lists_prefix c" "puts_only c view"
  shows "view (w_store (snd (tag_missing publish c bucket (missingChunks plan) w))) b (chunk_key d)
    = view (w_store w) b (chunk_key d)"
proof -
  have "chunk_key d \<noteq> corrupted_key n" if "n \<in> set (concat (map snd (missingChunks plan)))" for n
    using hd_corrupted_key [OF plan_areas(4) [OF assms(1,2) that]] hd_keys(1) [of d] by auto
  then show ?thesis unfolding tag_missing_def by (intro tag_references_keeps assms(3)) blast
qed

lemma gc_main_other_bucket:
  assumes laws: "lists_prefix c" "removes_only c view" "puts_only c view"
    and run: "gc_main json publish acquired c cfg t t2 w = (exit, w')" and b: "b \<noteq> gc_bucket cfg"
  shows "view (w_store w') b (chunk_key d) = view (w_store w) b (chunk_key d)"
  using run
proof (cases rule: gc_main_cases)
  case (tagged grace plan)
  then show ?thesis by (simp add: tagged_keeps_chunk [OF tagged(2) laws(1,3)])
next
  case (swept grace plan)
  from swept(4) obtain e st where ex: "executeGCPlan None c (w_store w) (gc_bucket cfg) plan = (e, st)"
    and st: "w_store w' = (if e = None then writeUsageStats json t2 c st (gc_bucket cfg) (knownChunks plan)
       (chunkSizes plan) (archiveSizes plan) else st)"
    by (rule gc_sweep_store)
  have "chunk_key d \<noteq> UsageStatsObject" using hd_keys(1) [of d] hd_keys(5) by auto
  then have "view (w_store w') b (chunk_key d) = view st b (chunk_key d)"
    by (auto simp: st intro!: writeUsageStats_keeps laws(3))
  also have "\<dots> = view (w_store w) b (chunk_key d)"
    using executeGCPlan_keeps [OF laws(2), of b "gc_bucket cfg" "chunk_key d" plan None "w_store w"] ex b by simp
  finally show ?thesis .
qed simp

lemma gc_main_keeps_referenced:
  assumes laws: "lists_prefix c" "removes_only c view" "removes_all c view" "puts_only c view"
    and run: "gc_main json publish acquired c cfg t t2 w = (exit, w')"
    and obj: "obj \<in> set (ListObjects c (w_store w) (gc_bucket cfg) ''backups/'')" "is_index_key (Key obj)"
    and stored: "view (w_store w') (gc_bucket cfg) (Key obj) \<noteq> None"
    and idx: "loadIndexFromS3 c (w_store w) (gc_bucket cfg) obj = Inr idx" "d \<in> set (digests idx)"
  shows "view (w_store w') (gc_bucket cfg) (chunk_key d) = view (w_store w) (gc_bucket cfg) (chunk_key d)"
  using run
proof (cases rule: gc_main_cases)
  case (tagged grace plan)
  then show ?thesis by (simp add: tagged_keeps_chunk [OF tagged(2) laws(1,4)])
next
  case (swept grace plan)
  let ?b = "gc_bucket cfg"
  note areas = plan_areas [OF swept(2) laws(1)]
  from swept(4) obtain e st where ex: "executeGCPlan None c (w_store w) ?b plan = (e, st)"
    and st: "w_store w' = (if e = None then writeUsageStats json t2 c st ?b (knownChunks plan)
       (chunkSizes plan) (archiveSizes plan) else st)"
    by (rule gc_sweep_store)
  have report: "view (w_store w') ?b k = view st ?b k" if "hd k \<noteq> CHR ''u''" for k
    using that hd_keys(5) by (auto simp: st intro!: writeUsageStats_keeps laws(4))
  have outside: "chunk_key d \<notin> Key ` set (backupObjects plan)" "chunk_key d \<notin> Key ` set (indexedObjects plan)"
    using areas(1,2) hd_keys(1) [of d] by force+
  have "view st ?b (chunk_key d) = view (w_store w) ?b (chunk_key d)"
  proof (cases "fst (removeObjectsFully None c (w_store w) ?b (backupObjects plan))")
    case (Some e1)
    then show ?thesis by (intro failed_first_removal [OF laws(2) ex _ outside(1)]) simp
  next
    case None
    then obtain s1 where s1: "removeObjectsFully None c (w_store w) ?b (backupObjects plan) = (None, s1)"
      by (metis prod.collapse)
    have "obj \<notin> set (backupObjects plan)"
    proof
      assume bad: "obj \<in> set (backupObjects plan)"
      then have b: "hd (Key obj) = CHR ''b''" by (rule areas(1))
      then have "Key obj \<notin> Key ` set (indexedObjects plan)" "Key obj \<notin> Key ` set (chunkObjects plan)"
        using areas(2,3) by force+
      with after_first_removal [OF laws(2,3) ex s1] bad have "view st ?b (Key obj) = None" by blast
      with report [of "Key obj"] b stored show False by simp
    qed
    then have "chunk_key d \<notin> Key ` set (chunkObjects plan)"
      using kept_chunk_not_planned [OF swept(2) obj _ idx] by blast
    with outside executeGCPlan_keeps [OF laws(2), of ?b ?b "chunk_key d" plan None "w_store w"] ex
    show ?thesis by auto
  qed
  with report [of "chunk_key d"] hd_keys(1) [of d] show ?thesis by simp
qed simp

section \<open>Properties\<close>

text \<open>
  C2: Garbage collection never loses a referenced chunk. Take any run of the collector, on any
  bucket, however it ends. For every index object that was listed under \<open>backups/\<close> and is still
  stored after the run, and for every digest the index lists, the chunk of that digest is stored
  after the run exactly as it was before. What it assumes of the store: a listing returns keys with
  its prefix, a removal or a put changes the named keys only, and a removal that reports no error
  has removed its keys.
\<close>

theorem gc_never_loses_referenced_chunks:
  assumes laws: "lists_prefix c" "removes_only c view" "removes_all c view" "puts_only c view"
    and run: "gc_main json publish acquired c cfg t t2 w = (exit, w')"
    and obj: "obj \<in> set (ListObjects c (w_store w) (gc_bucket cfg) ''backups/'')" "is_index_key (Key obj)"
    and stored: "view (w_store w') (gc_bucket cfg) (Key obj) \<noteq> None"
    and idx: "loadIndexFromS3 c (w_store w) (gc_bucket cfg) obj = Inr idx" "d \<in> set (digests idx)"
  shows "view (w_store w') (gc_bucket cfg) (chunk_key d) = view (w_store w) (gc_bucket cfg) (chunk_key d)"
  using assms by (rule gc_main_keeps_referenced)

text \<open>
  C21: A run that finishes has collected its plan, and only after an intact mark phase. When the
  collector reports success, the inventory yielded a plan without a missing chunk, and every
  snapshot object, copied index and chunk of the plan is gone from the bucket, while every key that
  is neither in the plan nor the usage report is stored as before.
\<close>

theorem gc_finished_collects:
  assumes laws: "lists_prefix c" "removes_only c view" "removes_all c view" "puts_only c view"
    and run: "gc_main json publish acquired c cfg t t2 w = (Finished, w')"
  shows "\<exists>grace plan. hoursDuration (gc_chunkGraceHours cfg) = Inr grace
    \<and> gc_inventory c (w_store w) cfg grace t = Inr (Some plan) \<and> missingChunks plan = []
    \<and> (\<forall>k \<in> Key ` set (backupObjects plan @ indexedObjects plan @ chunkObjects plan).
         view (w_store w') (gc_bucket cfg) k = None)
    \<and> (\<forall>k. k \<notin> Key ` set (backupObjects plan @ indexedObjects plan @ chunkObjects plan)
         \<longrightarrow> k \<noteq> UsageStatsObject
         \<longrightarrow> view (w_store w') (gc_bucket cfg) k = view (w_store w) (gc_bucket cfg) k)"
  using run
proof (cases rule: gc_main_finished)
  case (1 grace plan)
  let ?b = "gc_bucket cfg"
  from 1(4) obtain e st where "executeGCPlan None c (w_store w) ?b plan = (e, st)"
    "w_store w' = (if e = None then writeUsageStats json t2 c st ?b (knownChunks plan)
       (chunkSizes plan) (archiveSizes plan) else st)" "Finished = Finished \<longleftrightarrow> e = None"
    by (rule gc_sweep_store)
  then have ex: "executeGCPlan None c (w_store w) ?b plan = (None, st)"
    and st: "w_store w' = writeUsageStats json t2 c st ?b (knownChunks plan) (chunkSizes plan) (archiveSizes plan)"
    by simp_all
  have planned: "k \<noteq> UsageStatsObject"
    if "k \<in> Key ` set (backupObjects plan @ indexedObjects plan @ chunkObjects plan)" for k
  proof -
    have "hd k \<noteq> CHR ''u''" using that plan_areas(1-3) [OF 1(2) laws(1)] by auto
    with hd_keys(5) show ?thesis by auto
  qed
  have "view (w_store w') ?b k = None"
    if "k \<in> Key ` set (backupObjects plan @ indexedObjects plan @ chunkObjects plan)" for k
    using executeGCPlan_removes [OF laws(2,3) ex that] planned [OF that]
    by (simp add: st writeUsageStats_keeps [OF laws(4)])
  moreover have "view (w_store w') ?b k = view (w_store w) ?b k"
    if "k \<notin> Key ` set (backupObjects plan @ indexedObjects plan @ chunkObjects plan)" "k \<noteq> UsageStatsObject" for k
    using executeGCPlan_keeps [OF laws(2), of ?b ?b k plan None "w_store w"] ex that
    by (simp add: st writeUsageStats_keeps [OF laws(4)])
  ultimately show ?thesis using 1(1-3) by (intro exI [of _ grace] exI [of _ plan]) simp
qed

text \<open>
  C19: Corruption stops the sweep. When the mark phase finds a referenced chunk missing, the run ends
  with an error and removes nothing: every key but the markers of the affected snapshots is stored as
  before. Unless writing a marker itself failed, each snapshot with a missing chunk has its marker.
\<close>

theorem gc_tags_corruption:
  assumes laws: "lists_prefix c" "puts_only c view" "puts_stored c view"
    and run: "gc_main json publish acquired c cfg t t2 w = (exit, w')"
    and found: "hoursDuration (gc_chunkGraceHours cfg) = Inr grace" "acquired"
      "BucketExists c (w_store w) (gc_bucket cfg) = Inr True"
      "gc_inventory c (w_store w) cfg grace t = Inr (Some plan)" "missingChunks plan \<noteq> []"
  defines "affected \<equiv> concat (map snd (missingChunks plan))"
  shows "(\<exists>m. exit = Fatal m)
    \<and> (\<forall>k. k \<notin> corrupted_key ` set affected
         \<longrightarrow> view (w_store w') (gc_bucket cfg) k = view (w_store w) (gc_bucket cfg) k)
    \<and> (exit \<noteq> Fatal ''Error tagging as corrupt'' \<longrightarrow>
        (\<forall>n \<in> set affected. view (w_store w') (gc_bucket cfg) (corrupted_key n)
           = Some (bytes_of_string ''CORRUPTED'')))"
proof -
  obtain m w1 where tag: "tag_references publish c (gc_bucket cfg) affected w = (m, w1)" by fastforce
  have exit: "exit = Fatal (case m of Some x \<Rightarrow> x
      | None \<Rightarrow> ''Integrity check found missing referenced chunks; nothing was deleted'')"
    and store: "w_store w' = w_store w1"
    using run found tag by (auto simp: gc_main_def tag_missing_def affected_def split: option.splits)
  have "m \<noteq> None \<Longrightarrow> m = Some ''Error tagging as corrupt''"
    using tag_references_error [of publish c "gc_bucket cfg" affected w] tag by auto
  moreover have "m = None \<Longrightarrow> n \<in> set affected \<Longrightarrow>
      view (w_store w1) (gc_bucket cfg) (corrupted_key n) = Some (bytes_of_string ''CORRUPTED'')" for n
    using tag_references_stored [OF laws(2,3), of publish "gc_bucket cfg" affected w w1 "corrupted_key n"] tag
    by simp
  moreover have "view (w_store w1) (gc_bucket cfg) k = view (w_store w) (gc_bucket cfg) k"
    if "k \<notin> corrupted_key ` set affected" for k
    using tag_references_keeps [OF laws(2), of affected k publish "gc_bucket cfg" w "gc_bucket cfg"] that tag
    by auto
  ultimately show ?thesis by (auto simp: exit store split: option.splits)
qed

text \<open>A bucket with one current snapshot, its two chunks and one orphan.\<close>

definition demo_csum :: string where
  "demo_csum = hex_EncodeToString (Sum256 (replicate 32 1 @ replicate 32 2))"

definition demo_index :: object_info where
  "demo_index = mem_info ''backups/100|5|vm/a.fidx'' sample_index [(''X-Amz-Meta-Csum'', demo_csum)]"

definition demo_chunk :: "byte \<Rightarrow> object_info" where
  "demo_chunk b = mem_info (chunk_key (sample_digest b)) [b] []"

definition demo_store :: "byte list \<Rightarrow> mem_store" where
  "demo_store bs =
     ((''ds'', ''backups/100|5|vm/a.fidx''), (sample_index, demo_index)) #
     map (\<lambda>b. ((''ds'', chunk_key (sample_digest b)), ([b], demo_chunk b))) bs"

definition demo_config :: gc_config where
  "demo_config = \<lparr>gc_endpoint = ''s3'', gc_bucket = ''ds'', gc_retentionDays = 0, gc_chunkGraceHours = 0\<rparr>"

lemma HasPrefix_chunk_key:
  "\<not> HasPrefix (chunk_key d) ''backups/''" "\<not> HasPrefix (chunk_key d) ''indexed/''"
  "HasPrefix (chunk_key d) ''chunks/''"
  by (simp_all add: chunk_key_def HasPrefix_def)

lemma demo_keys:
  "HasPrefix ''backups/100|5|vm/a.fidx'' ''backups/''"
  "\<not> HasPrefix ''backups/100|5|vm/a.fidx'' ''indexed/''"
  "\<not> HasPrefix ''backups/100|5|vm/a.fidx'' ''chunks/''"
  "\<not> HasSuffix ''backups/100|5|vm/a.fidx'' ''/''"
  "\<not> HasSuffix ''backups/100|5|vm/a.fidx'' ''/index.json.blob''"
  "snapshotPrefixForObject ''backups/100|5|vm/a.fidx'' = Inr ''backups/100|5|vm''"
  "is_index_key ''backups/100|5|vm/a.fidx''"
  by code_simp+

lemma demo_parse:
  "parse_snapshot_key ''backups/100|5|vm/a.fidx'' = Inr \<lparr>sk_prefix = ''100|5|vm'', sk_id = ''100'',
     sk_time = 5, sk_type = ''vm'', sk_file = ''a.fidx''\<rparr>"
  by (simp add: parse_snapshot_key_def SplitN2_def TrimPrefix_def HasPrefix_def Let_def
      ParseUint64_def ParseUint_def digit_val_def)

lemma demo_lists:
  "ListObjects mem_client (demo_store bs) ''ds'' ''backups/'' = [demo_index]"
  "ListObjects mem_client (demo_store bs) ''ds'' ''indexed/'' = []"
  "ListObjects mem_client (demo_store bs) ''ds'' ''chunks/'' = map demo_chunk bs"
  by (simp_all add: mem_client_def demo_store_def demo_keys HasPrefix_chunk_key filter_map comp_def)
    (simp_all add: demo_index_def demo_chunk_def mem_info_def)

lemma demo_infos [simp]:
  "Key demo_index = ''backups/100|5|vm/a.fidx''" "ListErr demo_index = None" "UserTags demo_index = []"
  "UserMetadata demo_index = [(''X-Amz-Meta-Csum'', demo_csum)]"
  "Key (demo_chunk b) = chunk_key (sample_digest b)" "ListErr (demo_chunk b) = None"
  "LastModified (demo_chunk b) = 0" "ObjectSize (demo_chunk b) = 1"
  by (simp_all add: demo_index_def demo_chunk_def mem_info_def)

lemma demo_marker [simp]: "\<not> isDirectoryMarker demo_index" "\<not> isDirectoryMarker (demo_chunk b)"
  by (simp_all add: isDirectoryMarker_def demo_keys)

lemma list_fully_chunks: "list_fully_loop (map demo_chunk bs) = Inr (map demo_chunk bs)"
  by (induction bs) simp_all

lemma demo_listings:
  "listObjectsFully None mem_client (demo_store bs) ''ds'' ''backups/'' = Inr [demo_index]"
  "listObjectsFully None mem_client (demo_store bs) ''ds'' ''indexed/'' = Inr []"
  "listObjectsFully None mem_client (demo_store bs) ''ds'' ''chunks/'' = Inr (map demo_chunk bs)"
  by (simp_all add: listObjectsFully_def demo_lists list_fully_chunks)

definition demo_snapshot :: Snapshot where
  "demo_snapshot = zero_snapshot\<lparr>BackupID := ''100'', BackupTime := 5, BackupType := ''vm'',
     Datastore := ''ds'', Files := [\<lparr>Filename = ''a.fidx'', CryptMode = ''none'',
       FileSize = uint64_of (ObjectSize demo_index)\<rparr>]\<rparr>"

lemma demo_snapshots: "SnapshotsFromObjects [demo_index] ''ds'' True = Inr [demo_snapshot]"
  by (simp add: SnapshotsFromObjects_def demo_keys demo_parse insert_object_def absorb_object_def add_file_def
      set_comment_def mark_protected_def mark_corrupted_def new_snapshot_def demo_snapshot_def
      HasSuffix_def List.map_filter_simps zero_snapshot_def)

lemma demo_load:
  "loadIndexFromS3 mem_client (demo_store bs) ''ds'' demo_index =
     Inr \<lparr>checksum = demo_csum, digests = [sample_digest 1, sample_digest 2], logicalSize = 8388608\<rparr>"
proof -
  have "demo_csum \<noteq> []"
    by (metis demo_csum_def length_0_conv length_Sum256 length_hex_Encode zero_neq_numeral mult_eq_0_iff)
  then show ?thesis
    using parse_sample_index
    by (simp add: loadIndexFromS3_def mem_client_def mem_get_def demo_store_def checksumFromMetadata_def
        str_at_Cons demo_csum_def sample_digest_def)
qed

definition demo_plan :: gcPlan where
  "demo_plan = empty_plan\<lparr>chunkObjects := [demo_chunk 3],
     knownChunks := [(sample_digest 1, [''backups/100|5|vm/a.fidx'']), (sample_digest 2, [''backups/100|5|vm/a.fidx''])],
     existingChunks := [(sample_digest 1, True), (sample_digest 2, True)],
     chunkSizes := [(sample_digest 1, 1), (sample_digest 2, 1)],
     archiveSizes := [(''backups/100|5|vm/a.fidx'', 8388608)]\<rparr>"

lemma demo_chunk_digest: "chunkDigestFromKey (chunk_key (sample_digest b)) = Inr (sample_digest b)"
  unfolding sample_digest_def by (rule chunkDigestFromKey_chunk_key) simp

lemma demo_expired: "snapshotExpired demo_snapshot 3000000000 0 = Inr False"
  by (simp add: snapshotExpired_def demo_snapshot_def unix_def uint64_of_def Let_def)

lemma demo_scan:
  "scan_backups (gc_loadIndex mem_client (demo_store bs) ''ds'') [] [demo_index]
     (empty_plan\<lparr>expiredSnapshots := []\<rparr>, [])
   = Inr (empty_plan\<lparr>knownChunks := knownChunks demo_plan, archiveSizes := archiveSizes demo_plan\<rparr>,
       if HasSuffix ''backups/100|5|vm/a.fidx'' ''.fidx'' then [demo_csum] else [])"
  by (simp add: demo_keys gc_loadIndex_def demo_load record_index_def add_reference_def
      demo_plan_def empty_plan_def)

lemma demo_inventory:
  "gc_inventory mem_client (demo_store [1, 2, 3]) demo_config 0 3000000000 = Inr (Some demo_plan)"
proof -
  have "buildGCPlan [demo_snapshot] [demo_index] [] (map demo_chunk [1, 2, 3]) 3000000000 0 0
      (gc_loadIndex mem_client (demo_store [1, 2, 3]) ''ds'')
      (gc_loadChecksum mem_client (demo_store [1, 2, 3]) ''ds'') = Inr demo_plan"
    unfolding buildGCPlan_def
    by (simp add: demo_expired demo_scan del: scan_backups.simps)
      (simp add: demo_chunk_digest scan_chunk_def withinGracePeriod_def mark_missing_def
        demo_plan_def empty_plan_def uint64_of_def)
  then show ?thesis
    by (simp add: gc_inventory_def demo_config_def demo_listings demo_snapshots
        refreshExpiredSnapshotProtection_def demo_keys demo_expired)
qed

definition demo_run :: "gc_exit \<times> (mem_store, nat) world" where
  "demo_run = gc_main (\<lambda>_. Inl (Error ''none'')) (\<lambda>_. Suc) True mem_client demo_config
     3000000000 3000000000 \<lparr>w_store = demo_store [1, 2, 3], w_tokens = 0\<rparr>"

lemma demo_config_simps [simp]:
  "gc_chunkGraceHours demo_config = 0" "gc_bucket demo_config = ''ds''" "hoursDuration 0 = Inr 0"
  by (simp_all add: demo_config_def hoursDuration_def int64_of_def)

lemma mem_client_simps:
  "BucketExists mem_client s b = Inr True"
  "RemoveObjects mem_client s b os = ([], filter (\<lambda>((b', k), _). \<not> (b' = b \<and> k \<in> Key ` set os)) s)"
  by (simp_all add: mem_client_def)

lemma chunk_key_not_index: "chunk_key d \<noteq> ''backups/100|5|vm/a.fidx''"
  by (simp add: chunk_key_def)

text \<open>The run removes the orphan and nothing else.\<close>

lemma demo_distinct: "chunk_key (sample_digest x) = chunk_key (sample_digest y) \<longleftrightarrow> x = y"
proof -
  have "sample_digest x = sample_digest y \<longleftrightarrow> x = y"
    by (metis hex_Decode_Encode prod.inject replicate_eq_replicate sample_digest_def zero_neq_numeral)
  then show ?thesis by (metis demo_chunk_digest sum.inject(2))
qed

lemma demo_gc:
  "gc_main (\<lambda>_. Inl (Error ''none'')) publish True mem_client demo_config 3000000000 3000000000
     \<lparr>w_store = demo_store [1, 2, 3], w_tokens = n\<rparr>
   = (Finished, \<lparr>w_store = demo_store [1, 2], w_tokens = publish (demo_store [1, 2]) (publish (demo_store [1, 2]) (publish (demo_store [1, 2, 3]) n))\<rparr>)"
  using demo_inventory
  by (simp add: mem_client_simps gc_main_def gc_sweep_def executeGCPlan_def removeObjectsFully_def writeUsageStats_def
      errors_Join_def demo_plan_def demo_store_def demo_distinct chunk_key_not_index [symmetric])

lemma demo_run_eq: "demo_run = (Finished, \<lparr>w_store = demo_store [1, 2], w_tokens = 3\<rparr>)"
  unfolding demo_run_def demo_gc by simp

theorem gc_never_loses_referenced_chunks_witness:
  "mem_view (w_store (snd demo_run)) ''ds'' (chunk_key (sample_digest 1)) = Some [1]"
proof -
  have "mem_view (w_store (snd demo_run)) ''ds'' ''backups/100|5|vm/a.fidx'' \<noteq> None"
    unfolding demo_run_eq by (simp add: mem_view_def demo_store_def)
  then have "mem_view (w_store (snd demo_run)) ''ds'' (chunk_key (sample_digest 1))
      = mem_view (demo_store [1, 2, 3]) ''ds'' (chunk_key (sample_digest 1))"
    using gc_never_loses_referenced_chunks [OF mem_lists_prefix mem_removes_only mem_removes_all
        mem_puts_only, of "\<lambda>_. Inl (Error ''none'')" "\<lambda>_. Suc" True demo_config 3000000000 3000000000
        "\<lparr>w_store = demo_store [1, 2, 3], w_tokens = 0\<rparr>" "fst demo_run" "snd demo_run" demo_index]
      demo_load demo_lists(1) demo_keys(7)
    by (simp flip: demo_run_def)
  then show ?thesis using chunk_key_not_index by (simp add: mem_view_def demo_store_def)
qed

theorem gc_finished_collects_witness:
  "mem_view (w_store (snd demo_run)) ''ds'' (chunk_key (sample_digest 3)) = None"
proof -
  have "gc_main (\<lambda>_. Inl (Error ''none'')) (\<lambda>_. Suc) True mem_client demo_config
     3000000000 3000000000 \<lparr>w_store = demo_store [1, 2, 3], w_tokens = 0\<rparr> = (Finished, snd demo_run)"
    using arg_cong [OF demo_run_eq, of fst] unfolding demo_run_def [symmetric] by (simp add: prod_eq_iff)
  from gc_finished_collects [OF mem_lists_prefix mem_removes_only mem_removes_all mem_puts_only this]
  show ?thesis using demo_inventory by (auto simp: demo_plan_def)
qed

text \<open>The same bucket without the second chunk.\<close>

lemma demo_inventory_missing:
  "gc_inventory mem_client (demo_store [1]) demo_config 0 3000000000 =
     Inr (Some (demo_plan\<lparr>chunkObjects := [], existingChunks := [(sample_digest 1, True)],
       chunkSizes := [(sample_digest 1, 1)],
       missingChunks := [(sample_digest 2, [''backups/100|5|vm/a.fidx''])]\<rparr>))"
proof -
  have "buildGCPlan [demo_snapshot] [demo_index] [] (map demo_chunk [1]) 3000000000 0 0
      (gc_loadIndex mem_client (demo_store [1]) ''ds'') (gc_loadChecksum mem_client (demo_store [1]) ''ds'')
    = Inr (demo_plan\<lparr>chunkObjects := [], existingChunks := [(sample_digest 1, True)],
       chunkSizes := [(sample_digest 1, 1)],
       missingChunks := [(sample_digest 2, [''backups/100|5|vm/a.fidx''])]\<rparr>)"
    unfolding buildGCPlan_def
    by (simp add: demo_expired demo_scan del: scan_backups.simps)
      (simp add: demo_chunk_digest scan_chunk_def withinGracePeriod_def mark_missing_def
        demo_plan_def empty_plan_def uint64_of_def)
  then show ?thesis
    by (simp add: gc_inventory_def demo_config_def demo_listings demo_snapshots
        refreshExpiredSnapshotProtection_def demo_keys demo_expired del: list.map)
qed

theorem gc_tags_corruption_witness:
  "mem_view (w_store (snd (gc_main (\<lambda>_. Inl (Error ''none'')) (\<lambda>_. Suc) True mem_client demo_config
     3000000000 3000000000 \<lparr>w_store = demo_store [1], w_tokens = 0\<rparr>))) ''ds''
     ''backups/100|5|vm/corrupted'' = Some (bytes_of_string ''CORRUPTED'')"
proof -
  let ?w = "\<lparr>w_store = demo_store [1], w_tokens = 0 :: nat\<rparr>"
  let ?run = "gc_main (\<lambda>_. Inl (Error ''none'')) (\<lambda>_. Suc) True mem_client demo_config 3000000000 3000000000 ?w"
  have key: "corrupted_key ''backups/100|5|vm/a.fidx'' = ''backups/100|5|vm/corrupted''"
    by (simp add: corrupted_key_def)
  have "fst ?run \<noteq> Fatal ''Error tagging as corrupt''"
    using demo_inventory_missing
    by (simp add: gc_main_def mem_client_simps tag_missing_def key)
      (simp add: mem_client_def mem_put_def bytes_NewReader_def bytes_of_string_def)
  with gc_tags_corruption [OF mem_lists_prefix mem_puts_only mem_puts_stored, of
      "\<lambda>_. Inl (Error ''none'')" "\<lambda>_. Suc" True demo_config 3000000000 3000000000 ?w "fst ?run" "snd ?run" 0]
  show ?thesis using demo_inventory_missing by (simp add: mem_client_simps key)
qed

end
