(* ===== verification/ArchiveCodec.thy ===== *)
theory ArchiveCodec
  imports CollectorRun IndexWriters
begin

text \<open>
  The contract between the program that writes an index file and the collector that reads it: what is
  encoded is parsed back to the digests it lists. Under that contract the chunks of a stored archive
  survive every run of the collector that leaves the archive. Both index formats meet it.
\<close>

section \<open>What the collector meets\<close>

text \<open>
  An object as the collector meets it: listed under its key with the checksum of its metadata, and
  read in full as it is stored.
\<close>

definition offered :: "'s s3_client \<Rightarrow> 's view \<Rightarrow> 's \<Rightarrow> string \<Rightarrow> object_info \<Rightarrow> string \<Rightarrow> bool" where
  "offered c view st b obj csum \<longleftrightarrow>
     obj \<in> set (ListObjects c st b ''backups/'') \<and> checksumFromMetadata obj = csum
     \<and> (case GetObject c st b (Key obj) of
          Inl e \<Rightarrow> False
        | Inr h \<Rightarrow> (case io_ReadAll (oh_body h) of Inl e \<Rightarrow> False | Inr data \<Rightarrow> view st b (Key obj) = Some data))"

lemma offered_loads:
  assumes "offered c view st b obj csum" "view st b (Key obj) = Some data" "csum \<noteq> []"
  shows "loadIndexFromS3 c st b obj = parseIndex (Key obj) data csum"
  using assms by (auto simp: offered_def loadIndexFromS3_def split: sum.splits)

lemma hex_Sum256_nonempty: "hex_EncodeToString (Sum256 bs) \<noteq> []"
  by (metis length_0_conv length_Sum256 length_hex_Encode mult_eq_0_iff zero_neq_numeral)

section \<open>The contract\<close>

text \<open>
  An archive \<open>x\<close> is written as the bytes \<open>encode x\<close> under a name with the suffix of its format, with the
  SHA-256 of its payload as its checksum; \<open>listed x\<close> are the digests of its chunks.
\<close>

locale index_codec =
  fixes encode :: "'x \<Rightarrow> bytes"
    and payload :: "'x \<Rightarrow> bytes"
    and listed :: "'x \<Rightarrow> bytes list"
    and good :: "'x \<Rightarrow> bool"
    and suffix :: string
  assumes parses: "good x \<Longrightarrow> HasSuffix key suffix \<Longrightarrow>
      \<exists>n. parseIndex key (encode x) (hex_EncodeToString (Sum256 (payload x)))
        = Inr \<lparr>checksum = hex_EncodeToString (Sum256 (payload x)), digests = map hex_EncodeToString (listed x),
            logicalSize = n\<rparr>"
    and is_index: "HasSuffix key suffix \<Longrightarrow> is_index_key key"
begin

lemma survives_collection:
  assumes laws: "lists_prefix c" "removes_only c view" "removes_all c view" "puts_only c view"
    and x: "good x" "HasSuffix (Key obj) suffix"
    and before: "view (w_store w) (gc_bucket cfg) (Key obj) = Some (encode x)"
      "offered c view (w_store w) (gc_bucket cfg) obj (hex_EncodeToString (Sum256 (payload x)))"
    and run: "gc_main json publish acquired c cfg t t2 w = (exit, w')"
    and after: "view (w_store w') (gc_bucket cfg) (Key obj) \<noteq> None"
    and d: "d \<in> set (listed x)"
  shows "view (w_store w') (gc_bucket cfg) (chunk_key (hex_EncodeToString d))
    = view (w_store w) (gc_bucket cfg) (chunk_key (hex_EncodeToString d))"
proof -
  from parses [OF x] obtain n where
    "loadIndexFromS3 c (w_store w) (gc_bucket cfg) obj
       = Inr \<lparr>checksum = hex_EncodeToString (Sum256 (payload x)), digests = map hex_EncodeToString (listed x),
           logicalSize = n\<rparr>"
    using offered_loads [OF before(2,1) hex_Sum256_nonempty] by auto
  moreover have "obj \<in> set (ListObjects c (w_store w) (gc_bucket cfg) ''backups/'')"
    using before(2) by (simp add: offered_def)
  ultimately show ?thesis
    using gc_main_keeps_referenced [OF laws run _ is_index [OF x(2)] after] d by simp
qed

end

section \<open>The two formats\<close>

record fixed_archive =
  fa_uuid :: bytes
  fa_ctime :: u64
  fa_size :: u64
  fa_chunksize :: u64
  fa_digests :: "bytes list"

definition fixed_payload :: "fixed_archive \<Rightarrow> bytes" where
  "fixed_payload x = concat (fa_digests x)"

definition fixed_file :: "fixed_archive \<Rightarrow> bytes" where
  "fixed_file x =
     fixed_layout (fa_uuid x) (fa_ctime x) (Sum256 (fixed_payload x)) (fa_size x) (fa_chunksize x) (fa_digests x)"

definition fixed_good :: "fixed_archive \<Rightarrow> bool" where
  "fixed_good x \<longleftrightarrow> length (fa_uuid x) = 16 \<and> (\<forall>d \<in> set (fa_digests x). length d = 32)"

interpretation fixed_codec: index_codec fixed_file fixed_payload fa_digests fixed_good "''.fidx''"
proof
  fix x key
  assume "fixed_good x" "HasSuffix key ''.fidx''"
  then show "\<exists>n. parseIndex key (fixed_file x) (hex_EncodeToString (Sum256 (fixed_payload x)))
      = Inr \<lparr>checksum = hex_EncodeToString (Sum256 (fixed_payload x)),
          digests = map hex_EncodeToString (fa_digests x), logicalSize = n\<rparr>"
    using parseIndex_fixed [of "fa_uuid x" "fa_digests x" "Sum256 (fixed_payload x)" key]
    by (simp add: fixed_good_def fixed_file_def fixed_payload_def)
qed (simp add: is_index_key_def)

record dynamic_archive =
  da_uuid :: bytes
  da_ctime :: u64
  da_entries :: "(u64 \<times> bytes) list"

definition dynamic_payload :: "dynamic_archive \<Rightarrow> bytes" where
  "dynamic_payload x = concat (map (\<lambda>(off, d). AppendUint64 off @ d) (da_entries x))"

definition dynamic_file :: "dynamic_archive \<Rightarrow> bytes" where
  "dynamic_file x = dynamic_layout (da_uuid x) (da_ctime x) (Sum256 (dynamic_payload x)) (da_entries x)"

definition dynamic_good :: "dynamic_archive \<Rightarrow> bool" where
  "dynamic_good x \<longleftrightarrow> length (da_uuid x) = 16 \<and> (\<forall>(off, d) \<in> set (da_entries x). length d = 32)"

interpretation dynamic_codec: index_codec dynamic_file dynamic_payload "\<lambda>x. map snd (da_entries x)" dynamic_good "''.didx''"
proof
  fix x key
  assume "dynamic_good x" "HasSuffix key ''.didx''"
  then show "\<exists>n. parseIndex key (dynamic_file x) (hex_EncodeToString (Sum256 (dynamic_payload x)))
      = Inr \<lparr>checksum = hex_EncodeToString (Sum256 (dynamic_payload x)),
          digests = map hex_EncodeToString (map snd (da_entries x)), logicalSize = n\<rparr>"
    using parseIndex_dynamic [of "da_uuid x" "da_entries x" "Sum256 (dynamic_payload x)" key] not_both_suffixes
    by (simp add: dynamic_good_def dynamic_file_def dynamic_payload_def case_prod_unfold comp_def)
qed (simp add: is_index_key_def)

section \<open>What a close stores\<close>

lemma fixed_close_stores_file:
  assumes laws: "puts_stored c view" "puts_only c view" "copies c view"
    and w: "closes q s w" "ReuseCSUM w = []"
    and sizes: "sizes_ok w" "length (Assignments w) = slot_count w" "4096 + 32 * slot_count w < 2 ^ 64"
    and full: "\<forall>j < slot_count w. slot w j \<noteq> None" "\<forall>(k, v) \<in> set (Assignments w). length v = 32"
    and uuid: "length (ce_uuid env) = 16"
    and csum: "str_at q ''csum'' = hex_EncodeToString (Sum256 (concat (slot_digests w)))"
    and closed: "fixed_close env c q st s = Some (Returns (Ok ()), st', s')"
    and x: "x = \<lparr>fa_uuid = ce_uuid env, fa_ctime = ce_now env, fa_size = WriterSize w, fa_chunksize = Chunksize w,
      fa_digests = slot_digests w\<rparr>"
  shows "fixed_good x"
    and "view st' (SelectedDataStore s) (S3Prefix (SessionSnapshot s) @ ''/'' @ FidxName w) = Some (fixed_file x)"
    and "str_at q ''csum'' = hex_EncodeToString (Sum256 (fixed_payload x))"
proof -
  have layout: "fixed_layout (ce_uuid env) (ce_now env) (Sum256 (concat (slot_digests w))) (WriterSize w) (Chunksize w)
      (slot_digests w) = fixed_file x"
    by (simp add: x fixed_file_def fixed_payload_def)
  obtain r st1 s1 where store: "store_fixed c (str_at q ''csum'') (fixed_file x) w st s = (r, st1)"
    and close: "fixed_close env c q st s = Some (Returns r, st1, s1)"
    and ds: "\<forall>d \<in> set (slot_digests w). length d = 32"
    by (rule fixed_close_new [OF w sizes full(1) [rule_format] full(2) uuid csum, unfolded layout])
  with closed have "store_fixed c (str_at q ''csum'') (fixed_file x) w st s = (Ok (), st')" by simp
  from store_fixed_view(1) [OF laws this refl refl]
  show "view st' (SelectedDataStore s) (S3Prefix (SessionSnapshot s) @ ''/'' @ FidxName w) = Some (fixed_file x)" by simp
  show "fixed_good x" using ds uuid by (simp add: x fixed_good_def)
  show "str_at q ''csum'' = hex_EncodeToString (Sum256 (fixed_payload x))" by (simp add: csum x fixed_payload_def)
qed

lemma dynamic_close_stores_file:
  assumes laws: "puts_stored c view" "puts_only c view"
    and w: "closes q s w0" "w = load_known (KnownChunksSizes s) w0"
      "\<forall>(k, v) \<in> set (Assignments w0). length v = 32" "length (ce_uuid env) = 16"
    and keys: "keys = sort (map fst (Assignments w0))" "\<forall>k \<in> set keys. size_known w k"
    and csum: "str_at q ''csum'' = hex_EncodeToString (Sum256 (dynamic_payload x))"
    and closed: "dynamic_close json_Marshal env c q st s = (Returns (Ok ()), st', s')"
    and x: "x = \<lparr>da_uuid = ce_uuid env, da_ctime = ce_now env, da_entries = map (dynamic_entry w) keys\<rparr>"
  shows "dynamic_good x"
    and "view st' (SelectedDataStore s) (S3Prefix (SessionSnapshot s) @ ''/'' @ FidxName w0) = Some (dynamic_file x)"
proof -
  have name: "FidxName w = FidxName w0" "Assignments w = Assignments w0" by (simp_all add: w(2))
  obtain r st1 where store: "store_dynamic c (str_at q ''csum'') (dynamic_file x)
      (json_Marshal (sizes_of w keys [])) w st s = (r, st1)" by fastforce
  have "dynamic_close json_Marshal env c q st s
      = (Returns r, st1, set_writer (word_of_int (fst (ParseInt (str_at q ''wid'') 32))) w s)"
    unfolding dynamic_close_known [OF w(1,2) keys csum]
    using store by (simp add: x dynamic_file_def)
  with closed store have "store_dynamic c (str_at q ''csum'') (dynamic_file x)
      (json_Marshal (sizes_of w keys [])) w st s = (Ok (), st')" by simp
  from store_dynamic_view(1) [OF laws this refl refl] name
  show "view st' (SelectedDataStore s) (S3Prefix (SessionSnapshot s) @ ''/'' @ FidxName w0) = Some (dynamic_file x)" by simp
  have "length (chunk_at w k) = 32" if "k \<in> set keys" for k
    using that w(3) name(2) keys(1) by (intro length_chunk_at) auto
  then show "dynamic_good x" using w(4) by (simp add: x dynamic_good_def dynamic_entry_def)
qed

end
