(* ===== verification/CollectorStart.thy ===== *)
theory CollectorStart
  imports CollectorRun BackupSession
begin

text \<open>
  The start of \<open>cmd/garbagecollector/main.go\<close>: from the parsed command line, through the secret key and
  the client, to the lock, and the publications the run makes. The key file, the constructor of the
  S3 client and the mutex are parameters; the end of the start is the run of \<open>CollectorRun\<close>.
\<close>

section \<open>The command line\<close>

record collector_options =
  co_version :: bool
  co_endpoint :: string
  co_usessl :: bool
  co_bucket :: string
  co_accesskey :: string
  co_secretkey :: string
  co_secretkeyfile :: string
  co_retention :: u64
  co_chunkgrace :: u64
  co_cacheinvalidatedir :: string
  co_lookuptype :: string

definition collector_defaults :: collector_options where
  "collector_defaults =
     \<lparr>co_version = False, co_endpoint = [], co_usessl = False, co_bucket = [], co_accesskey = [],
      co_secretkey = [], co_secretkeyfile = [], co_retention = 60, co_chunkgrace = 24,
      co_cacheinvalidatedir = [], co_lookuptype = ''auto''\<rparr>"

definition options_missing :: "collector_options \<Rightarrow> bool" where
  "options_missing o' \<longleftrightarrow>
     co_endpoint o' = [] \<or> co_accesskey o' = [] \<or> (co_secretkey o' = [] \<and> co_secretkeyfile o' = []) \<or> co_bucket o' = []"

section \<open>The secret key\<close>

text \<open>\<open>strings.Trim\<close> with a cutset of ASCII characters.\<close>

definition strings_Trim :: "string \<Rightarrow> string \<Rightarrow> string" where
  "strings_Trim s cutset = rev (dropWhile (\<lambda>ch. ch \<in> set cutset) (rev (dropWhile (\<lambda>ch. ch \<in> set cutset) s)))"

definition key_cutset :: string where
  "key_cutset = [CHR '' '', CHR 0x0D, CHR 0x09, CHR 0x0A]"

definition secret_key :: "(string \<Rightarrow> bytes result) \<Rightarrow> collector_options \<Rightarrow> string result" where
  "secret_key os_ReadFile o' =
     (let skey = co_secretkey o' in
      if skey = []
      then (case os_ReadFile (co_secretkeyfile o') of
              Inl e \<Rightarrow> Inl (Wrap ''Reading key file'' e)
            | Inr data \<Rightarrow> Inr (strings_Trim (string_of_bytes data) key_cutset))
      else Inr skey)"

section \<open>Publications of the run\<close>

text \<open>
  The token directory as the process sees it: the files, its sequence number, and how many publications
  it has tried, which tells the system calls and clock readings of the next one. The last field is
  not part of the program: the store at the time of the latest publication that succeeded.
\<close>

record 's token_state =
  ts_files :: fs
  ts_sequence :: u64
  ts_tried :: nat
  ts_published :: "'s option"

record token_env =
  te_calls :: "nat \<Rightarrow> fs_calls"
  te_clock :: "nat \<Rightarrow> int"
  te_pid :: nat

definition publishInvalidation :: "token_env \<Rightarrow> collector_options \<Rightarrow> 's \<Rightarrow> 's token_state \<Rightarrow> 's token_state" where
  "publishInvalidation te o' st ts =
     (let i = ts_tried ts in
      case PublishCacheInvalidation (te_calls te i) (te_clock te i) (te_pid te) (co_cacheinvalidatedir o')
             (co_endpoint o') (co_bucket o') (ts_files ts) (ts_sequence ts) of
        (r, f, sequence) \<Rightarrow>
          \<lparr>ts_files = f, ts_sequence = sequence, ts_tried = Suc i,
           ts_published = (case r of Inl e \<Rightarrow> ts_published ts | Inr token \<Rightarrow> Some st)\<rparr>)"

section \<open>The process\<close>

text \<open>What the process finds around it.\<close>

record 's collector_env =
  cv_ReadFile :: "string \<Rightarrow> bytes result"
  cv_New :: "string \<Rightarrow> string \<Rightarrow> string \<Rightarrow> bool \<Rightarrow> BucketLookupType \<Rightarrow> 's s3_client result"
  cv_Acquire :: "string \<Rightarrow> goerr option"
  cv_Marshal :: "UsageStats \<Rightarrow> bytes result"
  cv_tokens :: token_env
  cv_markTime :: int
  cv_reportTime :: int

text \<open>Left by \<open>os.Exit\<close> before anything was done, or by the end of the run.\<close>

datatype collector_exit = Exit nat | Ran gc_exit

definition run_config :: "collector_options \<Rightarrow> gc_config" where
  "run_config o' =
     \<lparr>gc_endpoint = co_endpoint o', gc_bucket = co_bucket o', gc_retentionDays = co_retention o',
      gc_chunkGraceHours = co_chunkgrace o'\<rparr>"

definition collector_main ::
    "'s collector_env \<Rightarrow> collector_options \<Rightarrow> ('s, 's token_state) world \<Rightarrow> collector_exit \<times> ('s, 's token_state) world" where
  "collector_main env o' w =
     (if co_version o' then (Exit 0, w)
      else if options_missing o' then (Exit 1, w)
      else
        (case hoursDuration (co_chunkgrace o') of
           Inl e \<Rightarrow> (Ran (Fatal ''Invalid chunk grace period''), w)
         | Inr grace \<Rightarrow>
             (case secret_key (cv_ReadFile env) o' of
                Inl e \<Rightarrow> (Ran (Fatal ''Reading key file''), w)
              | Inr skey \<Rightarrow>
                  (case cv_New env (co_endpoint o') (co_accesskey o') skey (co_usessl o') (GetLookupType (co_lookuptype o')) of
                     Inl e \<Rightarrow> (Ran (Fatal ''Creating S3 Client''), w)
                   | Inr c \<Rightarrow>
                       (case gc_main (cv_Marshal env) (publishInvalidation (cv_tokens env) o')
                               (cv_Acquire env (DataStoreLockName (co_endpoint o') (co_bucket o')) = None)
                               c (run_config o') (cv_markTime env) (cv_reportTime env) w of
                          (exit, w') \<Rightarrow> (Ran exit, w'))))))"

section \<open>Lemmas\<close>

lemma dropWhile_padded:
  "set l \<subseteq> A \<Longrightarrow> s \<noteq> [] \<Longrightarrow> hd s \<notin> A \<Longrightarrow> dropWhile (\<lambda>x. x \<in> A) (l @ s @ r) = s @ r"
  by (induction l) (cases s, auto)

lemma Trim_padded:
  assumes "set l \<subseteq> set cutset" "set r \<subseteq> set cutset" "s \<noteq> []" "hd s \<notin> set cutset" "last s \<notin> set cutset"
  shows "strings_Trim (l @ s @ r) cutset = s"
  using assms dropWhile_padded [of l "set cutset" s r] dropWhile_padded [of "rev r" "set cutset" "rev s" "[]"]
  by (simp add: strings_Trim_def hd_rev)

text \<open>A key file may surround the key with blanks and line ends.\<close>

lemma secret_key_from_file:
  assumes "co_secretkey o' = []" "os_ReadFile (co_secretkeyfile o') = Inr (bytes_of_string (l @ key @ r))"
    and "set l \<subseteq> set key_cutset" "set r \<subseteq> set key_cutset"
    and "key \<noteq> []" "hd key \<notin> set key_cutset" "last key \<notin> set key_cutset"
  shows "secret_key os_ReadFile o' = Inr key"
  using assms by (simp add: secret_key_def Trim_padded)

lemma collector_main_cases:
  assumes "collector_main env o' w = (exit, w')"
  obtains (stopped) "w' = w" "exit \<in> {Exit 0, Exit 1} \<union> range (\<lambda>m. Ran (Fatal m))"
  | (ran) skey c e where "\<not> co_version o'" "\<not> options_missing o'" "secret_key (cv_ReadFile env) o' = Inr skey"
      "cv_New env (co_endpoint o') (co_accesskey o') skey (co_usessl o') (GetLookupType (co_lookuptype o')) = Inr c"
      "cv_Acquire env (dataStoreLockName (co_endpoint o') (co_bucket o')) = None" "exit = Ran e"
      "gc_main (cv_Marshal env) (publishInvalidation (cv_tokens env) o') True c (run_config o')
         (cv_markTime env) (cv_reportTime env) w = (e, w')"
proof -
  let ?lock = "DataStoreLockName (co_endpoint o') (co_bucket o')"
  have unlocked: "w' = w \<and> e \<in> range Fatal" if "gc_main json publish False c cfg t t2 w = (e, w')"
    for json c cfg t t2 e and publish :: "'a \<Rightarrow> 'a token_state \<Rightarrow> 'a token_state"
    using that by (auto simp: gc_main_def split: sum.splits)
  consider "w' = w" "exit \<in> {Exit 0, Exit 1} \<union> range (\<lambda>m. Ran (Fatal m))"
    | skey c e where "\<not> co_version o'" "\<not> options_missing o'" "secret_key (cv_ReadFile env) o' = Inr skey"
      "cv_New env (co_endpoint o') (co_accesskey o') skey (co_usessl o') (GetLookupType (co_lookuptype o')) = Inr c"
      "exit = Ran e" "gc_main (cv_Marshal env) (publishInvalidation (cv_tokens env) o') (cv_Acquire env ?lock = None) c
         (run_config o') (cv_markTime env) (cv_reportTime env) w = (e, w')"
    using assms by (auto simp: collector_main_def split: if_splits sum.splits prod.splits)
  then show ?thesis
  proof cases
    case (2 skey c e)
    show ?thesis
    proof (cases "cv_Acquire env ?lock = None")
      case True
      with 2 show ?thesis by (intro ran [OF 2(1-4)]) (simp_all add: dataStoreLockName_def)
    next
      case False
      with 2 unlocked have "w' = w" "e \<in> range Fatal" by simp_all
      with 2(5) show ?thesis by (intro stopped) auto
    qed
  qed (rule stopped)
qed

text \<open>All system calls of a publication succeed.\<close>

definition calls_succeed :: "fs_calls \<Rightarrow> bool" where
  "calls_succeed calls \<longleftrightarrow>
     mkdir_err calls = None \<and> (case create_temp calls of Inl e \<Rightarrow> False | Inr name \<Rightarrow> True) \<and> chmod_err calls = None
     \<and> write_err calls = None \<and> close_err calls = None \<and> rename_err calls = None"

lemma publishInvalidation_token:
  assumes "co_cacheinvalidatedir o' \<noteq> []" "\<forall>i. calls_succeed (te_calls te i)"
  obtains token where "token \<noteq> []" "ts_published (publishInvalidation te o' st ts) = Some st"
    "map_of (ts_files (publishInvalidation te o' st ts))
       (CacheInvalidationTokenPath (co_cacheinvalidatedir o') (co_endpoint o') (co_bucket o')) = Some token"
proof -
  let ?run = "PublishCacheInvalidation (te_calls te (ts_tried ts)) (te_clock te (ts_tried ts)) (te_pid te)
    (co_cacheinvalidatedir o') (co_endpoint o') (co_bucket o') (ts_files ts) (ts_sequence ts)"
  obtain token f s where run: "?run = (Inr token, f, s)"
    using assms(2) [THEN spec, of "ts_tried ts"] assms(1)
    by (auto simp: calls_succeed_def PublishCacheInvalidation_def Let_def split: sum.splits)
  from publish_Inr [OF run assms(1)] show ?thesis using that [of token] by (simp add: publishInvalidation_def run)
qed

section \<open>Properties\<close>

text \<open>
  C20: The collector acts only with everything in place. When a run of the process changed anything, in the
  bucket or in the token directory, then the command line was complete, the key was given or read, a
  client could be made with it, and the process held the lock whose name is the one sessions of a
  proxy on the same endpoint and bucket use; and the change is what the run of the collector makes on
  that bucket.
\<close>

theorem collector_acts_only_locked:
  assumes run: "collector_main env o' w = (exit, w')" and changed: "w' \<noteq> w"
  shows "\<not> co_version o' \<and> \<not> options_missing o'
    \<and> (\<exists>skey c lock e. secret_key (cv_ReadFile env) o' = Inr skey
      \<and> cv_New env (co_endpoint o') (co_accesskey o') skey (co_usessl o') (GetLookupType (co_lookuptype o')) = Inr c
      \<and> cv_Acquire env lock = None \<and> fst (beginDataStoreSession None (co_endpoint o') (co_bucket o') s) = Inr lock
      \<and> exit = Ran e
      \<and> gc_main (cv_Marshal env) (publishInvalidation (cv_tokens env) o') True c (run_config o')
          (cv_markTime env) (cv_reportTime env) w = (e, w'))"
  using run
proof (cases rule: collector_main_cases)
  case (ran skey c e)
  moreover have "fst (beginDataStoreSession None (co_endpoint o') (co_bucket o') s)
      = Inr (dataStoreLockName (co_endpoint o') (co_bucket o'))"
    by (simp add: beginDataStoreSession_def Let_def split: option.split)
  ultimately show ?thesis by blast
qed (use changed in simp)

text \<open>
  C25: What the collector changed no proxy goes on hiding. When the process changed the bucket, whether it
  finished, only marked corrupt snapshots, or failed in the middle of the sweep, and its
  publications succeed, then it leaves a token that was published when the bucket was already as the
  process leaves it; and every proxy that shares the token directory and the endpoint, and has not
  seen that token, whichever earlier ones it has seen, drops all it had cached of the bucket at its
  next request. The one exception is a run stopped by a marker that could not be written.
\<close>

theorem collector_run_reaches_proxies:
  assumes run: "collector_main env o' w = (exit, w')" and changed: "w_store w' \<noteq> w_store w"
    and exit: "exit \<noteq> Ran (Fatal ''Error tagging as corrupt'')"
    and calls: "co_cacheinvalidatedir o' \<noteq> []" "\<forall>i. calls_succeed (te_calls (cv_tokens env) i)"
  shows "\<exists>token. token \<noteq> [] \<and> ts_published (w_tokens w') = Some (w_store w')
    \<and> ReadCacheInvalidation None (co_cacheinvalidatedir o') (co_endpoint o') (co_bucket o') (ts_files (w_tokens w')) = Inr token
    \<and> (\<forall>p. ci_directory (pp_invalidations p) = co_cacheinvalidatedir o' \<longrightarrow> ci_endpoint (pp_invalidations p) = co_endpoint o' \<longrightarrow>
        str_at (ci_seen (pp_invalidations p)) (co_bucket o') \<noteq> token \<longrightarrow>
        caches_dropped (co_bucket o')
          (pp_caches (syncDataStoreCacheInvalidation None (co_bucket o') (ts_files (w_tokens w')) p)))"
  using run
proof (cases rule: collector_main_cases)
  case (ran skey c e)
  then obtain n where "w_tokens w' = publishInvalidation (cv_tokens env) o' (w_store w') n"
    using gc_main_publishes_last changed exit by metis
  then obtain token where token: "token \<noteq> []" "ts_published (w_tokens w') = Some (w_store w')"
    "map_of (ts_files (w_tokens w')) (CacheInvalidationTokenPath (co_cacheinvalidatedir o') (co_endpoint o') (co_bucket o'))
     = Some token"
    using publishInvalidation_token [OF calls] by metis
  have sync: "caches_dropped (co_bucket o') (pp_caches (syncDataStoreCacheInvalidation None (co_bucket o') (ts_files (w_tokens w')) p))"
    if "ci_directory (pp_invalidations p) = co_cacheinvalidatedir o'" "ci_endpoint (pp_invalidations p) = co_endpoint o'"
      "str_at (ci_seen (pp_invalidations p)) (co_bucket o') \<noteq> token" for p
    using token(1,3) that that(3) [symmetric] calls(1)
    by (simp add: syncDataStoreCacheInvalidation_def ReadCacheInvalidation_def Let_def invalidate_local_drops)
  show ?thesis
    using token calls(1) sync by (intro exI [of _ token]) (simp add: ReadCacheInvalidation_def)
qed (use changed in simp)

section \<open>A concrete run\<close>

definition demo_options :: collector_options where
  "demo_options = collector_defaults\<lparr>co_endpoint := ''s3'', co_bucket := ''ds'', co_accesskey := ''a'',
     co_secretkeyfile := ''key'', co_retention := 0, co_chunkgrace := 0, co_cacheinvalidatedir := ''/run/x''\<rparr>"

definition demo_environment :: "mem_store collector_env" where
  "demo_environment =
     \<lparr>cv_ReadFile = (\<lambda>_. Inr (bytes_of_string (''secret'' @ [CHR 0x0A]))),
      cv_New = (\<lambda>_ _ key _ _. if key = ''secret'' then Inr mem_client else Inl (Error ''key'')), cv_Acquire = (\<lambda>_. None),
      cv_Marshal = (\<lambda>_. Inl (Error ''none'')),
      cv_tokens = \<lparr>te_calls = (\<lambda>_. good_calls), te_clock = (\<lambda>i. int i), te_pid = 9\<rparr>,
      cv_markTime = 3000000000, cv_reportTime = 3000000000\<rparr>"

definition demo_world :: "(mem_store, mem_store token_state) world" where
  "demo_world = \<lparr>w_store = demo_store [1, 2, 3], w_tokens = \<lparr>ts_files = [], ts_sequence = 0, ts_tried = 0, ts_published = None\<rparr>\<rparr>"

lemma demo_options_simps [simp]:
  "co_cacheinvalidatedir demo_options = ''/run/x''" "co_endpoint demo_options = ''s3''" "co_bucket demo_options = ''ds''"
  "co_chunkgrace demo_options = 0" "\<not> co_version demo_options" "\<not> options_missing demo_options"
  by (simp_all add: demo_options_def collector_defaults_def options_missing_def)

lemma demo_environment_simps [simp]:
  "cv_New demo_environment ep ak ''secret'' ssl lookup = Inr mem_client" "cv_Acquire demo_environment name = None"
  "cv_Marshal demo_environment = (\<lambda>_. Inl (Error ''none''))"
  "cv_markTime demo_environment = 3000000000" "cv_reportTime demo_environment = 3000000000"
  by (simp_all add: demo_environment_def)

lemma demo_main:
  "\<exists>n. collector_main demo_environment demo_options demo_world
     = (Ran gc_exit.Finished, \<lparr>w_store = demo_store [1, 2], w_tokens = n\<rparr>)"
proof -
  have "secret_key (cv_ReadFile demo_environment) demo_options = Inr ''secret''"
    using secret_key_from_file [of demo_options "cv_ReadFile demo_environment" "[]" "''secret''" "[CHR 0x0A]"]
    by (simp add: demo_options_def collector_defaults_def demo_environment_def key_cutset_def)
  moreover have "run_config demo_options = demo_config"
    by (simp add: run_config_def demo_config_def demo_options_def)
  ultimately show ?thesis
    using demo_gc [of "publishInvalidation (cv_tokens demo_environment) demo_options" "w_tokens demo_world"]
    by (intro exI) (simp add: collector_main_def demo_world_def)
qed

lemma demo_store_shrinks: "demo_store [1, 2] \<noteq> demo_store [1, 2, 3]"
  by (simp add: demo_store_def)

theorem collector_acts_only_locked_witness:
  "\<not> options_missing demo_options \<and> snd (collector_main demo_environment demo_options demo_world) \<noteq> demo_world"
proof -
  obtain n where run: "collector_main demo_environment demo_options demo_world
     = (Ran gc_exit.Finished, \<lparr>w_store = demo_store [1, 2], w_tokens = n\<rparr>)" using demo_main ..
  moreover have changed: "\<lparr>w_store = demo_store [1, 2], w_tokens = n\<rparr> \<noteq> demo_world"
    using demo_store_shrinks by (simp add: demo_world_def)
  ultimately show ?thesis using collector_acts_only_locked [OF run changed] by simp
qed

theorem collector_run_reaches_proxies_witness:
  "ts_published (w_tokens (snd (collector_main demo_environment demo_options demo_world))) = Some (demo_store [1, 2])
   \<and> caches_dropped ''ds'' (pp_caches (syncDataStoreCacheInvalidation None ''ds''
        (ts_files (w_tokens (snd (collector_main demo_environment demo_options demo_world)))) sample_process))"
proof -
  obtain n where run: "collector_main demo_environment demo_options demo_world
     = (Ran gc_exit.Finished, \<lparr>w_store = demo_store [1, 2], w_tokens = n\<rparr>)" using demo_main ..
  have "\<forall>i. calls_succeed (te_calls (cv_tokens demo_environment) i)"
    by (simp add: demo_environment_def calls_succeed_def good_calls_def)
  moreover have "ci_directory (pp_invalidations sample_process) = ''/run/x''" "ci_endpoint (pp_invalidations sample_process) = ''s3''"
    "str_at (ci_seen (pp_invalidations sample_process)) ''ds'' = []" by (simp_all add: sample_process_def)
  ultimately show ?thesis
    using collector_run_reaches_proxies [OF run] demo_store_shrinks unfolding run by (auto simp: demo_world_def)
qed

end
