(* ===== verification/SystemSafety.thy ===== *)
theory SystemSafety
  imports ArchiveCodec CollectorStart ProxyServer
begin

text \<open>
  The programs together on one object store. A step is a request of some session, the removal of an
  unfinished snapshot at the end of a session, a request to an HTTP/1.1 server, or a run of the
  collector, each on any bucket, with any content and however it ends. What the steps do to the store
  is what the handlers of the other theories do to it; steps are taken one at a time.
\<close>

section \<open>Steps\<close>

inductive system_step :: "'s s3_client \<Rightarrow> 's set_tags \<Rightarrow> 's \<Rightarrow> 's \<Rightarrow> bool" for c set_tags where
  by_session:
    "uploads_as_group env \<Longrightarrow> session_handle env c rq st s = Some (r, st', s') \<Longrightarrow> system_step c set_tags st st'"
| by_cleanup: "Delete c st S = (e, st') \<Longrightarrow> system_step c set_tags st st'"
| by_http1:
    "ServeHTTP env rq a = (r', a') \<Longrightarrow> h1_set_tags env c = set_tags \<Longrightarrow>
     (\<And>te c'. authenticate (rq_cookie rq) a = Some te \<Longrightarrow> Client te = Some c' \<Longrightarrow> c' = c) \<Longrightarrow>
     system_step c set_tags (px_store a) (px_store a')"
| by_collector:
    "collector_main env o' w = (exit, w') \<Longrightarrow>
     \<forall>ep ak key ssl lookup c'. cv_New env ep ak key ssl lookup = Inr c' \<longrightarrow> c' = c \<Longrightarrow>
     system_step c set_tags (w_store w) (w_store w')"

text \<open>The archive is stored under its key, listed with its checksum, and readable.\<close>

definition archive_kept :: "'s s3_client \<Rightarrow> 's view \<Rightarrow> string \<Rightarrow> string \<Rightarrow> bytes \<Rightarrow> string \<Rightarrow> 's \<Rightarrow> bool" where
  "archive_kept c view b key data csum st \<longleftrightarrow>
     view st b key = Some data \<and> (\<exists>obj. Key obj = key \<and> offered c view st b obj csum)"

section \<open>Lemmas\<close>

lemma may_not_write_chunk: "\<not> may_write rq ds (chunk_key d)"
  by (simp add: may_write_def chunk_key_def S3Prefix_def HasPrefix_def)

lemma Delete_keeps_chunk:
  assumes "removes_only c view" "lists_prefix c"
  shows "view (snd (Delete c st S)) b (chunk_key d) = view st b (chunk_key d)"
  by (rule Delete_only_prefix [OF assms]) (simp add: chunk_key_def S3Prefix_def HasPrefix_def)

lemma http1_keeps_chunk:
  assumes laws: "removes_only c view" "lists_prefix c" "puts_only c view" "tags_keep_bytes set_tags view"
    and run: "ServeHTTP env rq a = (r, a')" "h1_set_tags env c = set_tags"
      "\<And>te c'. authenticate (rq_cookie rq) a = Some te \<Longrightarrow> Client te = Some c' \<Longrightarrow> c' = c"
  shows "view (px_store a') b (chunk_key d) = view (px_store a) b (chunk_key d)"
  using ServeHTTP_served [OF run(1)]
proof cases
  case (by_datastore_api c' ds)
  then have "c' = c" using run(3) by (auto simp: on_datastore_def)
  with api_effect_writes [OF laws(1-3) _ _ by_datastore_api(2) [unfolded this], of b "chunk_key d"] laws(4) run(2)
  show ?thesis by (simp add: may_not_write_chunk)
next
  case by_ticket
  then show ?thesis by (simp add: ticket_request_store)
next
  case by_caches
  then show ?thesis by simp
qed

lemma gc_main_keeps_chunk:
  assumes laws: "lists_prefix c" "removes_only c view" "removes_all c view" "puts_only c view"
    and run: "gc_main json publish acquired c cfg t t2 w = (exit, w')"
    and idx: "is_index_key key" "csum \<noteq> []" "parseIndex key data csum = Inr idx" "d \<in> set (digests idx)"
    and before: "archive_kept c view b key data csum (w_store w)"
    and after: "view (w_store w') b key \<noteq> None"
  shows "view (w_store w') b (chunk_key d) = view (w_store w) b (chunk_key d)"
proof (cases "b = gc_bucket cfg")
  case True
  obtain obj where obj: "Key obj = key" "offered c view (w_store w) b obj csum" "view (w_store w) b key = Some data"
    using before by (auto simp: archive_kept_def)
  then have "loadIndexFromS3 c (w_store w) b obj = Inr idx"
    using offered_loads [OF obj(2) _ idx(2)] idx(3) by simp
  moreover have "obj \<in> set (ListObjects c (w_store w) b ''backups/'')" using obj(2) by (simp add: offered_def)
  ultimately show ?thesis
    using gc_main_keeps_referenced [OF laws run, of obj idx d] obj(1) idx(1,4) after True by simp
next
  case False
  from gc_main_other_bucket [OF laws(1,2,4) run this] show ?thesis .
qed

lemma collector_keeps_chunk:
  assumes laws: "lists_prefix c" "removes_only c view" "removes_all c view" "puts_only c view"
    and run: "collector_main env o' w = (exit, w')"
      "\<forall>ep ak key ssl lookup c'. cv_New env ep ak key ssl lookup = Inr c' \<longrightarrow> c' = c"
    and idx: "is_index_key key" "csum \<noteq> []" "parseIndex key data csum = Inr idx" "d \<in> set (digests idx)"
    and before: "archive_kept c view b key data csum (w_store w)"
    and after: "view (w_store w') b key \<noteq> None"
  shows "view (w_store w') b (chunk_key d) = view (w_store w) b (chunk_key d)"
  using run(1)
proof (cases rule: collector_main_cases)
  case (ran skey c' e)
  with run(2) have "c' = c" by blast
  from gc_main_keeps_chunk [OF laws ran(7) [unfolded this] idx before after] show ?thesis .
qed simp

text \<open>One step.\<close>

lemma system_step_keeps_chunk:
  assumes laws: "puts_stored c view" "puts_only c view" "copies c view" "finds_stored c view" "lists_prefix c"
      "removes_only c view" "removes_all c view" "tags_keep_bytes set_tags view"
    and idx: "is_index_key key" "csum \<noteq> []" "parseIndex key data csum = Inr idx" "d \<in> set (digests idx)"
    and step: "system_step c set_tags st st'"
    and kept: "archive_kept c view b key data csum st" "archive_kept c view b key data csum st'"
    and chunk: "view st b (chunk_key d) = Some v"
  shows "view st' b (chunk_key d) = Some v"
  using step
proof cases
  case (by_session env rq s r s')
  from session_handle_keeps_chunk [OF laws(1-4) this(1) HasPrefix_chunk_key(3) _ this(2), of b d] chunk
  show ?thesis by simp
next
  case (by_cleanup S e)
  with Delete_keeps_chunk [OF laws(6,5), of st S b d] chunk show ?thesis by simp
next
  case (by_http1 env rq a r' a')
  with http1_keeps_chunk [OF laws(6,5,2,8) by_http1(3-5)] chunk show ?thesis by simp
next
  case (by_collector env o' w exit w')
  with collector_keeps_chunk [OF laws(5-7,2) by_collector(3,4) idx, of b] kept chunk show ?thesis
    by (simp add: archive_kept_def)
qed

lemma digest_name:
  assumes "parseIndex key data csum = Inr idx" "d \<in> set (digests idx)"
  shows "chunkObjectName d = Inr (chunk_key d)"
proof -
  obtain bs where bs: "d = hex_EncodeToString bs" "length bs = 32" using assms by (rule parseIndex_digests)
  then have "hex_DecodeString d = (bs, True)" "length d = 64" by simp_all
  then show ?thesis by (simp add: chunkObjectName_def chunk_key_def slice_def bs)
qed

section \<open>Properties\<close>

text \<open>
  C1: What can be restored stays restorable. Take an archive that is stored in some bucket, and a
  chunk it needs. Let the programs do anything: any requests in any number of sessions, the
  removal of unfinished snapshots, any requests to any HTTP/1.1 server, and any runs of the
  collector, in any order. As long as the archive itself stays, the chunk stays exactly as it is; and
  a restore session that asks for it is told its length and, if as many bytes arrive, gets its
  bytes.
\<close>

theorem restorable_stays_restorable:
  assumes laws: "puts_stored c view" "puts_only c view" "copies c view" "finds_stored c view" "lists_prefix c"
      "removes_only c view" "removes_all c view" "tags_keep_bytes set_tags view"
    and idx: "is_index_key key" "csum \<noteq> []" "parseIndex key data csum = Inr idx" "d \<in> set (digests idx)"
    and start: "archive_kept c view b key data csum st" "view st b (chunk_key d) = Some v"
    and run: "(\<lambda>s t. system_step c set_tags s t \<and> archive_kept c view b key data csum t)\<^sup>*\<^sup>* st st'"
  shows "view st' b (chunk_key d) = Some v
    \<and> (\<forall>q s announced received. SelectedDataStore s = b \<longrightarrow> str_at q ''digest'' = d \<longrightarrow>
        reads_stored c view st' b (chunk_key d) \<longrightarrow> download_chunk c q st' s = Ok (announced, received) \<longrightarrow>
        announced = int (length v) \<and> (int (length received) = announced \<longrightarrow> received = v))"
proof -
  have "archive_kept c view b key data csum st' \<and> view st' b (chunk_key d) = Some v"
    using run
  proof (induction rule: rtranclp_induct)
    case base
    then show ?case using start by simp
  next
    case (step s t)
    then show ?case using system_step_keeps_chunk [OF laws idx, of s t b v] by blast
  qed
  then have stored: "view st' b (chunk_key d) = Some v" ..
  note down = download_stored [OF digest_name [OF idx(3,4)], of view st' b v c]
  show ?thesis
  proof (intro conjI allI impI)
    fix q s announced received
    assume "SelectedDataStore s = b" "str_at q ''digest'' = d" "reads_stored c view st' b (chunk_key d)"
      "download_chunk c q st' s = Ok (announced, received)"
    from down [OF stored this(3,1,2,4)]
    show "announced = int (length v)" "int (length received) = announced \<Longrightarrow> received = v" by simp_all
  qed (rule stored)
qed

lemma demo_offered: "offered mem_client mem_view (demo_store bs) ''ds'' demo_index demo_csum"
  unfolding offered_def demo_lists
  by (simp add: checksumFromMetadata_def str_at_Cons mem_client_def mem_get_def mem_view_def demo_store_def)

lemma demo_kept: "archive_kept mem_client mem_view ''ds'' ''backups/100|5|vm/a.fidx'' sample_index demo_csum (demo_store bs)"
  using demo_offered [of bs]
  unfolding archive_kept_def by (auto simp: mem_view_def demo_store_def intro!: exI [of _ demo_index])

theorem restorable_stays_restorable_witness:
  "system_step mem_client (PutObjectTagging mem_client) (demo_store [1, 2, 3]) (demo_store [1, 2])
   \<and> mem_view (demo_store [1, 2]) ''ds'' (chunk_key (sample_digest 2)) = Some [2]"
proof -
  let ?step = "\<lambda>s t. system_step mem_client (PutObjectTagging mem_client) s t
    \<and> archive_kept mem_client mem_view ''ds'' ''backups/100|5|vm/a.fidx'' sample_index demo_csum t"
  have step: "system_step mem_client (PutObjectTagging mem_client) (demo_store [1, 2, 3]) (demo_store [1, 2])"
  proof -
    obtain n where "collector_main demo_environment demo_options demo_world
     = (Ran gc_exit.Finished, \<lparr>w_store = demo_store [1, 2], w_tokens = n\<rparr>)" using demo_main ..
    from system_step.by_collector [OF this] show ?thesis
      by (simp add: demo_environment_def demo_world_def split: if_splits)
  qed
  then have run: "?step\<^sup>*\<^sup>* (demo_store [1, 2, 3]) (demo_store [1, 2])" using demo_kept by blast
  have parse: "parseIndex ''backups/100|5|vm/a.fidx'' sample_index demo_csum
      = Inr \<lparr>checksum = demo_csum, digests = [sample_digest 1, sample_digest 2], logicalSize = 8388608\<rparr>"
    using parse_sample_index by (simp add: demo_csum_def sample_digest_def)
  have "mem_view (demo_store [1, 2, 3]) ''ds'' (chunk_key (sample_digest 2)) = Some [2]"
    by (simp add: mem_view_def demo_store_def demo_distinct chunk_key_not_index)
  from restorable_stays_restorable [OF mem_puts_stored mem_puts_only mem_copies mem_finds_stored mem_lists_prefix
      mem_removes_only mem_removes_all mem_tags_keep_bytes demo_keys(7) _ parse _ demo_kept this run]
  show ?thesis using step hex_Sum256_nonempty by (simp add: demo_csum_def)
qed

end
