(* ===== verification/Startup.thy ===== *)
theory Startup
  imports ProxyServer
begin

text \<open>
  The start of the proxy (\<open>main\<close>, \<open>certFingeprint\<close> and \<open>RandStringBytes\<close> of
  \<open>cmd/pmoxs3backuproxy/main.go\<close>): from the parsed command line to the server that handles requests, and
  the tickets it hands out. PEM and X.509 decoding are parameters, as are the random source, which is
  the list of numbers it yields, and the TLS listener, which serves or returns an error. Log lines are left out.
\<close>

section \<open>Tickets\<close>

definition letterBytes :: string where
  "letterBytes = ''abcdefghijklmnopqrstuvwxyzABCDEFGHIJKLMNOPQRSTUVWXYZ''"

text \<open>The n-th call of \<open>rand.Intn(len(letterBytes))\<close> yields the n-th number of the list.\<close>

definition RandStringBytes :: "(nat \<Rightarrow> nat) \<Rightarrow> nat \<Rightarrow> string" where
  "RandStringBytes Intn n = map (\<lambda>i. letterBytes ! Intn i) [0..<n]"

section \<open>The fingerprint of the certificate\<close>

definition ToUpper :: "string \<Rightarrow> string" where
  "ToUpper s = map (\<lambda>c. if 97 \<le> (of_char c :: nat) \<and> (of_char c :: nat) \<le> 122 then char_of ((of_char c :: nat) - 32) else c) s"

definition certFingeprint ::
    "(string \<Rightarrow> bytes result) \<Rightarrow> (bytes \<Rightarrow> bytes option) \<Rightarrow> (bytes \<Rightarrow> bytes result) \<Rightarrow> string \<Rightarrow> string option" where
  "certFingeprint os_ReadFile pem_Decode x509_ParseCertificate cfile =
     (case os_ReadFile cfile of
        Inl e \<Rightarrow> None
      | Inr certData \<Rightarrow>
          (case pem_Decode certData of
             None \<Rightarrow> None
           | Some block \<Rightarrow>
               (case x509_ParseCertificate block of
                  Inl e \<Rightarrow> None
                | Inr raw \<Rightarrow>
                    Some (ToUpper (strings_Join (map (\<lambda>b. hex_EncodeToString [b]) (Sum256 raw)) '':'')))))"

section \<open>Trimming\<close>

text \<open>The encodings of the runes \<open>unicode.IsSpace\<close> holds of.\<close>

definition white_space :: "string list" where
  "white_space =
     map (map char_of)
       ([[9], [10], [11], [12], [13], [32], [194, 133], [194, 160], [225, 154, 128]]
        @ map (\<lambda>n. [226, 128, n]) [128..<139] @ [[226, 128, 168], [226, 128, 169], [226, 128, 175],
        [226, 129, 159], [227, 128, 128 :: nat]])"

lemma white_space_pos:
  assumes "List.find P white_space = Some w"
  shows "w \<noteq> []"
proof -
  have "w \<in> set white_space" using assms by (auto simp: find_Some_iff)
  moreover have "[] \<notin> set white_space" by (simp add: white_space_def)
  ultimately show ?thesis by auto
qed

function trim_left :: "string \<Rightarrow> string" where
  "trim_left s = (case List.find (HasPrefix s) white_space of Some w \<Rightarrow> trim_left (drop (length w) s) | None \<Rightarrow> s)"
  by auto
termination
proof (relation "measure length")
  fix s w
  assume found: "List.find (HasPrefix s) white_space = Some w"
  then have "HasPrefix s w" by (auto simp: find_Some_iff)
  then have "length w \<le> length s" by (metis HasPrefix_def length_take min.cobounded2 min.commute)
  with white_space_pos [OF found] show "(drop (length w) s, s) \<in> measure length" by (cases w) auto
qed simp

function trim_right :: "string \<Rightarrow> string" where
  "trim_right s =
     (case List.find (HasSuffix s) white_space of Some w \<Rightarrow> trim_right (take (length s - length w) s) | None \<Rightarrow> s)"
  by auto
termination
proof (relation "measure length")
  fix s w
  assume found: "List.find (HasSuffix s) white_space = Some w"
  then have "length w \<le> length s" by (auto simp: find_Some_iff HasSuffix_def)
  with white_space_pos [OF found] show "(take (length s - length w) s, s) \<in> measure length" by (cases w) auto
qed simp

declare trim_left.simps [simp del] trim_right.simps [simp del]

definition TrimSpace :: "string \<Rightarrow> string" where
  "TrimSpace s = trim_right (trim_left s)"

section \<open>The command line\<close>

record proxy_options =
  opt_version :: bool
  opt_cert :: string
  opt_key :: string
  opt_bind :: string
  opt_usessl :: bool
  opt_lookuptype :: string
  opt_endpoint :: string
  opt_ticketexpire :: u64
  opt_bucketcachettl :: u64
  opt_snapshotcachettl :: u64
  opt_usagecachettl :: u64
  opt_metadatacachettl :: u64
  opt_gcstatscachettl :: u64
  opt_reportdatastoreusage :: bool
  opt_reportarchivesize :: bool
  opt_reportencryption :: bool
  opt_reportgcstats :: bool
  opt_cacheinvalidatedir :: string
  opt_datastoresize :: u64
  opt_snapshotsize :: string
  opt_chunks3timeout :: u64
  opt_chunkstorageclass :: string
  opt_backupstorageclass :: string
  opt_indexedstorageclass :: string

definition defaultCacheTTLSeconds :: u64 where "defaultCacheTTLSeconds = 3600"

definition default_options :: proxy_options where
  "default_options =
     \<lparr>opt_version = False, opt_cert = ''server.crt'', opt_key = ''server.key'', opt_bind = ''127.0.0.1:8007'',
      opt_usessl = False, opt_lookuptype = ''auto'', opt_endpoint = [], opt_ticketexpire = 3600,
      opt_bucketcachettl = defaultCacheTTLSeconds, opt_snapshotcachettl = defaultCacheTTLSeconds,
      opt_usagecachettl = defaultCacheTTLSeconds, opt_metadatacachettl = defaultCacheTTLSeconds,
      opt_gcstatscachettl = defaultCacheTTLSeconds,
      opt_reportdatastoreusage = False, opt_reportarchivesize = False, opt_reportencryption = False,
      opt_reportgcstats = False, opt_cacheinvalidatedir = [], opt_datastoresize = 0,
      opt_snapshotsize = SnapshotSizeLogical, opt_chunks3timeout = 300, opt_chunkstorageclass = [],
      opt_backupstorageclass = [], opt_indexedstorageclass = []\<rparr>"

text \<open>\<open>time.Duration(n) * time.Second\<close>, in nanoseconds: the product wraps.\<close>

definition seconds_duration :: "u64 \<Rightarrow> int" where
  "seconds_duration n = int64_of (n * 1000000000)"

definition start_caches :: "proxy_options \<Rightarrow> proxy_caches" where
  "start_caches o' =
     \<lparr>bucketListCache = newTTLCache [] (seconds_duration (opt_bucketcachettl o')),
      snapshotListCache = newTTLCache [] (seconds_duration (opt_snapshotcachettl o')),
      datastoreUsageCache = newTTLCache zero_usage (seconds_duration (opt_usagecachettl o')),
      usageStatsCache = newTTLCache [] (seconds_duration (opt_gcstatscachettl o')),
      archiveSizeCache = newTTLCache 0 (seconds_duration (opt_metadatacachettl o')),
      manifestCryptModeCache = newTTLCache [] (seconds_duration (opt_metadatacachettl o'))\<rparr>"

text \<open>
  How the start ends: the process exits, stops with a message, panics because the listener failed, or
  serves: with the way it reaches the object store, its settings, and the state it starts from.
\<close>

datatype 's startup =
    Exits nat
  | Stops string
  | ListenPanics goerr
  | Serves "bool \<times> BucketLookupType" report_flags ticket_settings storageClassPolicy int "'s Server"

text \<open>\<open>ListenAndServeTLS\<close> on an address, with the files of a certificate and a key: it does not return while it serves.\<close>

definition proxy_main ::
    "(string \<Rightarrow> string \<Rightarrow> string \<Rightarrow> goerr option) \<Rightarrow> proxy_options \<Rightarrow> nat \<Rightarrow> fs \<Rightarrow> 's \<Rightarrow> 's startup" where
  "proxy_main ListenAndServeTLS o' pid files st =
     (if opt_version o' then Exits 0
      else if opt_endpoint o' = [] then Exits 1
      else if \<not> ValidSnapshotSizeMode (opt_snapshotsize o') then Stops ''Unknown -snapshotsize''
      else if opt_snapshotsize o' \<noteq> SnapshotSizeLogical \<and> \<not> opt_reportgcstats o'
      then Stops ''-snapshotsize requires the explicit -reportgcstats option''
      else
        (case ListenAndServeTLS (opt_bind o') (opt_cert o') (opt_key o') of
           Some err \<Rightarrow> ListenPanics err
         | None \<Rightarrow> Serves (opt_usessl o', GetLookupType (opt_lookuptype o'))
          \<lparr>reportDataStoreUsage = opt_reportdatastoreusage o', reportArchiveSize = opt_reportarchivesize o',
           reportEncryption = opt_reportencryption o', reportGCStats = opt_reportgcstats o',
           snapshotSizeMode = opt_snapshotsize o', datastoreCapacity = opt_datastoresize o'\<rparr>
          \<lparr>S3Endpoint = opt_endpoint o', TicketExpire = opt_ticketexpire o'\<rparr>
          \<lparr>Chunks = TrimSpace (opt_chunkstorageclass o'), Backups = TrimSpace (opt_backupstorageclass o'),
           Indexed = TrimSpace (opt_indexedstorageclass o')\<rparr>
          (seconds_duration (opt_chunks3timeout o'))
          \<lparr>Auth = [], connectionList = [],
           px_process = \<lparr>pp_caches = start_caches o',
             pp_invalidations = configureCacheInvalidations (opt_cacheinvalidatedir o') (opt_endpoint o')
               \<lparr>ci_directory = [], ci_endpoint = [], ci_seen = []\<rparr>,
             pp_pid = pid, pp_sequence = 0\<rparr>,
           px_files = files, px_store = st\<rparr>))"

section \<open>Lemmas\<close>

lemma seconds_duration_exact:
  assumes "unat n \<le> 9223372036"
  shows "seconds_duration n = int (unat n) * 1000000000"
proof -
  have "unat (n * 1000000000) = unat n * 1000000000"
    using assms by (simp add: unat_mult_lem [THEN iffD1])
  then have "uint (n * 1000000000) = int (unat n) * 1000000000" by (metis int_ops(7) of_nat_numeral uint_nat)
  moreover have "int (unat n) \<le> 9223372036" using assms by linarith
  ultimately show ?thesis by (simp add: seconds_duration_def int64_of_small)
qed

lemma letterBytes_letters: "set letterBytes \<subseteq> {c. c \<noteq> CHR '';''}"
  by (simp add: letterBytes_def)

lemma RandStringBytes_letters:
  assumes "\<And>i. Intn i < length letterBytes"
  shows "length (RandStringBytes Intn n) = n" and "CHR '';'' \<notin> set (RandStringBytes Intn n)"
proof -
  have "letterBytes ! Intn i \<in> set letterBytes" for i using assms [of i] by simp
  then show "CHR '';'' \<notin> set (RandStringBytes Intn n)"
    using letterBytes_letters by (fastforce simp: RandStringBytes_def)
qed (simp add: RandStringBytes_def)

lemma cookie_ticket_first:
  assumes "ticket \<noteq> []" "CHR '';'' \<notin> set ticket" "rest = [] \<or> hd rest = CHR '';''"
  shows "cookie_ticket (''PBSAuthCookie='' @ ticket @ rest) = Some ticket"
proof -
  have "takeWhile (\<lambda>ch. ch \<noteq> CHR '';'') (ticket @ rest) = ticket"
    using assms(2,3) by (cases rest) (auto simp: takeWhile_eq_all_conv takeWhile_append)
  then have "takeWhile (\<lambda>ch. ch \<noteq> CHR '';'') (drop 14 (''PBSAuthCookie='' @ ticket @ rest)) = ticket" by simp
  moreover have "HasPrefix (''PBSAuthCookie='' @ ticket @ rest) ''PBSAuthCookie=''" by (simp add: HasPrefix_def)
  ultimately show ?thesis
    using assms(1) by (subst cookie_ticket_unfold) (simp only: Let_def, simp)
qed

section \<open>Properties\<close>

text \<open>
  C38: A ticket the proxy hands out can be used. When a request for a ticket succeeds, and no other login
  of the same name overlapped it, the cookie with the random ticket, alone or followed by other cookies, is authenticated as that user, with a
  client and the configured time to live.
\<close>

theorem issued_ticket_authenticates:
  assumes rand: "\<And>i. Intn i < length letterBytes"
    and run: "access_ticket cfg minio_New (RandStringBytes Intn 64) now later user password a = (Ok t, a')"
    and rest: "rest = [] \<or> hd rest = CHR '';''"
  shows "\<exists>te. authenticate (''PBSAuthCookie='' @ t @ rest) a' = Some te \<and> AccessKeyID te = hd (Split user CHR ''@'')
    \<and> Client te \<noteq> None \<and> ExpireAt te = now + TicketExpire cfg"
proof -
  let ?t = "RandStringBytes Intn 64"
  have "?t \<noteq> []" "CHR '';'' \<notin> set ?t"
    using RandStringBytes_letters [of Intn 64, OF rand] by auto
  then have cookie: "cookie_ticket (''PBSAuthCookie='' @ ?t @ rest) = Some ?t" using rest by (rule cookie_ticket_first)
  have "t = ?t \<and> (\<exists>te. map_of (Auth a') ?t = Some te \<and> AccessKeyID te = hd (Split user CHR ''@'')
      \<and> Client te \<noteq> None \<and> ExpireAt te = now + TicketExpire cfg)"
    using run unfolding access_ticket_def Let_def
    by (auto simp: map_of_update split: option.splits sum.splits)
  then show ?thesis using cookie by (auto simp: authenticate_def)
qed

theorem issued_ticket_authenticates_witness:
  "\<exists>te. authenticate (''PBSAuthCookie='' @ RandStringBytes (\<lambda>_. 3) 64 @ ''; a=b'')
       (snd (access_ticket \<lparr>S3Endpoint = ''s3'', TicketExpire = 60\<rparr> (\<lambda>_ _ _. Inr mem_client) (RandStringBytes (\<lambda>_. 3) 64) 5 5
         ''root@pbs'' ''secret'' (idle_server tagged_store))) = Some te
     \<and> AccessKeyID te = hd (Split ''root@pbs'' CHR ''@'') \<and> Client te \<noteq> None \<and> ExpireAt te = 5 + 60"
proof -
  let ?cfg = "\<lparr>S3Endpoint = ''s3'', TicketExpire = 60 :: u64\<rparr>"
  have "access_ticket ?cfg (\<lambda>_ _ _. Inr mem_client) (RandStringBytes (\<lambda>_. 3) 64) 5 5 ''root@pbs'' ''secret''
      (idle_server tagged_store) = (Ok (RandStringBytes (\<lambda>_. 3) 64),
        snd (access_ticket ?cfg (\<lambda>_ _ _. Inr mem_client) (RandStringBytes (\<lambda>_. 3) 64) 5 5 ''root@pbs'' ''secret''
          (idle_server tagged_store)))"
    by (simp add: access_ticket_def idle_server_def mem_client_def Let_def)
  from issued_ticket_authenticates [OF _ this, of "''; a=b''"] show ?thesis by (simp add: letterBytes_def)
qed

text \<open>
  The times to live are exact up to 9223372036 seconds (\<open>seconds_duration_exact\<close>). One second more and the
  product in nanoseconds wraps to a negative duration, with which nothing in a cache is ever fresh.
\<close>

theorem seconds_duration_wraps: "seconds_duration 9223372037 < 0"
  by (simp add: seconds_duration_def int64_of_def)

end
