(* ===== verification/Spec2Isabelle.thy ===== *)
theory Spec2Isabelle
  imports Logging Logins SystemSafety Startup
begin

text \<open>
  \<^bold>\<open>The program.\<close> \<open>pmoxs3backuproxy\<close> speaks the protocol of a Proxmox Backup Server and keeps the backups in an
  S3 bucket. A client logs in and gets a ticket; with it it lists and manages datastores, which are
  buckets, over HTTP/1.1, or it upgrades its connection to an HTTP/2 session in which it backs up or
  restores one snapshot. A backup uploads chunks, named by the digest of their content and shared by
  all snapshots, and index files that list the digests of an archive. A separate collector removes
  expired snapshots and the chunks no index refers to. Both programs run on one host; a lock per
  datastore keeps sessions and collector apart, and token files tell the caches of a proxy that
  another process has changed a datastore.

  \<^bold>\<open>Layout of the bucket.\<close> \<open>backups/id|time|type/file\<close> holds the files of a snapshot, \<open>indexed/csum.fidx\<close> the
  reusable copies of indexes, \<open>chunks/aa/bb/rest\<close> the chunks, and one object the usage report.

  \<^bold>\<open>Theories\<close>, each with the sources it models (under \<open>src/\<close>):

  \<^item> \<open>Prelude\<close>: errors, strings, numbers, hexadecimal text, association lists as Go maps, little-endian
    words, and the locale \<open>stepper\<close> of state machines with an invariant. \<open>Sha256\<close> and \<open>Base64\<close>: the two
    codecs of the standard library the program relies on, written out.
  \<^item> \<open>ObjectStore\<close>: the S3 client as a record of functions over an arbitrary store, the laws theorems assume
    of it, readers of \<open>io\<close>, \<open>storage_class.go\<close>, and a store in memory on which the laws hold together.
  \<^item> \<open>Snapshots\<close> (\<open>internal/s3pmoxcommon/s3pmoxcommon.go\<close>, \<open>types.go\<close>): names, listing, latest snapshot, tags,
    deletion. The listing refines a declarative reading; prefixes are injective and prefix-free.
  \<^item> \<open>IndexFormat\<close> (\<open>indexsize.go\<close>, \<open>parseIndex\<close> and \<open>compareSum\<close> of the collector): sizes from ranged reads agree
    with the full parse.
  \<^item> \<open>Collector\<close> (\<open>cmd/garbagecollector/gc.go\<close>), \<open>UsageStats\<close> (\<open>stats.go\<close>), \<open>CollectorRun\<close> (\<open>main.go\<close>): listings,
    protection, mark and sweep; the report; a whole run from the lock to the exit. \<open>CollectorStart\<close>: the process
    around the run, from the command line, and its publications to the proxies.
  \<^item> \<open>Manifest\<close> (\<open>manifest.go\<close>): encryption modes from the manifest blob.
  \<^item> \<open>TtlCache\<close> (\<open>cmd/pmoxs3backuproxy/cache.go\<close>): the cache and, as a state machine, its concurrent readers,
    refreshes and invalidations. \<open>Invalidation\<close> (both \<open>cache_invalidation.go\<close>): token files with failing
    system calls, and the caches of a process.
  \<^item> \<open>ChunkUpload\<close> (\<open>chunk_upload.go\<close>): validation, both ways of storing a chunk, and the flight group as a
    state machine of concurrent uploads.
  \<^item> \<open>BackupSession\<close> (\<open>http2.go\<close>, \<open>signal.go\<close>): the session table, the lock as a state machine of proxies and
    collectors, the life of a session, shutdown.
  \<^item> \<open>IndexWriters\<close> and \<open>SessionApi\<close> (the HTTP/2 branches of \<open>ServeHTTP\<close> in \<open>main.go\<close>): writers, assignments, closes,
    blobs, downloads, the dispatch, and a session as a list of requests.
  \<^item> \<open>Reports\<close> (\<open>sizes.go\<close> and its callers in \<open>main.go\<close>): sizes, modes, usage, status, groups.
  \<^item> \<open>ProxyApi\<close> (\<open>main.go\<close>, \<open>hijack.go\<close>): tickets, the handlers of the datastore API, the take-over of a connection.
    \<open>ProxyServer\<close>: the dispatch of the HTTP/1.1 server. \<open>Logins\<close>: requests for a ticket as processes that take
    single steps on the shared maps, interleaved with each other, with other requests and with the ticket
    collector. \<open>Startup\<close>: the command line and the start, up to the listener.
  \<^item> \<open>Logging\<close> (\<open>internal/s3backuplog\<close>): levels, the debug switch, redirected output.
  \<^item> \<open>ArchiveCodec\<close>: the two index formats as one interface between the session that writes an archive and the
    collector that reads it. \<open>SystemSafety\<close>: sessions, servers and collectors as the steps of one system over
    one store.
  \<^item> This theory: further properties that span the components.

  \<^bold>\<open>How the code is rendered.\<close> Structs are records, and keep their field names where the logic allows; 64-bit and
  32-bit integers are words and wrap; times are integers in nanoseconds. Maps are association lists
  with one entry per key, so that iteration has an order; where Go leaves the order open a lemma shows
  that the result does not depend on it, or the order is an argument. Errors are values of a sum, HTTP
  answers are \<open>Ok\<close> or \<open>Err\<close> with the status, and a panic is an outcome of its own, which \<open>net/http\<close> recovers.
  State is passed explicitly: the store, the session, the caches, the file system. Code outside the
  repository, the S3 client, JSON, zstd, X.509, the clock, the random source and system calls, is an
  argument; what a theorem needs of it is a named hypothesis (\<open>puts_stored\<close>, \<open>removes_only\<close>, \<open>lists_prefix\<close> and
  so on), and a witness with the store in memory shows that these can hold.

  \<^bold>\<open>Interfaces\<close> are locales, interpreted on the model: \<open>stepper\<close> by the cache, the flight group, the locks and
  the logins; a cache of values by \<open>ttlCache\<close>; a naming of chunks by the proxy and the collector together; \<open>index_codec\<close>, what the
  collector relies on in an archive, by the fixed and by the dynamic format.

  \<^bold>\<open>Loops.\<close> Loops over lists are structural. The loop that closes a fixed index may run forever, because its
  offset wraps; it is a partial function whose value \<open>None\<close> is not returning, and a property says
  when it returns. The other loops are proved to terminate by a measure. No fuel is used.

  \<^bold>\<open>What is shown.\<close> For the collector: the mark phase refines its specification and fails closed, a run never
  loses a referenced chunk, a protected snapshot is not scheduled, the sweep is ordered, corruption is
  marked. For backups: stored chunks are what was sent, a closed index is what was assigned and is
  read that way by the collector, a session touches its own snapshot only and an unfinished one is
  removed, a restore gets back what was uploaded. For all together: whatever is done through sessions,
  servers and collectors, and in whatever order, the chunks of an archive that is kept stay, and a restore
  receives them. For processes: a session and the collector never run
  on one datastore together, and an idle datastore can be locked. For the caches: nothing read before
  an invalidation is served after it, also across processes. For the HTTP/1.1 server: access needs a
  client the object store accepted, except for a user name whose logins overlapped, and there it is shown how a
  refused client, or none, gets a ticket; requests write only what they name, and announce it unless the
  object store reported the write as failed. Some
  theorems state what the code does where that is not what it should do; the manifest lists them as
  findings.

  \<^bold>\<open>Not modelled.\<close> The messages sent to the log; parsing of flags; TLS and the listener, which is an argument that serves or returns an error; the signed
  HEAD request of the usage shortcut, whose answer is an argument; deadlines, which only turn into
  errors of the client; the interleaving of the handlers of one session, of the requests of one server, and of
  requests with a run of the collector: a request and a run are single steps, except in the state machines of
  the caches, the chunk uploads, the locks and the logins; crashes of unsynchronised accesses to a Go map;
  lookup times that depend on the schedule of the workers; hosts that are not little-endian, where
  \<open>NativeEndian\<close> differs; the test client under \<open>test/\<close>.
\<close>

section \<open>A backup session and the rest of the store\<close>

lemma backup_store:
  "sw_store (backup serve publish err c endpoint ds S w) \<in>
     {sw_store w, fst (serve (sw_store w)), snd (Delete c (fst (serve (sw_store w))) (S\<lparr>Datastore := ds\<rparr>))}"
  by (simp add: backup_def Let_def split: prod.split sum.split)

lemma serve_session_keeps:
  assumes laws: "puts_stored c view" "puts_only c view" "copies c view" "uploads_as_group env"
    and out: "b \<noteq> ds \<or> \<not> session_area (new_session ds S) k"
  shows "view (fst (serve_session env c rqs ds S st)) b k = view st b k"
proof -
  have "b \<noteq> SelectedDataStore (new_session ds S) \<or> \<not> session_area (new_session ds S) k"
    using out by (simp add: new_session_def)
  from serve_requests_keeps [OF laws this prod.collapse [symmetric], of rqs st] show ?thesis
    by (simp add: serve_session_def case_prod_unfold)
qed

text \<open>
  C13: A backup touches no other snapshot. Whatever a client sends in a backup session, and whether or
  not it finishes, so that the half-made snapshot is deleted at the end, every file of every other
  snapshot is stored after the session as before, in the datastore of the session and in all others.
\<close>

theorem backup_keeps_other_snapshots:
  assumes laws: "puts_stored c view" "puts_only c view" "copies c view" "uploads_as_group env"
      "removes_only c view" "lists_prefix c"
    and wf: "wf_identity S" "wf_identity S'"
    and other: "(BackupID S', BackupTime S', BackupType S') \<noteq> (BackupID S, BackupTime S, BackupType S)"
  shows "view (sw_store (backup (serve_session env c rqs ds S) publish err c endpoint ds S w)) b (S3Prefix S' @ ''/'' @ fname)
    = view (sw_store w) b (S3Prefix S' @ ''/'' @ fname)"
proof -
  let ?k = "S3Prefix S' @ ''/'' @ fname" and ?st = "fst (serve_session env c rqs ds S (sw_store w))"
  have "\<not> HasPrefix ?k (S3Prefix S @ ''/'')"
    using S3Prefix_slash_disjoint [OF wf] S3Prefix_inject [OF wf] other by auto
  then have out: "\<not> session_area (new_session ds S) ?k" "\<not> HasPrefix ?k (S3Prefix (S\<lparr>Datastore := ds\<rparr>) @ ''/'')"
    by (simp_all add: session_area_def snapshot_area_def new_session_def S3Prefix_def HasPrefix_def)
  have "view ?st b ?k = view (sw_store w) b ?k"
    using serve_session_keeps [OF laws(1-4)] out(1) by blast
  moreover have "view (snd (Delete c ?st (S\<lparr>Datastore := ds\<rparr>))) b ?k = view ?st b ?k"
    using Delete_only_prefix [OF laws(5,6) out(2)] .
  ultimately show ?thesis
    using backup_store [of "serve_session env c rqs ds S" publish err c endpoint ds S w] by auto
qed

theorem backup_keeps_other_snapshots_witness:
  "let S' = sample_snapshot\<lparr>BackupTime := 1800000000\<rparr>;
       st = [((''ds'', S3Prefix S' @ ''/'' @ ''a.fidx''), ([1], mem_info [] [] []))]
   in mem_view (sw_store (backup (serve_session sample_env_api mem_client [blob_request] ''ds'' sample_snapshot) Suc None
        mem_client ''s3'' ''ds'' sample_snapshot (quiet_world\<lparr>sw_store := st\<rparr>))) ''ds'' (S3Prefix S' @ ''/'' @ ''a.fidx'')
      = Some [1]"
proof -
  let ?S' = "sample_snapshot\<lparr>BackupTime := 1800000000\<rparr>"
  have "uploads_as_group sample_env_api" by (simp add: uploads_as_group_def sample_env_api_def)
  moreover have "wf_identity sample_snapshot" "wf_identity ?S'" "BackupTime ?S' \<noteq> BackupTime sample_snapshot"
    by (simp_all add: wf_identity_def sample_snapshot_def zero_snapshot_def)
  ultimately show ?thesis
    unfolding Let_def
    by (subst backup_keeps_other_snapshots [OF mem_puts_stored mem_puts_only mem_copies _ mem_removes_only
          mem_lists_prefix, of _ sample_snapshot ?S']) (simp_all add: mem_view_def)
qed

section \<open>From the writer of an archive to the collector\<close>

text \<open>
  C3: What an archive needs survives collection. A client closes a new fixed index with a digest
  in every slot, and the handler reports success. Later the collector runs on that bucket, with
  any settings and any outcome, and the archive is unchanged since then, listed, and readable. If
  the archive is still stored after the run, then for every slot the chunk of its digest is stored
  after the run exactly as before it.
\<close>

theorem archive_survives_collection:
  assumes laws: "puts_stored c view" "puts_only c view" "copies c view" "lists_prefix c"
      "removes_only c view" "removes_all c view"
    and w: "closes q s wr" "ReuseCSUM wr = []" "HasSuffix (FidxName wr) ''.fidx''"
    and sizes: "sizes_ok wr" "length (Assignments wr) = slot_count wr" "4096 + 32 * slot_count wr < 2 ^ 64"
    and full: "\<And>j. j < slot_count wr \<Longrightarrow> slot wr j \<noteq> None" "\<forall>(k, v) \<in> set (Assignments wr). length v = 32"
    and uuid: "length (ce_uuid env) = 16"
    and csum: "str_at q ''csum'' = hex_EncodeToString (Sum256 (concat (slot_digests wr)))"
    and key: "Key obj = S3Prefix (SessionSnapshot s) @ ''/'' @ FidxName wr"
    and closed: "fixed_close env c q st s = Some (Returns (Ok ()), st1, s1)"
    and later: "gc_bucket cfg = SelectedDataStore s"
      "view (w_store w) (gc_bucket cfg) (Key obj) = view st1 (gc_bucket cfg) (Key obj)"
      "offered c view (w_store w) (gc_bucket cfg) obj (str_at q ''csum'')"
    and run: "gc_main json publish acquired c cfg t t2 w = (exit, w')"
    and stored: "view (w_store w') (gc_bucket cfg) (Key obj) \<noteq> None"
    and d: "slot wr j = Some d" "j < slot_count wr"
  shows "view (w_store w') (gc_bucket cfg) (chunk_key (hex_EncodeToString d))
    = view (w_store w) (gc_bucket cfg) (chunk_key (hex_EncodeToString d))"
proof -
  let ?x = "\<lparr>fa_uuid = ce_uuid env, fa_ctime = ce_now env, fa_size = WriterSize wr, fa_chunksize = Chunksize wr,
    fa_digests = slot_digests wr\<rparr>"
  have "\<forall>j < slot_count wr. slot wr j \<noteq> None" using full(1) by blast
  note kept_file = fixed_close_stores_file [OF laws(1-3) w(1,2) sizes this full(2) uuid csum closed refl]
  have suffix: "HasSuffix (Key obj) ''.fidx''" using HasSuffix_name [OF w(3)] by (simp add: key)
  have before: "view (w_store w) (gc_bucket cfg) (Key obj) = Some (fixed_file ?x)"
    using later(1,2) kept_file(2) key by simp
  have "d \<in> set (fa_digests ?x)" using d by (force simp: slot_digests_def)
  from fixed_codec.survives_collection [OF laws(4-6,2) kept_file(1) suffix before later(3) [unfolded kept_file(3)] run stored this]
  show ?thesis .
qed

text \<open>
  A session closes an archive of two chunks; later the bucket holds the archive, its chunks and an orphan, and
  the collector gets the lock, runs to its end and removes the orphan.
\<close>

definition archive_writer :: Writer where
  "archive_writer = sample_writer\<lparr>FidxName := ''a.fidx''\<rparr>"

definition archive_session :: session where
  "archive_session = (sample_session archive_writer)\<lparr>SessionSnapshot := sample_snapshot\<lparr>BackupTime := 5\<rparr>\<rparr>"

definition archive_query :: "(string, string) gomap" where
  "archive_query = close_query (Sum256 (replicate 32 1 @ replicate 32 2))"

lemma archive_slots:
  "slot_count archive_writer = 2" "slot archive_writer 0 = Some (replicate 32 1)" "slot archive_writer 1 = Some (replicate 32 2)"
  "sizes_ok archive_writer"
  using sample_writer_slots by (simp_all add: archive_writer_def slot_count_def slot_def sizes_ok_def)

lemma archive_slot_digests: "slot_digests archive_writer = [replicate 32 1, replicate 32 2]"
  by (simp add: slot_digests_def archive_slots numeral_2_eq_2 archive_slots [unfolded One_nat_def])

lemma archive_closes:
  "closes archive_query archive_session archive_writer" "ReuseCSUM archive_writer = []"
  "HasSuffix (FidxName archive_writer) ''.fidx''"
  "length (Assignments archive_writer) = slot_count archive_writer" "4096 + 32 * slot_count archive_writer < 2 ^ 64"
  "\<forall>(k, v) \<in> set (Assignments archive_writer). length v = 32" "length (ce_uuid sample_env) = 16"
  "str_at archive_query ''csum'' = hex_EncodeToString (Sum256 (concat (slot_digests archive_writer)))"
proof -
  show "closes archive_query archive_session archive_writer"
    using closes_sample [of "Sum256 (replicate 32 1 @ replicate 32 2)" archive_writer]
    by (simp add: closes_def archive_session_def archive_query_def)
  show "str_at archive_query ''csum'' = hex_EncodeToString (Sum256 (concat (slot_digests archive_writer)))"
    by (simp add: archive_slot_digests archive_query_def close_query_csum)
  show "length (Assignments archive_writer) = slot_count archive_writer" "4096 + 32 * slot_count archive_writer < 2 ^ 64"
    by (simp_all only: archive_slots) (simp_all add: archive_writer_def sample_writer_def)
qed (simp_all add: archive_writer_def sample_writer_def zero_writer_def HasSuffix_def sample_env_def)

lemma archive_place:
  "SelectedDataStore archive_session = ''ds''"
  "S3Prefix (SessionSnapshot archive_session) @ ''/'' @ FidxName archive_writer = ''backups/100|5|vm/a.fidx''"
  by (simp_all add: archive_session_def sample_session_def archive_writer_def sample_snapshot_def zero_snapshot_def S3Prefix_def
      format_nat.simps [of 5] digit_char_def char_of_def bit_numeral_rec bit_0)

lemma archive_full: "j < slot_count archive_writer \<Longrightarrow> slot archive_writer j \<noteq> None"
  using archive_slots by (auto simp: less_2_cases_iff)

lemma archive_closed:
  obtains st1 s1 where
    "fixed_close sample_env mem_client archive_query st archive_session = Some (Returns (Ok ()), st1, s1)"
    "mem_view st1 ''ds'' ''backups/100|5|vm/a.fidx'' = Some sample_index"
proof -
  obtain data r st1 s1
    where store: "store_fixed mem_client (str_at archive_query ''csum'') data archive_writer st archive_session = (r, st1)"
      and close: "fixed_close sample_env mem_client archive_query st archive_session = Some (Returns r, st1, s1)"
    using fixed_close_new [OF archive_closes(1,2) archive_slots(4) archive_closes(4,5) archive_full archive_closes(6,7,8)]
    by metis
  from store have "r = Ok ()"
    by (auto simp: store_fixed_def Let_def mem_client_def mem_put_def bytes_NewReader_def putOptions_def
        archive_session_def sample_session_def archive_writer_def indexedCopyOptions_def map_of_update)
  note closed = close [unfolded this]
  have "\<forall>j < slot_count archive_writer. slot archive_writer j \<noteq> None" using archive_full by blast
  from fixed_close_stores_file(2) [OF mem_puts_stored mem_puts_only mem_copies archive_closes(1,2) archive_slots(4)
      archive_closes(4,5) this archive_closes(6,7,8) closed refl, unfolded archive_place]
  have "mem_view st1 ''ds'' ''backups/100|5|vm/a.fidx'' = Some sample_index"
    by (simp add: fixed_file_def fixed_payload_def archive_slot_digests sample_index_def)
      (simp add: sample_env_def archive_writer_def sample_writer_def)
  then show ?thesis using that [OF closed] by blast
qed

theorem archive_survives_collection_witness:
  "\<exists>st1 s1. fixed_close sample_env mem_client archive_query (tl (demo_store [1, 2, 3])) archive_session
      = Some (Returns (Ok ()), st1, s1)
    \<and> mem_view st1 ''ds'' (Key demo_index) = mem_view (demo_store [1, 2, 3]) ''ds'' (Key demo_index)
    \<and> fst demo_run = gc_exit.Finished
    \<and> mem_view (w_store (snd demo_run)) ''ds'' (chunk_key (hex_EncodeToString (replicate 32 2))) = Some [2]
    \<and> mem_view (w_store (snd demo_run)) ''ds'' (chunk_key (sample_digest 3)) = None"
proof -
  let ?w = "\<lparr>w_store = demo_store [1, 2, 3], w_tokens = 0\<rparr>"
  obtain st1 s1
    where close: "fixed_close sample_env mem_client archive_query (tl (demo_store [1, 2, 3])) archive_session
        = Some (Returns (Ok ()), st1, s1)"
      and archive: "mem_view st1 ''ds'' ''backups/100|5|vm/a.fidx'' = Some sample_index" by (rule archive_closed)
  have key: "Key demo_index = S3Prefix (SessionSnapshot archive_session) @ ''/'' @ FidxName archive_writer"
    by (simp only: archive_place demo_infos)
  have same: "mem_view (w_store ?w) (gc_bucket demo_config) (Key demo_index) = mem_view st1 (gc_bucket demo_config) (Key demo_index)"
    using archive by (auto simp: mem_view_def demo_store_def demo_config_def)
  have off: "offered mem_client mem_view (w_store ?w) (gc_bucket demo_config) demo_index (str_at archive_query ''csum'')"
    using demo_offered [of "[1, 2, 3]"]
    by (simp add: demo_config_def archive_query_def close_query_csum flip: demo_csum_def)
  have run: "gc_main (\<lambda>_. Inl (Error ''none'')) (\<lambda>_. Suc) True mem_client demo_config 3000000000 3000000000 ?w
      = (gc_exit.Finished, snd demo_run)"
    using demo_run_eq unfolding demo_run_def by (simp add: prod_eq_iff)
  have stored: "mem_view (w_store (snd demo_run)) (gc_bucket demo_config) (Key demo_index) \<noteq> None"
    unfolding demo_run_eq by (simp add: mem_view_def demo_store_def demo_config_def)
  have "gc_bucket demo_config = SelectedDataStore archive_session" "1 < slot_count archive_writer"
    by (simp_all add: demo_config_def archive_session_def sample_session_def archive_slots)
  note archive_survives_collection [OF mem_puts_stored mem_puts_only mem_copies mem_lists_prefix mem_removes_only
      mem_removes_all archive_closes(1,2,3) archive_slots(4) archive_closes(4,5) archive_full archive_closes(6,7,8) key
      close this(1) same off run stored archive_slots(3) this(2)]
  moreover have "mem_view (demo_store [1, 2, 3]) ''ds'' (chunk_key (sample_digest 2)) = Some [2]"
    by (simp add: mem_view_def demo_store_def demo_distinct chunk_key_not_index)
  moreover have "mem_view (w_store (snd demo_run)) ''ds'' (chunk_key (sample_digest 3)) = None"
    unfolding demo_run_eq by (simp add: mem_view_def demo_store_def demo_distinct chunk_key_not_index)
  moreover have "fst demo_run = gc_exit.Finished" by (simp add: demo_run_eq)
  ultimately show ?thesis
    using close same by (auto simp: demo_config_def sample_digest_def)
qed

text \<open>
  The same for a dynamic index, through the same interface: every chunk assigned to it survives.
\<close>

theorem dynamic_archive_survives_collection:
  assumes laws: "puts_stored c view" "puts_only c view" "lists_prefix c" "removes_only c view" "removes_all c view"
    and w: "closes q s w0" "wr = load_known (KnownChunksSizes s) w0" "HasSuffix (FidxName w0) ''.didx''"
      "\<forall>(k, v) \<in> set (Assignments w0). length v = 32" "length (ce_uuid env) = 16"
    and keys: "keys = sort (map fst (Assignments w0))" "\<forall>k \<in> set keys. size_known wr k"
    and x: "x = \<lparr>da_uuid = ce_uuid env, da_ctime = ce_now env, da_entries = map (dynamic_entry wr) keys\<rparr>"
    and csum: "str_at q ''csum'' = hex_EncodeToString (Sum256 (dynamic_payload x))"
    and key: "Key obj = S3Prefix (SessionSnapshot s) @ ''/'' @ FidxName w0"
    and closed: "dynamic_close json_Marshal env c q st s = (Returns (Ok ()), st1, s1)"
    and later: "gc_bucket cfg = SelectedDataStore s"
      "view (w_store w) (gc_bucket cfg) (Key obj) = view st1 (gc_bucket cfg) (Key obj)"
      "offered c view (w_store w) (gc_bucket cfg) obj (str_at q ''csum'')"
    and run: "gc_main json publish acquired c cfg t t2 w = (exit, w')"
    and stored: "view (w_store w') (gc_bucket cfg) (Key obj) \<noteq> None"
    and k: "k \<in> set keys"
  shows "view (w_store w') (gc_bucket cfg) (chunk_key (hex_EncodeToString (chunk_at wr k)))
    = view (w_store w) (gc_bucket cfg) (chunk_key (hex_EncodeToString (chunk_at wr k)))"
proof -
  note kept_file = dynamic_close_stores_file [OF laws(1,2) w(1,2,4,5) keys csum closed x]
  have suffix: "HasSuffix (Key obj) ''.didx''" using HasSuffix_name [OF w(3)] by (simp add: key)
  have before: "view (w_store w) (gc_bucket cfg) (Key obj) = Some (dynamic_file x)"
    using later(1,2) kept_file(2) key by simp
  have "chunk_at wr k \<in> set (map snd (da_entries x))" using k by (force simp: x dynamic_entry_def)
  from dynamic_codec.survives_collection [OF laws(3-5,2) kept_file(1) suffix before later(3) [unfolded csum] run stored this]
  show ?thesis .
qed

end
